(* ===== verification/Prelude.thy ===== *)
theory Prelude
  imports Main "HOL-Library.Word"
begin

text \<open>
  What every component of the development shares: the machine types of the Rust program, the
  outcome of a fallible Rust function (a value, an error or a panic), generic lemmas on lists
  and options, and a run of a state machine with the rule that lifts a one-step fact to runs.
\<close>

section \<open>Machine types\<close>

text \<open>
  Integers keep their width: \<open>u64\<close> is a 64-bit word read by \<open>unat\<close>, \<open>i64\<close> the same bits read
  by \<open>sint\<close>. The fixed byte strings of the alloy library (\<open>B256\<close>, \<open>Address\<close>, \<open>Bloom\<close> and the
  eight bytes of a \<open>PayloadId\<close>) are only copied and compared by the program: words of their
  size. \<open>usize\<close> counts are naturals; \<open>Vec<u8>\<close> and \<open>Bytes\<close> are byte lists.
\<close>

type_synonym u8 = "8 word"
type_synonym u64 = "64 word"
type_synonym i64 = "64 word"
type_synonym u128 = "128 word"
type_synonym u256 = "256 word"
type_synonym b256 = "256 word"
type_synonym address = "160 word"
type_synonym bloom = "2048 word"
type_synonym bytes = "8 word list"
type_synonym payload_id = "64 word"

lemma unat_u64_less: "unat (w :: u64) < 2 ^ 64"
  using unsigned_less [of w, where ?'a = nat] by simp

text \<open>\<open>saturating_sub\<close> and \<open>saturating_add\<close> on \<open>u64\<close>.\<close>

definition sat_sub :: "u64 \<Rightarrow> u64 \<Rightarrow> u64" where
  "sat_sub a b = (if a < b then 0 else a - b)"

definition sat_add :: "u64 \<Rightarrow> u64 \<Rightarrow> u64" where
  "sat_add a b = (if unat a + unat b < 2 ^ 64 then a + b else - 1)"

lemma unat_sat_sub: "unat (sat_sub a b) = unat a - unat b"
  by (auto simp: sat_sub_def word_less_nat_alt unat_sub_if_size)

lemma unat_sat_add: "unat (sat_add a b) = min (unat a + unat b) (2 ^ 64 - 1)"
proof -
  have "unat (- 1 :: u64) = 2 ^ 64 - 1" by (simp add: unsigned_minus_1_eq_mask mask_eq_exp_minus_1)
  moreover have "unat (a + b) = unat a + unat b" if "unat a + unat b < 2 ^ 64"
    using that by (subst unat_plus_if_size) (simp add: word_size)
  ultimately show ?thesis by (auto simp: sat_add_def min_def)
qed

section \<open>Outcomes of fallible functions\<close>

text \<open>
  A Rust function that returns \<open>Result\<close> ends with a value (\<open>Ok\<close>), with an error (\<open>Err\<close>), or
  panics (\<open>unwrap\<close> on \<open>None\<close>, a slice out of range, a failed \<open>debug_assert\<close>).
\<close>

datatype ('e, 'a) result = Ok 'a | Err 'e | Panic

fun bind_result :: "('e, 'a) result \<Rightarrow> ('a \<Rightarrow> ('e, 'b) result) \<Rightarrow> ('e, 'b) result" where
  "bind_result (Ok a) f = f a"
| "bind_result (Err e) f = Err e"
| "bind_result Panic f = Panic"

text \<open>\<open>Option::unwrap\<close>, and \<open>Option::ok_or\<close>.\<close>

definition unwrap :: "'a option \<Rightarrow> ('e, 'a) result" where
  "unwrap x = (case x of Some a \<Rightarrow> Ok a | None \<Rightarrow> Panic)"

definition ok_or :: "'a option \<Rightarrow> 'e \<Rightarrow> ('e, 'a) result" where
  "ok_or x e = (case x of Some a \<Rightarrow> Ok a | None \<Rightarrow> Err e)"

text \<open>\<open>Vec::first\<close>, and \<open>unwrap_or_default\<close> with the default given.\<close>

definition first :: "'a list \<Rightarrow> 'a option" where
  "first xs = (case xs of [] \<Rightarrow> None | x # _ \<Rightarrow> Some x)"

definition unwrap_or :: "'a option \<Rightarrow> 'a \<Rightarrow> 'a" where
  "unwrap_or x d = (case x of Some a \<Rightarrow> a | None \<Rightarrow> d)"

text \<open>The iterator \<open>collect::<Result<Vec<_>, _>>()\<close>: the values, or the first failure.\<close>

fun collect_results :: "('e, 'a) result list \<Rightarrow> ('e, 'a list) result" where
  "collect_results [] = Ok []"
| "collect_results (r # rs) =
     bind_result r (\<lambda>x. bind_result (collect_results rs) (\<lambda>xs. Ok (x # xs)))"

named_theorems outcome_simps \<open>unfolding the outcome combinators\<close>

declare unwrap_def [outcome_simps] ok_or_def [outcome_simps] unwrap_or_def [outcome_simps]
  first_def [outcome_simps]

lemma bind_result_eq_Ok [simp]:
  "bind_result r f = Ok b \<longleftrightarrow> (\<exists>a. r = Ok a \<and> f a = Ok b)"
  by (cases r) auto

lemma bind_result_eq_Err:
  "bind_result r f = Err e \<longleftrightarrow> r = Err e \<or> (\<exists>a. r = Ok a \<and> f a = Err e)"
  by (cases r) auto

lemma bind_result_eq_Panic:
  "bind_result r f = Panic \<longleftrightarrow> r = Panic \<or> (\<exists>a. r = Ok a \<and> f a = Panic)"
  by (cases r) auto

lemmas bind_result_cases = bind_result_eq_Err bind_result_eq_Panic

lemma bind_result_assoc:
  "bind_result (bind_result r f) g = bind_result r (\<lambda>x. bind_result (f x) g)"
  by (cases r) simp_all

lemma unwrap_simps [simp]: "unwrap (Some a) = Ok a" "unwrap None = Panic"
  by (simp_all add: unwrap_def)

lemma ok_or_simps [simp]: "ok_or (Some a) e = Ok a" "ok_or None e = Err e"
  by (simp_all add: ok_or_def)

lemma unwrap_or_simps [simp]: "unwrap_or (Some a) d = a" "unwrap_or None d = d"
  by (simp_all add: unwrap_or_def)

lemma first_simps [simp]: "first [] = None" "first (x # xs) = Some x"
  by (simp_all add: first_def)

lemma first_conv_hd: "xs \<noteq> [] \<Longrightarrow> first xs = Some (hd xs)"
  by (cases xs) simp_all

lemma collect_results_Ok [simp]: "collect_results (map Ok xs) = Ok xs"
  by (induction xs) simp_all

lemma collect_results_eq_Ok:
  "collect_results rs = Ok xs \<longleftrightarrow> rs = map Ok xs"
proof (induction rs arbitrary: xs)
  case Nil
  then show ?case by auto
next
  case (Cons r rs)
  then show ?case by (cases r; cases xs) auto
qed

section \<open>Lists\<close>

text \<open>\<open>Vec::resize_with\<close> when the vector is shorter than the wanted length.\<close>

definition grow_to :: "nat \<Rightarrow> 'a \<Rightarrow> 'a list \<Rightarrow> 'a list" where
  "grow_to n d xs = (if length xs < n then xs @ replicate (n - length xs) d else xs)"

lemma length_grow_to [simp]: "length (grow_to n d xs) = max n (length xs)"
  by (simp add: grow_to_def)

lemma nth_grow_to:
  "i < max n (length xs) \<Longrightarrow> grow_to n d xs ! i = (if i < length xs then xs ! i else d)"
  by (auto simp: grow_to_def nth_append)

lemma take_grow_to [simp]: "k \<le> length xs \<Longrightarrow> take k (grow_to n d xs) = take k xs"
  by (simp add: grow_to_def)

text \<open>\<open>slice::get\<close>.\<close>

definition get :: "'a list \<Rightarrow> nat \<Rightarrow> 'a option" where
  "get xs i = (if i < length xs then Some (xs ! i) else None)"

lemma get_eq_Some [simp]: "get xs i = Some x \<longleftrightarrow> i < length xs \<and> xs ! i = x"
  by (auto simp: get_def)

lemma get_eq_None [simp]: "get xs i = None \<longleftrightarrow> length xs \<le> i"
  by (auto simp: get_def)

text \<open>\<open>map_while(|x| x)\<close> on an iterator of options: the values before the first \<open>None\<close>.\<close>

fun map_while_some :: "'a option list \<Rightarrow> 'a list" where
  "map_while_some (Some x # xs) = x # map_while_some xs"
| "map_while_some _ = []"

lemma map_while_some_prefix:
  assumes "w \<le> length xs" and "\<And>i. i < w \<Longrightarrow> xs ! i \<noteq> None"
    and "w < length xs \<Longrightarrow> xs ! w = None"
  shows "map_while_some xs = map the (take w xs)"
  using assms
proof (induction xs arbitrary: w)
  case Nil
  then show ?case by simp
next
  case (Cons x xs)
  show ?case
  proof (cases w)
    case 0
    with Cons.prems(3) show ?thesis by (cases x) auto
  next
    case (Suc v)
    with Cons.prems(2)[of 0] obtain y where x: "x = Some y" by (cases x) auto
    have "map_while_some xs = map the (take v xs)"
    proof (rule Cons.IH)
      show "v \<le> length xs" using Cons.prems(1) Suc by simp
      show "xs ! i \<noteq> None" if "i < v" for i
        using Cons.prems(2)[of "Suc i"] that Suc by simp
      show "xs ! v = None" if "v < length xs"
        using Cons.prems(3) that Suc by simp
    qed
    with x Suc show ?thesis by simp
  qed
qed

section \<open>State machines and their runs\<close>

text \<open>
  A component that is driven by inputs is a step function from a state and an input to the
  next state and the outputs it produces. A run feeds the inputs one after the other and
  concatenates the outputs.
\<close>

fun run :: "('s \<Rightarrow> 'i \<Rightarrow> 's \<times> 'o list) \<Rightarrow> 's \<Rightarrow> 'i list \<Rightarrow> 's \<times> 'o list" where
  "run step s [] = (s, [])"
| "run step s (i # is) =
     (let (s', os) = step s i; (s'', os') = run step s' is in (s'', os @ os'))"

lemma run_append:
  "run step s (is @ js) =
     (let (s', os) = run step s is; (s'', os') = run step s' js in (s'', os @ os'))"
  by (induction "is" arbitrary: s) (auto simp: Let_def split: prod.splits)

lemma run_Cons_fst [simp]: "fst (run step s (i # is)) = fst (run step (fst (step s i)) is)"
  by (simp add: Let_def split: prod.splits)

lemma run_Cons_snd [simp]:
  "snd (run step s (i # is)) = snd (step s i) @ snd (run step (fst (step s i)) is)"
  by (simp add: Let_def split: prod.splits)

lemma run_snoc_fst: "fst (run step s (is @ [i])) = fst (step (fst (run step s is)) i)"
  by (simp add: run_append Let_def split: prod.splits)

lemma run_snoc_snd:
  "snd (run step s (is @ [i])) = snd (run step s is) @ snd (step (fst (run step s is)) i)"
  by (simp add: run_append Let_def split: prod.splits)

declare run.simps(2) [simp del]

text \<open>
  The interface a component offers when it promises that a relation between its state and the
  whole history of its outputs survives every step on an admissible input. The client's rule,
  proved once, is that it then survives every run.
\<close>

locale machine =
  fixes step :: "'s \<Rightarrow> 'i \<Rightarrow> 's \<times> 'o list"
    and admissible :: "'i \<Rightarrow> bool"
    and hist :: "'s \<Rightarrow> 'o list \<Rightarrow> bool"
  assumes step_hist:
    "admissible i \<Longrightarrow> hist s h \<Longrightarrow> hist (fst (step s i)) (h @ snd (step s i))"
begin

lemma run_hist:
  "(\<And>i. i \<in> set is \<Longrightarrow> admissible i) \<Longrightarrow> hist s h \<Longrightarrow>
     hist (fst (run step s is)) (h @ snd (run step s is))"
proof (induction "is" arbitrary: s h)
  case Nil
  then show ?case by simp
next
  case (Cons i "is")
  then have "hist (fst (step s i)) (h @ snd (step s i))"
    by (intro step_hist) auto
  then have "hist (fst (run step (fst (step s i)) is))
      ((h @ snd (step s i)) @ snd (run step (fst (step s i)) is))"
    using Cons.prems(1) by (intro Cons.IH) auto
  then show ?case by simp
qed

lemma run_from_start:
  "(\<And>i. i \<in> set is \<Longrightarrow> admissible i) \<Longrightarrow> hist s [] \<Longrightarrow>
     hist (fst (run step s is)) (snd (run step s is))"
  using run_hist [of "is" s "[]"] by simp

end

text \<open>
  The interface between a detailed step function and an abstract one: related states stay
  related, and what is observed of the outputs is the same. The client's rule carries it to runs.
\<close>

locale simulation =
  fixes cstep :: "'s \<Rightarrow> 'i \<Rightarrow> 's \<times> 'o list"
    and astep :: "'t \<Rightarrow> 'i \<Rightarrow> 't \<times> 'p list"
    and rel :: "'s \<Rightarrow> 't \<Rightarrow> bool"
    and observe :: "'o list \<Rightarrow> 'p list"
    and admissible :: "'i \<Rightarrow> bool"
  assumes observe_Nil: "observe [] = []"
    and observe_append: "observe (xs @ ys) = observe xs @ observe ys"
    and step_rel: "admissible i \<Longrightarrow> rel s t \<Longrightarrow> rel (fst (cstep s i)) (fst (astep t i))"
    and step_observe: "admissible i \<Longrightarrow> rel s t \<Longrightarrow> observe (snd (cstep s i)) = snd (astep t i)"
begin

lemma run_simulates:
  "(\<And>i. i \<in> set is \<Longrightarrow> admissible i) \<Longrightarrow> rel s t \<Longrightarrow>
     rel (fst (run cstep s is)) (fst (run astep t is)) \<and>
     observe (snd (run cstep s is)) = snd (run astep t is)"
proof (induction "is" arbitrary: s t)
  case Nil
  then show ?case by (simp add: observe_Nil)
next
  case (Cons i "is")
  have adm: "admissible i" using Cons.prems(1) by simp
  have "rel (fst (run cstep (fst (cstep s i)) is)) (fst (run astep (fst (astep t i)) is)) \<and>
      observe (snd (run cstep (fst (cstep s i)) is)) = snd (run astep (fst (astep t i)) is)"
    by (rule Cons.IH) (use Cons.prems step_rel [OF adm] in auto)
  then show ?case using step_observe [OF adm Cons.prems(2)] by (simp add: observe_append)
qed

end

end
