(* ===== verification/Blocks.thy ===== *)
theory Blocks
  imports Prelude
begin

text \<open>
  The data of alloy and reth that the program builds with struct literals or reads by field:
  headers, blocks, built payloads and payload attributes. Transactions, withdrawals and block
  access lists are opaque (\<open>'tx\<close>, \<open>'w\<close>, \<open>'b\<close>); what an execution leaves behind (bundle, receipts,
  trie updates) is the parameter \<open>'x\<close>.
\<close>

section \<open>Headers and blocks\<close>

record Header =
  h_parent_hash :: b256
  h_ommers_hash :: b256
  h_beneficiary :: address
  h_state_root :: b256
  h_transactions_root :: b256
  h_receipts_root :: b256
  h_withdrawals_root :: "b256 option"
  h_logs_bloom :: bloom
  h_timestamp :: u64
  h_mix_hash :: b256
  h_nonce :: u64
  h_base_fee_per_gas :: "u64 option"
  h_number :: u64
  h_gas_limit :: u64
  h_difficulty :: u256
  h_gas_used :: u64
  h_extra_data :: bytes
  h_parent_beacon_block_root :: "b256 option"
  h_blob_gas_used :: "u64 option"
  h_excess_blob_gas :: "u64 option"
  h_requests_hash :: "b256 option"
  h_block_access_list_hash :: "b256 option"

record ('tx, 'w, 'b) BlockBody =
  bb_transactions :: "'tx list"
  bb_ommers :: "Header list"
  bb_withdrawals :: "'w list option"
  bb_block_access_list :: "'b option"

record ('tx, 'w, 'b) Block =
  bk_header :: Header
  bk_body :: "('tx, 'w, 'b) BlockBody"

text \<open>
  A built payload: its id, the sealed block with its hash, the fees of the proposer, and the
  executed block where there is one.
\<close>

record ('tx, 'w, 'b, 'x) OpBuiltPayload =
  bp_id :: payload_id
  bp_block :: "('tx, 'w, 'b) Block"
  bp_hash :: b256
  bp_fees :: u256
  bp_executed_block :: "'x option"

section \<open>Payload attributes\<close>

record 'w EthPayloadBuilderAttributes =
  ea_id :: payload_id
  ea_parent :: b256
  ea_timestamp :: u64
  ea_suggested_fee_recipient :: address
  ea_prev_randao :: b256
  ea_withdrawals :: "'w list"
  ea_parent_beacon_block_root :: "b256 option"

text \<open>A transaction \<open>WithEncoded\<close> is the pair of its bytes and its value.\<close>

record ('tx, 'w) OpPayloadBuilderAttributes =
  oa_payload_attributes :: "'w EthPayloadBuilderAttributes"
  oa_no_tx_pool :: bool
  oa_transactions :: "(bytes \<times> 'tx) list"
  oa_gas_limit :: "u64 option"
  oa_eip_1559_params :: "u64 option"
  oa_min_base_fee :: "u64 option"

abbreviation block_txs :: "('tx, 'w, 'b) Block \<Rightarrow> 'tx list" where
  "block_txs blk \<equiv> bb_transactions (bk_body blk)"

end
