(* ===== verification/Primitives.thy ===== *)
theory Primitives
  imports Blocks "HOL-Library.Sublist"
begin

text \<open>
  The data model of \<^verbatim>\<open>src/flashblocks/primitives.rs\<close>: the flashblock payload and its parts, the
  validated collection \<open>Flashblocks\<close> with its operations, the reduction of a collection to one
  flashblock, and the conversion of a flashblock to a block.

  The element types \<open>Withdrawal\<close> and \<open>BlockAccessList\<close> belong to the alloy library and are only
  moved around by this code: they are the type parameters \<open>'w\<close> and \<open>'b\<close>. \<open>Flashblock\<close> is a
  wrapper with one field and \<open>Flashblocks\<close> a wrapper of a vector: their models are the payload
  and a list of payloads.
\<close>

section \<open>Payload types\<close>

record ('w, 'b) ExecutionPayloadFlashblockDeltaV1 =
  d_state_root :: b256
  d_receipts_root :: b256
  d_logs_bloom :: bloom
  d_gas_used :: u64
  d_block_hash :: b256
  d_transactions :: "bytes list"
  d_withdrawals :: "'w list"
  d_withdrawals_root :: b256
  d_block_access_list :: "'b option"

record ExecutionPayloadBaseV1 =
  b_parent_beacon_block_root :: b256
  b_parent_hash :: b256
  b_fee_recipient :: address
  b_prev_randao :: b256
  b_block_number :: u64
  b_gas_limit :: u64
  b_timestamp :: u64
  b_extra_data :: bytes
  b_base_fee_per_gas :: u256

record FlashblockMetadata =
  m_fees :: u256
  m_flashblock_timestamp :: "i64 option"

record ('m, 'w, 'b) FlashblocksPayloadV1 =
  p_payload_id :: payload_id
  p_index :: u64
  p_diff :: "('w, 'b) ExecutionPayloadFlashblockDeltaV1"
  p_metadata :: 'm
  p_base :: "ExecutionPayloadBaseV1 option"

type_synonym ('w, 'b) flashblock = "(FlashblockMetadata, 'w, 'b) FlashblocksPayloadV1"

type_synonym ('w, 'b) flashblocks = "('w, 'b) flashblock list"

text \<open>The derived \<open>Default\<close> instances.\<close>

definition default_delta :: "('w, 'b) ExecutionPayloadFlashblockDeltaV1" where
  "default_delta = \<lparr>d_state_root = 0, d_receipts_root = 0, d_logs_bloom = 0, d_gas_used = 0,
     d_block_hash = 0, d_transactions = [], d_withdrawals = [], d_withdrawals_root = 0,
     d_block_access_list = None\<rparr>"

definition default_base :: ExecutionPayloadBaseV1 where
  "default_base = \<lparr>b_parent_beacon_block_root = 0, b_parent_hash = 0, b_fee_recipient = 0,
     b_prev_randao = 0, b_block_number = 0, b_gas_limit = 0, b_timestamp = 0,
     b_extra_data = [], b_base_fee_per_gas = 0\<rparr>"

definition default_metadata :: FlashblockMetadata where
  "default_metadata = \<lparr>m_fees = 0, m_flashblock_timestamp = None\<rparr>"

text \<open>\<open>Flashblocks::default()\<close>: one default flashblock that carries a default base.\<close>

definition default_flashblocks :: "('w, 'b) flashblocks" where
  "default_flashblocks = [\<lparr>p_payload_id = 0, p_index = 0, p_diff = default_delta,
     p_metadata = default_metadata, p_base = Some default_base\<rparr>]"

section \<open>The collection \<open>Flashblocks\<close>\<close>

datatype flashblocks_error =
    EmptyCollection
  | FirstWithoutBase
  | MixedPayloadIds
  | IndicesNotContiguous
  | NewPayloadIndexNotZero
  | NewPayloadWithoutBase
  | NewPayloadNotLater
  | IndexNotContiguous nat u64 payload_id

text \<open>
  The accessors of the collection. \<open>first().unwrap()\<close> panics on an empty vector, and \<open>base\<close>
  panics when the first flashblock carries no base.
\<close>

definition last_flashblock :: "('w, 'b) flashblocks \<Rightarrow> ('e, ('w, 'b) flashblock) result" where
  "last_flashblock fbs = unwrap (if fbs = [] then None else Some (last fbs))"

definition collection_payload_id :: "('w, 'b) flashblocks \<Rightarrow> ('e, payload_id) result" where
  "collection_payload_id fbs = bind_result (unwrap (first fbs)) (\<lambda>fb. Ok (p_payload_id fb))"

definition collection_base :: "('w, 'b) flashblocks \<Rightarrow> ('e, ExecutionPayloadBaseV1) result" where
  "collection_base fbs = bind_result (unwrap (first fbs)) (\<lambda>fb. unwrap (p_base fb))"

text \<open>
  \<open>Flashblocks::new\<close>: the checks in the code's order. The loop over \<open>enumerate()\<close> compares each
  index with the position cast to \<open>u64\<close>.
\<close>

fun check_indices :: "nat \<Rightarrow> ('w, 'b) flashblocks \<Rightarrow> bool" where
  "check_indices i [] = True"
| "check_indices i (fb # fbs) = (p_index fb = of_nat i \<and> check_indices (Suc i) fbs)"

definition flashblocks_new ::
  "('w, 'b) flashblocks \<Rightarrow> (flashblocks_error, ('w, 'b) flashblocks) result" where
  "flashblocks_new fbs =
     (case fbs of
        [] \<Rightarrow> Err EmptyCollection
      | fst_fb # rest \<Rightarrow>
          if p_base fst_fb = None then Err FirstWithoutBase
          else if list_ex (\<lambda>fb. p_payload_id fb \<noteq> p_payload_id fst_fb) rest
          then Err MixedPayloadIds
          else if \<not> check_indices 0 fbs then Err IndicesNotContiguous
          else Ok fbs)"

text \<open>
  \<open>Flashblocks::is_new_payload\<close>: whether a flashblock starts a new payload (\<open>Ok True\<close>), continues
  the current one (\<open>Ok False\<close>) or is refused.
\<close>

definition is_new_payload ::
  "('w, 'b) flashblocks \<Rightarrow> ('w, 'b) flashblock \<Rightarrow> (flashblocks_error, bool) result" where
  "is_new_payload fbs fb =
     bind_result (collection_payload_id fbs) (\<lambda>pid.
       if p_payload_id fb \<noteq> pid then
         (if p_index fb \<noteq> 0 then Err NewPayloadIndexNotZero
          else case p_base fb of
                 None \<Rightarrow> Err NewPayloadWithoutBase
               | Some base \<Rightarrow>
                   bind_result (collection_base fbs) (\<lambda>cur.
                     if b_timestamp base \<le> b_timestamp cur then Err NewPayloadNotLater
                     else Ok True))
       else if p_index fb \<noteq> of_nat (length fbs)
       then Err (IndexNotContiguous (length fbs) (p_index fb) pid)
       else Ok False)"

text \<open>
  \<open>Flashblocks::push\<close>: the collection is cleared for a new payload, and the flashblock appended.
  An error leaves the collection as it was, so the result carries the new collection only when
  the push succeeds.
\<close>

definition push ::
  "('w, 'b) flashblocks \<Rightarrow> ('w, 'b) flashblock \<Rightarrow>
     (flashblocks_error, bool \<times> ('w, 'b) flashblocks) result" where
  "push fbs fb =
     bind_result (is_new_payload fbs fb) (\<lambda>is_new.
       let kept = (if is_new then [] else fbs) in Ok (is_new, kept @ [fb]))"

section \<open>The documented invariant of the collection\<close>

text \<open>
  The type's documentation: a collection is non-empty, all its flashblocks have the same payload
  id, and their indices are contiguous from 0. Besides, its first flashblock carries a base.
\<close>

definition flashblocks_wf :: "('w, 'b) flashblocks \<Rightarrow> bool" where
  "flashblocks_wf fbs \<longleftrightarrow>
     fbs \<noteq> [] \<and> p_base (hd fbs) \<noteq> None
     \<and> (\<forall>fb \<in> set fbs. p_payload_id fb = p_payload_id (hd fbs))
     \<and> (\<forall>i < length fbs. p_index (fbs ! i) = of_nat i)"

lemma flashblocks_wfD:
  assumes "flashblocks_wf fbs"
  shows "fbs \<noteq> []" "p_base (hd fbs) \<noteq> None"
    "fb \<in> set fbs \<Longrightarrow> p_payload_id fb = p_payload_id (hd fbs)"
    "i < length fbs \<Longrightarrow> p_index (fbs ! i) = of_nat i"
  using assms unfolding flashblocks_wf_def by blast+

lemma check_indices_iff:
  "check_indices k fbs \<longleftrightarrow> (\<forall>i < length fbs. p_index (fbs ! i) = of_nat (k + i))"
proof (induction fbs arbitrary: k)
  case Nil
  then show ?case by simp
next
  case (Cons fb fbs)
  have "(\<forall>i < Suc (length fbs). p_index ((fb # fbs) ! i) = of_nat (k + i)) \<longleftrightarrow>
      p_index fb = of_nat k \<and> (\<forall>i < length fbs. p_index (fbs ! i) = of_nat (Suc k + i))"
    unfolding All_less_Suc2 by (simp only: nth_Cons_0 nth_Cons_Suc add_0_right add_Suc_right add_Suc)
  then show ?case by (simp only: check_indices.simps Cons.IH list.size add_Suc_right add_0_right)
qed

lemma default_flashblocks_wf: "flashblocks_wf default_flashblocks"
  by (simp add: flashblocks_wf_def default_flashblocks_def)

lemma last_flashblock_wf: "flashblocks_wf fbs \<Longrightarrow> last_flashblock fbs = Ok (last fbs)"
  by (simp add: last_flashblock_def flashblocks_wfD(1))

lemma collection_payload_id_wf:
  "flashblocks_wf fbs \<Longrightarrow> collection_payload_id fbs = Ok (p_payload_id (hd fbs))"
  by (simp add: collection_payload_id_def first_conv_hd flashblocks_wfD(1))

lemma collection_base_wf:
  "flashblocks_wf fbs \<Longrightarrow> collection_base fbs = Ok (the (p_base (hd fbs)))"
  by (auto simp: collection_base_def first_conv_hd flashblocks_wfD(1) dest: flashblocks_wfD(2))

lemmas accessors_wf = last_flashblock_wf collection_payload_id_wf collection_base_wf

lemma flashblocks_new_Ok_iff:
  "flashblocks_new fbs = Ok r \<longleftrightarrow> r = fbs \<and> flashblocks_wf fbs"
proof (cases fbs)
  case Nil
  then show ?thesis by (simp add: flashblocks_new_def flashblocks_wf_def)
next
  case (Cons fb rest)
  then show ?thesis
    by (auto simp: flashblocks_new_def flashblocks_wf_def list_ex_iff check_indices_iff
        simp del: check_indices.simps split: if_splits)
qed

lemma flashblocks_new_no_panic: "flashblocks_new fbs \<noteq> Panic"
  by (auto simp: flashblocks_new_def split: list.splits)

section \<open>Pushing a flashblock\<close>

text \<open>When a flashblock starts a new payload, and when it continues the current one.\<close>

definition starts_new ::
  "('w, 'b) flashblocks \<Rightarrow> ('w, 'b) flashblock \<Rightarrow> bool" where
  "starts_new fbs fb \<longleftrightarrow>
     p_payload_id fb \<noteq> p_payload_id (hd fbs) \<and> p_index fb = 0
     \<and> (case p_base fb of None \<Rightarrow> False
        | Some base \<Rightarrow> b_timestamp (the (p_base (hd fbs))) < b_timestamp base)"

definition continues ::
  "('w, 'b) flashblocks \<Rightarrow> ('w, 'b) flashblock \<Rightarrow> bool" where
  "continues fbs fb \<longleftrightarrow>
     p_payload_id fb = p_payload_id (hd fbs) \<and> p_index fb = of_nat (length fbs)"

lemma starts_new_not_continues: "starts_new fbs fb \<Longrightarrow> \<not> continues fbs fb"
  by (simp add: starts_new_def continues_def)

lemma is_new_payload_unfold:
  assumes "flashblocks_wf fbs"
  shows "is_new_payload fbs fb =
     (if p_payload_id fb \<noteq> p_payload_id (hd fbs) then
        (if p_index fb \<noteq> 0 then Err NewPayloadIndexNotZero
         else case p_base fb of
                None \<Rightarrow> Err NewPayloadWithoutBase
              | Some base \<Rightarrow>
                  if b_timestamp base \<le> b_timestamp (the (p_base (hd fbs)))
                  then Err NewPayloadNotLater else Ok True)
      else if p_index fb \<noteq> of_nat (length fbs)
      then Err (IndexNotContiguous (length fbs) (p_index fb) (p_payload_id (hd fbs)))
      else Ok False)"
  using assms by (simp add: is_new_payload_def accessors_wf cong: option.case_cong)

lemma is_new_payload_wf:
  assumes "flashblocks_wf fbs"
  shows "is_new_payload fbs fb = Ok True \<longleftrightarrow> starts_new fbs fb"
    and "is_new_payload fbs fb = Ok False \<longleftrightarrow> continues fbs fb"
    and "is_new_payload fbs fb \<noteq> Panic"
  unfolding is_new_payload_unfold [OF assms] starts_new_def continues_def
  by (auto simp: not_le split: option.splits)

lemma push_eq:
  "push fbs fb =
     (case is_new_payload fbs fb of
        Ok True \<Rightarrow> Ok (True, [fb]) | Ok False \<Rightarrow> Ok (False, fbs @ [fb])
      | Err e \<Rightarrow> Err e | Panic \<Rightarrow> Panic)"
  by (cases "is_new_payload fbs fb") (auto simp: push_def Let_def)

lemma starts_new_wf: "starts_new fbs fb \<Longrightarrow> flashblocks_wf [fb]"
  by (auto simp: starts_new_def flashblocks_wf_def split: option.splits)

lemma continues_wf: "flashblocks_wf fbs \<Longrightarrow> continues fbs fb \<Longrightarrow> flashblocks_wf (fbs @ [fb])"
proof -
  assume wf: "flashblocks_wf fbs" and c: "continues fbs fb"
  have hd: "hd (fbs @ [fb]) = hd fbs" using flashblocks_wfD(1) [OF wf] by simp
  have "p_index ((fbs @ [fb]) ! i) = of_nat i" if "i < length (fbs @ [fb])" for i
  proof (cases "i < length fbs")
    case True
    then show ?thesis using flashblocks_wfD(4) [OF wf True] by (simp add: nth_append)
  next
    case False
    with that have "i = length fbs" by simp
    then show ?thesis using c by (simp add: continues_def)
  qed
  moreover have "p_payload_id g = p_payload_id (hd fbs)" if "g \<in> set (fbs @ [fb])" for g
    using that flashblocks_wfD(3) [OF wf] c unfolding continues_def by auto
  ultimately show ?thesis
    unfolding flashblocks_wf_def hd using flashblocks_wfD(2) [OF wf] by blast
qed

lemma push_cases:
  assumes "flashblocks_wf fbs"
  obtains (new) "starts_new fbs fb" "is_new_payload fbs fb = Ok True"
      "push fbs fb = Ok (True, [fb])" "flashblocks_wf [fb]"
  | (continue) "continues fbs fb" "is_new_payload fbs fb = Ok False"
      "push fbs fb = Ok (False, fbs @ [fb])" "flashblocks_wf (fbs @ [fb])"
  | (refused) e where "\<not> starts_new fbs fb" "\<not> continues fbs fb"
      "is_new_payload fbs fb = Err e" "push fbs fb = Err e"
proof (cases "is_new_payload fbs fb")
  case (Ok b)
  show ?thesis
  proof (cases b)
    case True
    with Ok have "starts_new fbs fb" using is_new_payload_wf(1) [OF assms] by simp
    with Ok True show ?thesis using that(1) by (simp add: push_eq starts_new_wf)
  next
    case False
    with Ok have "continues fbs fb" using is_new_payload_wf(2) [OF assms] by simp
    with Ok False show ?thesis using that(2) assms by (simp add: push_eq continues_wf)
  qed
next
  case (Err e)
  then have "\<not> starts_new fbs fb" "\<not> continues fbs fb"
    using is_new_payload_wf(1,2) [OF assms, of fb] by auto
  then show ?thesis using that(3) Err by (simp add: push_eq)
next
  case Panic
  then show ?thesis using is_new_payload_wf(3) [OF assms] by simp
qed

section \<open>The interface of the collection\<close>

text \<open>
  What the callers of the collection rely on: a push agrees with the check \<open>is_new_payload\<close>,
  keeps the invariant when it succeeds, and does not panic on a collection that satisfies it.
\<close>

locale flashblock_store =
  fixes store_push :: "'s \<Rightarrow> 'f \<Rightarrow> ('e, bool \<times> 's) result"
    and store_check :: "'s \<Rightarrow> 'f \<Rightarrow> ('e, bool) result"
    and store_wf :: "'s \<Rightarrow> bool"
  assumes push_wf: "store_wf s \<Longrightarrow> store_push s f = Ok (b, s') \<Longrightarrow> store_wf s'"
    and push_if_check: "store_wf s \<Longrightarrow> store_check s f = Ok b \<Longrightarrow> \<exists>s'. store_push s f = Ok (b, s')"
    and push_err: "store_wf s \<Longrightarrow> store_check s f = Err e \<Longrightarrow> store_push s f = Err e"
    and check_no_panic: "store_wf s \<Longrightarrow> store_check s f \<noteq> Panic"
begin

lemma check_then_push:
  assumes "store_wf s" and "store_check s f = Ok b"
  shows "\<exists>s'. store_push s f = Ok (b, s') \<and> store_wf s'"
  using push_if_check [OF assms] push_wf [OF assms(1)] by blast

lemma push_Ok_iff_check:
  assumes "store_wf s"
  shows "(\<exists>s'. store_push s f = Ok (b, s')) \<longleftrightarrow> store_check s f = Ok b"
proof (cases "store_check s f")
  case (Ok c)
  then show ?thesis using push_if_check [OF assms] by (metis Pair_inject result.inject(1))
next
  case (Err e)
  then show ?thesis using push_err [OF assms Err] by simp
next
  case Panic
  then show ?thesis using check_no_panic [OF assms] by simp
qed

lemma push_no_panic: "store_wf s \<Longrightarrow> store_push s f \<noteq> Panic"
  by (metis check_no_panic push_err push_if_check result.distinct(3,5) result.exhaust)

end

interpretation flashblocks: flashblock_store push is_new_payload flashblocks_wf
proof
  fix fbs :: "('w, 'b) flashblocks" and fb fbs' b
  assume "flashblocks_wf fbs" and "push fbs fb = Ok (b, fbs')"
  then show "flashblocks_wf fbs'" by (cases rule: push_cases [of fbs fb]) auto
next
  fix fbs :: "('w, 'b) flashblocks" and fb b
  assume "flashblocks_wf fbs" and "is_new_payload fbs fb = Ok b"
  then show "\<exists>fbs'. push fbs fb = Ok (b, fbs')" by (cases rule: push_cases [of fbs fb]) auto
next
  fix fbs :: "('w, 'b) flashblocks" and fb e
  assume "is_new_payload fbs fb = Err e"
  then show "push fbs fb = Err e" by (simp add: push_eq)
next
  fix fbs :: "('w, 'b) flashblocks" and fb
  assume "flashblocks_wf fbs"
  then show "is_new_payload fbs fb \<noteq> Panic" by (rule is_new_payload_wf(3))
qed

section \<open>Runs of pushes\<close>

text \<open>
  A caller that pushes one flashblock after the other and drops the refused ones, as both users
  of the collection do: the outputs are the accepted flashblocks, each with whether it reset the
  collection.
\<close>

definition push_step ::
  "('w, 'b) flashblocks \<Rightarrow> ('w, 'b) flashblock \<Rightarrow>
     ('w, 'b) flashblocks \<times> (bool \<times> ('w, 'b) flashblock) list" where
  "push_step fbs fb =
     (case push fbs fb of
        Ok (is_new, fbs') \<Rightarrow> (fbs', [(is_new, fb)])
      | Err e \<Rightarrow> (fbs, [])
      | Panic \<Rightarrow> (fbs, []))"

definition base_time :: "('w, 'b) flashblock \<Rightarrow> u64" where
  "base_time fb = b_timestamp (the (p_base fb))"

text \<open>
  The history of a collection: it holds the flashblocks accepted since its last reset, and the
  base timestamps of the payloads it went through increase strictly.
\<close>

definition collection_history ::
  "('w, 'b) flashblocks \<Rightarrow> ('w, 'b) flashblocks \<Rightarrow> (bool \<times> ('w, 'b) flashblock) list \<Rightarrow> bool"
where
  "collection_history start fbs h \<longleftrightarrow>
     flashblocks_wf fbs \<and> suffix fbs (start @ map snd h)
     \<and> sorted_wrt (<) (map base_time (hd start # map snd (filter fst h)))
     \<and> base_time (last (hd start # map snd (filter fst h))) = base_time (hd fbs)"

lemma collection_history_start:
  "flashblocks_wf fbs \<Longrightarrow> collection_history fbs fbs []"
  by (simp add: collection_history_def)

lemma starts_new_base_time: "starts_new fbs fb \<Longrightarrow> base_time (hd fbs) < base_time fb"
  by (auto simp: starts_new_def base_time_def split: option.splits)

lemma sorted_wrt_snoc_less:
  fixes ts :: "'a :: linorder list"
  assumes "sorted_wrt (<) (ts @ [t])" and "t < u"
  shows "sorted_wrt (<) ((ts @ [t]) @ [u])"
  using assms by (auto simp: sorted_wrt_append intro: less_trans)

lemma base_times_snoc:
  assumes "sorted_wrt (<) (map base_time fbs)" and "fbs \<noteq> []"
    and "base_time (last fbs) < base_time fb"
  shows "sorted_wrt (<) (map base_time (fbs @ [fb]))"
proof -
  obtain us l where fbs: "fbs = us @ [l]" using assms(2) by (cases fbs rule: rev_cases) auto
  show ?thesis
    using sorted_wrt_snoc_less [of "map base_time us" "base_time l" "base_time fb"] assms
    by (simp add: fbs)
qed

lemma push_step_history:
  assumes "collection_history start fbs h"
  shows "collection_history start (fst (push_step fbs fb)) (h @ snd (push_step fbs fb))"
proof -
  let ?news = "\<lambda>h. hd start # map snd (filter fst h)"
  have wf: "flashblocks_wf fbs" and suf: "suffix fbs (start @ map snd h)"
    and sorted: "sorted_wrt (<) (map base_time (?news h))"
    and last: "base_time (last (?news h)) = base_time (hd fbs)"
    using assms by (simp_all add: collection_history_def)
  from wf show ?thesis
  proof (cases rule: push_cases [of fbs fb])
    case new
    have "base_time (last (?news h)) < base_time fb"
      using starts_new_base_time [OF new(1)] last by simp
    then have "sorted_wrt (<) (map base_time (?news h @ [fb]))"
      using sorted by (intro base_times_snoc) simp_all
    then show ?thesis
      using new by (simp add: push_step_def collection_history_def suffix_def)
  next
    case continue
    have "suffix (fbs @ [fb]) (start @ map snd (h @ [(False, fb)]))"
      using suf by (simp add: suffix_def)
    moreover have "hd (fbs @ [fb]) = hd fbs" using flashblocks_wfD(1) [OF wf] by simp
    ultimately show ?thesis
      using continue sorted last by (simp add: push_step_def collection_history_def)
  next
    case (refused e)
    then show ?thesis using assms by (simp add: push_step_def)
  qed
qed

interpretation pushes: machine push_step "\<lambda>_. True" "collection_history start" for start
  by unfold_locales (rule push_step_history)

section \<open>Properties\<close>

text \<open>
  C39: \<open>Flashblocks::new\<close> accepts exactly the vectors that satisfy the documented invariant (not
  empty, one payload id, indices contiguous from 0) and whose first flashblock carries the base,
  returns such a vector unchanged, and never panics.
\<close>

theorem flashblocks_new_validates:
  "(flashblocks_new fbs = Ok r \<longleftrightarrow> r = fbs \<and> flashblocks_wf fbs) \<and> flashblocks_new fbs \<noteq> Panic"
  by (simp add: flashblocks_new_Ok_iff flashblocks_new_no_panic)

text \<open>
  C22: On a collection that satisfies the invariant, \<open>push\<close> resets the collection to the new
  flashblock exactly when it has another payload id, index 0 and a base with a later timestamp;
  appends it exactly when it has the same payload id and the next index; refuses it in every
  other case; and never panics.
\<close>

theorem push_correct:
  assumes "flashblocks_wf fbs"
  shows "(push fbs fb = Ok (True, r) \<longleftrightarrow> starts_new fbs fb \<and> r = [fb])
    \<and> (push fbs fb = Ok (False, r) \<longleftrightarrow> continues fbs fb \<and> r = fbs @ [fb])
    \<and> ((\<exists>e. push fbs fb = Err e) \<longleftrightarrow> \<not> starts_new fbs fb \<and> \<not> continues fbs fb)
    \<and> push fbs fb \<noteq> Panic"
  using assms
  by (cases rule: push_cases [of fbs fb]) (auto dest: starts_new_not_continues)

theorem push_correct_witness:
  "push (default_flashblocks :: (unit, unit) flashblocks)
      ((hd default_flashblocks)\<lparr>p_index := 1\<rparr>) =
     Ok (False, default_flashblocks @ [(hd default_flashblocks)\<lparr>p_index := 1\<rparr>])"
proof -
  let ?d = "default_flashblocks :: (unit, unit) flashblocks"
  have "continues ?d ((hd ?d)\<lparr>p_index := 1\<rparr>)"
    by (simp add: continues_def default_flashblocks_def)
  then show ?thesis
    using push_correct [OF default_flashblocks_wf, of "(hd ?d)\<lparr>p_index := 1\<rparr>"] by blast
qed

text \<open>
  C23: Whatever flashblocks are pushed into the default collection, refused ones dropped, the
  collection satisfies the invariant, holds the flashblocks accepted since the last reset, and
  the base timestamps of the payloads it went through increase strictly.
\<close>

theorem pushes_keep_invariant:
  fixes inputs :: "('w, 'b) flashblocks"
  shows "let (fbs, accepted) = run push_step default_flashblocks inputs in
     flashblocks_wf fbs \<and> suffix fbs (default_flashblocks @ map snd accepted)
     \<and> sorted_wrt (<) (0 # map (base_time \<circ> snd) (filter fst accepted))"
proof -
  let ?d = "default_flashblocks :: ('w, 'b) flashblocks"
  have "collection_history ?d (fst (run push_step ?d inputs)) (snd (run push_step ?d inputs))"
    by (rule pushes.run_from_start) (simp_all add: collection_history_start default_flashblocks_wf)
  moreover have "base_time (hd ?d) = 0"
    by (simp add: default_flashblocks_def base_time_def default_base_def)
  ultimately show ?thesis
    by (simp add: collection_history_def case_prod_unfold comp_def map_map del: sorted_wrt.simps)
qed

end
