(* ===== verification/Reduce.thy ===== *)
theory Reduce
  imports Primitives
begin

text \<open>
  The rest of \<^verbatim>\<open>src/flashblocks/primitives.rs\<close>: building a flashblock from a built payload
  (\<open>Flashblock::new\<close>), reducing a collection to one flashblock (\<open>Flashblock::reduce\<close>), and the
  conversions of a flashblock and of a collection to a block (\<open>TryFrom\<close>).
\<close>

section \<open>Building a flashblock\<close>

text \<open>
  \<open>Flashblock::new\<close>. The EIP-2718 encoding \<open>encoded_2718\<close> of a transaction belongs to alloy and
  is the argument \<open>encode_tx\<close>; \<open>now\<close> is the clock reading in nanoseconds, or \<open>None\<close> when it does
  not fit, where \<open>expect\<close> panics. \<open>U256::from\<close> of the base fee widens it.
\<close>

definition new_base ::
  "('tx, 'w, 'b) Block \<Rightarrow> ('tx, 'w) OpPayloadBuilderAttributes \<Rightarrow> ExecutionPayloadBaseV1" where
  "new_base blk attrs =
     (let ea = oa_payload_attributes attrs; h = bk_header blk in
      \<lparr>b_parent_beacon_block_root = unwrap_or (ea_parent_beacon_block_root ea) 0,
       b_parent_hash = ea_parent ea,
       b_fee_recipient = ea_suggested_fee_recipient ea,
       b_prev_randao = ea_prev_randao ea,
       b_block_number = h_number h,
       b_gas_limit = h_gas_limit h,
       b_timestamp = ea_timestamp ea,
       b_extra_data = h_extra_data h,
       b_base_fee_per_gas = unwrap_or (map_option ucast (h_base_fee_per_gas h)) 0\<rparr>)"

definition new_diff ::
  "('tx \<Rightarrow> bytes) \<Rightarrow> ('tx, 'w, 'b, 'x) OpBuiltPayload \<Rightarrow> nat \<Rightarrow> nat \<Rightarrow> 'b option \<Rightarrow>
     ('w, 'b) ExecutionPayloadFlashblockDeltaV1" where
  "new_diff encode_tx payload transactions_offset withdrawal_offset bal =
     (let h = bk_header (bp_block payload); body = bk_body (bp_block payload) in
      \<lparr>d_state_root = h_state_root h,
       d_receipts_root = h_receipts_root h,
       d_logs_bloom = h_logs_bloom h,
       d_gas_used = h_gas_used h,
       d_block_hash = bp_hash payload,
       d_transactions = map encode_tx (drop transactions_offset (bb_transactions body)),
       d_withdrawals =
         unwrap_or (map_option (drop withdrawal_offset) (bb_withdrawals body)) [],
       d_withdrawals_root = unwrap_or (h_withdrawals_root h) 0,
       d_block_access_list = bal\<rparr>)"

definition flashblock_new ::
  "('tx \<Rightarrow> bytes) \<Rightarrow> i64 option \<Rightarrow> ('tx, 'w, 'b, 'x) OpBuiltPayload \<Rightarrow>
     ('tx, 'w) OpPayloadBuilderAttributes \<Rightarrow> u64 \<Rightarrow> nat \<Rightarrow> nat \<Rightarrow> 'b option \<Rightarrow>
     ('e, ('w, 'b) flashblock) result" where
  "flashblock_new encode_tx now payload attrs index transactions_offset withdrawal_offset bal =
     bind_result (unwrap now) (\<lambda>ts. Ok
       \<lparr>p_payload_id = ea_id (oa_payload_attributes attrs),
        p_index = index,
        p_diff = new_diff encode_tx payload transactions_offset withdrawal_offset bal,
        p_metadata = \<lparr>m_fees = bp_fees payload, m_flashblock_timestamp = Some ts\<rparr>,
        p_base = (if index = 0 then Some (new_base (bp_block payload) attrs) else None)\<rparr>)"

section \<open>Reducing a collection\<close>

text \<open>
  The body of the loop in \<open>Flashblock::reduce\<close>. Every field of the accumulator that the code
  assigns is assigned here, and no other: the block access list of the accumulator stays.
\<close>

definition reduce_step ::
  "('w, 'b) flashblock \<Rightarrow> ('w, 'b) flashblock \<Rightarrow> ('w, 'b) flashblock" where
  "reduce_step acc nxt =
     acc\<lparr>p_base := (if p_base acc = None \<and> p_base nxt \<noteq> None then p_base nxt else p_base acc),
         p_index := p_index nxt,
         p_metadata := (p_metadata acc)
           \<lparr>m_fees := m_fees (p_metadata nxt),
            m_flashblock_timestamp := m_flashblock_timestamp (p_metadata nxt)\<rparr>,
         p_diff := (p_diff acc)
           \<lparr>d_gas_used := d_gas_used (p_diff nxt),
            d_transactions := d_transactions (p_diff acc) @ d_transactions (p_diff nxt),
            d_withdrawals := d_withdrawals (p_diff acc) @ d_withdrawals (p_diff nxt),
            d_state_root := d_state_root (p_diff nxt),
            d_receipts_root := d_receipts_root (p_diff nxt),
            d_logs_bloom := d_logs_bloom (p_diff nxt),
            d_withdrawals_root := d_withdrawals_root (p_diff nxt),
            d_block_hash := d_block_hash (p_diff nxt)\<rparr>\<rparr>"

text \<open>
  The loop. \<open>debug_assert_eq!\<close> is compiled in builds with debug assertions only, which the flag
  \<open>debug\<close> says; where it fails, the program panics.
\<close>

fun reduce_loop ::
  "bool \<Rightarrow> ('w, 'b) flashblock \<Rightarrow> ('w, 'b) flashblocks \<Rightarrow> ('e, ('w, 'b) flashblock) result" where
  "reduce_loop debug acc [] = Ok acc"
| "reduce_loop debug acc (nxt # rest) =
     (if debug \<and> p_payload_id acc \<noteq> p_payload_id nxt then Panic
      else reduce_loop debug (reduce_step acc nxt) rest)"

definition reduce ::
  "bool \<Rightarrow> ('w, 'b) flashblocks \<Rightarrow> ('e, ('w, 'b) flashblock option) result" where
  "reduce debug fbs =
     (case fbs of [] \<Rightarrow> Ok None
      | fb # rest \<Rightarrow> bind_result (reduce_loop debug fb rest) (\<lambda>acc. Ok (Some acc)))"

text \<open>What the reduction of a collection is: the flashblock it computes, field by field.\<close>

definition all_transactions :: "('w, 'b) flashblocks \<Rightarrow> bytes list" where
  "all_transactions fbs = concat (map (d_transactions \<circ> p_diff) fbs)"

definition all_withdrawals :: "('w, 'b) flashblocks \<Rightarrow> 'w list" where
  "all_withdrawals fbs = concat (map (d_withdrawals \<circ> p_diff) fbs)"

fun first_base :: "('w, 'b) flashblocks \<Rightarrow> ExecutionPayloadBaseV1 option" where
  "first_base [] = None"
| "first_base (fb # fbs) = (if p_base fb = None then first_base fbs else p_base fb)"

definition reduced :: "('w, 'b) flashblocks \<Rightarrow> ('w, 'b) flashblock" where
  "reduced fbs =
     (last fbs)\<lparr>p_payload_id := p_payload_id (hd fbs),
       p_base := first_base fbs,
       p_diff := (p_diff (last fbs))
         \<lparr>d_transactions := all_transactions fbs,
          d_withdrawals := all_withdrawals fbs,
          d_block_access_list := d_block_access_list (p_diff (hd fbs))\<rparr>\<rparr>"

lemma reduced_single: "reduced [fb] = fb"
  by (simp add: reduced_def all_transactions_def all_withdrawals_def)

lemma reduce_step_fields:
  "p_payload_id (reduce_step acc nxt) = p_payload_id acc"
  "p_base (reduce_step acc nxt) = (if p_base acc = None then p_base nxt else p_base acc)"
  "d_block_access_list (p_diff (reduce_step acc nxt)) = d_block_access_list (p_diff acc)"
  "d_transactions (p_diff (reduce_step acc nxt)) =
     d_transactions (p_diff acc) @ d_transactions (p_diff nxt)"
  "d_withdrawals (p_diff (reduce_step acc nxt)) =
     d_withdrawals (p_diff acc) @ d_withdrawals (p_diff nxt)"
  by (simp_all add: reduce_step_def)

text \<open>The step in one update of the next flashblock instead of the accumulator.\<close>

lemma reduce_step_alt:
  "reduce_step acc nxt =
     nxt\<lparr>p_payload_id := p_payload_id acc,
         p_base := (if p_base acc = None then p_base nxt else p_base acc),
         p_diff := (p_diff nxt)
           \<lparr>d_transactions := d_transactions (p_diff acc) @ d_transactions (p_diff nxt),
            d_withdrawals := d_withdrawals (p_diff acc) @ d_withdrawals (p_diff nxt),
            d_block_access_list := d_block_access_list (p_diff acc)\<rparr>\<rparr>"
  by (cases acc; cases nxt; cases "p_diff acc"; cases "p_diff nxt"; cases "p_metadata nxt")
    (simp add: reduce_step_def)

lemma first_base_reduce_step:
  "first_base (reduce_step acc nxt # rest) = first_base (acc # nxt # rest)"
  by (simp add: reduce_step_fields)

lemma reduced_Cons_step:
  "reduced (acc # nxt # rest) = reduced (reduce_step acc nxt # rest)"
proof (cases rest)
  case Nil
  have "reduced [acc, nxt] = reduce_step acc nxt"
    unfolding reduce_step_alt
    by (simp add: reduced_def all_transactions_def all_withdrawals_def)
  then show ?thesis by (simp add: Nil reduced_single)
next
  case (Cons fb fbs)
  then show ?thesis
    unfolding reduced_def first_base_reduce_step
    by (simp add: reduce_step_fields all_transactions_def all_withdrawals_def
        del: first_base.simps)
qed

lemma reduce_loop_eq:
  assumes "debug \<longrightarrow> (\<forall>fb \<in> set fbs. p_payload_id fb = p_payload_id acc)"
  shows "reduce_loop debug acc fbs = Ok (reduced (acc # fbs))"
  using assms
proof (induction fbs arbitrary: acc)
  case Nil
  then show ?case by (simp add: reduced_single)
next
  case (Cons nxt rest)
  have "debug \<longrightarrow> (\<forall>fb \<in> set rest. p_payload_id fb = p_payload_id (reduce_step acc nxt))"
    and "\<not> (debug \<and> p_payload_id acc \<noteq> p_payload_id nxt)"
    using Cons.prems by (auto simp: reduce_step_fields)
  then show ?case
    using Cons.IH [of "reduce_step acc nxt"]
    by (simp only: reduce_loop.simps if_False reduced_Cons_step simp_thms)
qed

lemma reduce_same_id:
  assumes "fbs \<noteq> []" and "debug \<longrightarrow> (\<forall>fb \<in> set fbs. p_payload_id fb = p_payload_id (hd fbs))"
  shows "reduce debug fbs = Ok (Some (reduced fbs))"
proof (cases fbs)
  case Nil
  with assms(1) show ?thesis by simp
next
  case (Cons fb rest)
  with assms(2) have "debug \<longrightarrow> (\<forall>g \<in> set rest. p_payload_id g = p_payload_id fb)" by auto
  then show ?thesis by (simp add: reduce_def Cons reduce_loop_eq)
qed

lemma reduce_wf: "flashblocks_wf fbs \<Longrightarrow> reduce debug fbs = Ok (Some (reduced fbs))"
  using reduce_same_id flashblocks_wfD(1,3) by blast

lemma first_base_wf: "flashblocks_wf fbs \<Longrightarrow> first_base fbs = p_base (hd fbs)"
  by (cases fbs) (auto dest: flashblocks_wfD(1,2))

lemma last_index_wf:
  assumes "flashblocks_wf fbs"
  shows "p_index (last fbs) = of_nat (length fbs - 1)"
  using flashblocks_wfD(1) [OF assms] flashblocks_wfD(4) [OF assms, of "length fbs - 1"]
  by (simp add: last_conv_nth)

section \<open>Converting a flashblock to a block\<close>

text \<open>
  The parts of alloy and reth the conversion calls: the hash of an access list, the trie root of
  encoded transactions, the decoding of a transaction, the recovery of the senders, and two
  constants. \<open>U256::to\<close> panics when the value does not fit the 64-bit target.
\<close>

record ('tx, 'w, 'b) conversion_env =
  ce_access_list_hash :: "'b \<Rightarrow> b256"
  ce_transactions_root :: "bytes list \<Rightarrow> b256"
  ce_decode_tx :: "bytes \<Rightarrow> 'tx option"
  ce_recover :: "('tx, 'w, 'b) Block \<Rightarrow> address list option"
  ce_empty_ommer_root_hash :: b256
  ce_beacon_nonce :: u64

datatype conversion_error = MissingBase | TxDecodeFailed | RecoverFailed | NothingToReduce

definition u256_to_u64 :: "u256 \<Rightarrow> ('e, u64) result" where
  "u256_to_u64 x = (if unat x < 2 ^ 64 then Ok (ucast x) else Panic)"

definition flashblock_header ::
  "('tx, 'w, 'b) conversion_env \<Rightarrow> ExecutionPayloadBaseV1 \<Rightarrow>
     ('w, 'b) ExecutionPayloadFlashblockDeltaV1 \<Rightarrow> u64 \<Rightarrow> Header" where
  "flashblock_header env base diff base_fee =
     \<lparr>h_parent_hash = b_parent_hash base,
      h_ommers_hash = ce_empty_ommer_root_hash env,
      h_beneficiary = b_fee_recipient base,
      h_state_root = d_state_root diff,
      h_transactions_root = ce_transactions_root env (d_transactions diff),
      h_receipts_root = d_receipts_root diff,
      h_withdrawals_root = Some (d_withdrawals_root diff),
      h_logs_bloom = d_logs_bloom diff,
      h_timestamp = b_timestamp base,
      h_mix_hash = b_prev_randao base,
      h_nonce = ce_beacon_nonce env,
      h_base_fee_per_gas = Some base_fee,
      h_number = b_block_number base,
      h_gas_limit = b_gas_limit base,
      h_difficulty = 0,
      h_gas_used = d_gas_used diff,
      h_extra_data = b_extra_data base,
      h_parent_beacon_block_root = None,
      h_blob_gas_used = Some 0,
      h_excess_blob_gas = Some 0,
      h_requests_hash = None,
      h_block_access_list_hash =
        map_option (ce_access_list_hash env) (d_block_access_list diff)\<rparr>"

definition decode_all :: "(bytes \<Rightarrow> 'tx option) \<Rightarrow> bytes list \<Rightarrow> (conversion_error, 'tx list) result"
where
  "decode_all decode txs = collect_results (map (\<lambda>t. ok_or (decode t) TxDecodeFailed) txs)"

text \<open>\<open>TryFrom<Flashblock>\<close>: the block together with the recovered senders.\<close>

definition flashblock_to_block ::
  "('tx, 'w, 'b) conversion_env \<Rightarrow> ('w, 'b) flashblock \<Rightarrow>
     (conversion_error, ('tx, 'w, 'b) Block \<times> address list) result" where
  "flashblock_to_block env value =
     bind_result (ok_or (p_base value) MissingBase) (\<lambda>base.
     let diff = p_diff value in
     bind_result (u256_to_u64 (b_base_fee_per_gas base)) (\<lambda>base_fee.
     let header = flashblock_header env base diff base_fee in
     bind_result (decode_all (ce_decode_tx env) (d_transactions diff)) (\<lambda>txs.
     let blk = \<lparr>bk_header = header,
                bk_body = \<lparr>bb_transactions = txs, bb_ommers = [],
                           bb_withdrawals = Some (d_withdrawals diff),
                           bb_block_access_list = d_block_access_list diff\<rparr>\<rparr> in
     bind_result (ok_or (ce_recover env blk) RecoverFailed) (\<lambda>senders. Ok (blk, senders)))))"

text \<open>\<open>TryFrom<Flashblocks>\<close>.\<close>

definition flashblocks_to_block ::
  "bool \<Rightarrow> ('tx, 'w, 'b) conversion_env \<Rightarrow> ('w, 'b) flashblocks \<Rightarrow>
     (conversion_error, ('tx, 'w, 'b) Block \<times> address list) result" where
  "flashblocks_to_block debug env value =
     bind_result (reduce debug value) (\<lambda>r.
     bind_result (ok_or r NothingToReduce) (flashblock_to_block env))"

lemma decode_all_eq_Ok:
  "decode_all decode txs = Ok vs \<longleftrightarrow> map decode txs = map Some vs"
proof -
  have "map (\<lambda>t. ok_or (decode t) TxDecodeFailed) txs = map Ok vs \<longleftrightarrow> map decode txs = map Some vs"
  proof (induction txs arbitrary: vs)
    case Nil
    then show ?case by simp
  next
    case (Cons t txs)
    then show ?case by (cases vs; cases "decode t") simp_all
  qed
  then show ?thesis by (simp add: decode_all_def collect_results_eq_Ok)
qed

lemma decode_all_encoded:
  "(\<And>t. t \<in> set txs \<Longrightarrow> decode (encode t) = Some t) \<Longrightarrow>
     decode_all decode (map encode txs) = Ok txs"
  by (simp add: decode_all_eq_Ok)

section \<open>A job cut into flashblocks\<close>

text \<open>
  A payload job that builds one payload after the other and publishes each as a flashblock made
  with \<open>Flashblock::new\<close>: the offsets of each are the numbers of transactions and of withdrawals already
  published.
\<close>

type_synonym ('tx, 'w, 'b, 'x) built = "i64 \<times> ('tx, 'w, 'b, 'x) OpBuiltPayload \<times> 'b option"

abbreviation built_txs :: "('tx, 'w, 'b, 'x) built \<Rightarrow> 'tx list" where
  "built_txs b \<equiv> block_txs (bp_block (fst (snd b)))"

abbreviation block_withdrawals :: "('tx, 'w, 'b) Block \<Rightarrow> 'w list" where
  "block_withdrawals blk \<equiv> unwrap_or (bb_withdrawals (bk_body blk)) []"

abbreviation built_withdrawals :: "('tx, 'w, 'b, 'x) built \<Rightarrow> 'w list" where
  "built_withdrawals b \<equiv> block_withdrawals (bp_block (fst (snd b)))"

fun cut_job ::
  "('tx \<Rightarrow> bytes) \<Rightarrow> ('tx, 'w) OpPayloadBuilderAttributes \<Rightarrow> nat \<Rightarrow> nat \<Rightarrow> nat \<Rightarrow>
     ('tx, 'w, 'b, 'x) built list \<Rightarrow> ('e, ('w, 'b) flashblocks) result" where
  "cut_job encode attrs k offset woff [] = Ok []"
| "cut_job encode attrs k offset woff ((ts, payload, bal) # rest) =
     bind_result (flashblock_new encode (Some ts) payload attrs (of_nat k) offset woff bal) (\<lambda>fb.
     bind_result (cut_job encode attrs (Suc k) (length (block_txs (bp_block payload)))
       (length (block_withdrawals (bp_block payload))) rest) (\<lambda>fbs.
     Ok (fb # fbs)))"

text \<open>Each payload of the job extends the transactions and the withdrawals of the one before.\<close>

fun extends :: "'tx list \<Rightarrow> 'w list \<Rightarrow> ('tx, 'w, 'b, 'x) built list \<Rightarrow> bool" where
  "extends txs ws [] = True"
| "extends txs ws (b # rest) =
     (prefix txs (built_txs b) \<and> prefix ws (built_withdrawals b) \<and> extends (built_txs b) (built_withdrawals b) rest)"

lemma flashblock_new_eq:
  "flashblock_new encode (Some ts) payload attrs k offset woff bal = Ok fb \<longleftrightarrow>
     fb = \<lparr>p_payload_id = ea_id (oa_payload_attributes attrs), p_index = k,
        p_diff = new_diff encode payload offset woff bal,
        p_metadata = \<lparr>m_fees = bp_fees payload, m_flashblock_timestamp = Some ts\<rparr>,
        p_base = (if k = 0 then Some (new_base (bp_block payload) attrs) else None)\<rparr>"
  by (auto simp: flashblock_new_def)

lemma flashblock_new_fields:
  assumes "flashblock_new encode (Some ts) payload attrs k offset woff bal = Ok fb"
  shows "p_payload_id fb = ea_id (oa_payload_attributes attrs)" "p_index fb = k"
    "d_transactions (p_diff fb) = map encode (drop offset (block_txs (bp_block payload)))"
    "p_base fb = (if k = 0 then Some (new_base (bp_block payload) attrs) else None)"
    "d_withdrawals (p_diff fb) = drop woff (block_withdrawals (bp_block payload))"
    "p_diff fb = new_diff encode payload offset woff bal"
  using assms by (simp_all add: flashblock_new_eq new_diff_def Let_def unwrap_or_def split: option.splits)

lemma cut_job_ConsD:
  assumes "cut_job encode attrs k offset woff ((ts, payload, bal) # rest) = (Ok fbs :: ('e, _) result)"
  obtains fb fbs' where "fbs = fb # fbs'"
    "flashblock_new encode (Some ts) payload attrs (of_nat k) offset woff bal
       = (Ok fb :: ('e, _) result)"
    "cut_job encode attrs (Suc k) (length (block_txs (bp_block payload)))
       (length (block_withdrawals (bp_block payload))) rest = (Ok fbs' :: ('e, _) result)"
  using assms by auto

lemma cut_job_indices:
  assumes "cut_job encode attrs k offset woff builds = (Ok fbs :: ('e, _) result)"
  shows "length fbs = length builds \<and> check_indices k fbs
    \<and> (\<forall>fb \<in> set fbs. p_payload_id fb = ea_id (oa_payload_attributes attrs))"
  using assms
proof (induction builds arbitrary: k offset woff fbs)
  case Nil
  then show ?case by simp
next
  case (Cons b builds)
  obtain ts payload bal where b: "b = (ts, payload, bal)" by (cases b)
  from Cons.prems[unfolded b] show ?case
  proof (rule cut_job_ConsD)
    fix fb fbs'
    assume "fbs = fb # fbs'"
      and new: "flashblock_new encode (Some ts) payload attrs (of_nat k) offset woff bal
        = (Ok fb :: ('e, _) result)"
      and "cut_job encode attrs (Suc k) (length (block_txs (bp_block payload)))
        (length (block_withdrawals (bp_block payload))) builds = (Ok fbs' :: ('e, _) result)"
    with Cons.IH show ?thesis using flashblock_new_fields [OF new] by auto
  qed
qed

text \<open>What is published adds up to the last payload, and the last flashblock has its roots, gas and bloom.\<close>

lemma drop_prefix: "prefix xs ys \<Longrightarrow> map f xs @ map f (drop (length xs) ys) = map f ys"
  by (auto simp: prefix_def)

lemma cut_job_adds_up:
  assumes "cut_job encode attrs k (length txs) (length ws) builds = (Ok fbs :: ('e, _) result)"
    and "extends txs ws builds" and "builds \<noteq> []"
  shows "map encode txs @ all_transactions fbs = map encode (built_txs (last builds)) \<and>
    ws @ all_withdrawals fbs = built_withdrawals (last builds) \<and>
    (\<exists>offset woff bal. p_diff (last fbs) = new_diff encode (fst (snd (last builds))) offset woff bal)"
  using assms
proof (induction builds arbitrary: k txs ws fbs)
  case Nil
  then show ?case by simp
next
  case (Cons b builds)
  obtain ts payload bal where b: "b = (ts, payload, bal)" by (cases b)
  let ?txs = "block_txs (bp_block payload)" and ?ws = "block_withdrawals (bp_block payload)"
  have pre: "prefix txs ?txs" "prefix ws ?ws" and ext: "extends ?txs ?ws builds"
    using Cons.prems(2) by (simp_all add: b)
  note join = drop_prefix [OF pre(1), of encode] drop_prefix [OF pre(2), of "\<lambda>w. w", unfolded map_ident]
  from Cons.prems(1)[unfolded b] show ?case
  proof (rule cut_job_ConsD)
    fix fb fbs'
    assume fbs: "fbs = fb # fbs'"
      and new: "flashblock_new encode (Some ts) payload attrs (of_nat k) (length txs) (length ws) bal
        = (Ok fb :: ('e, _) result)"
      and rest: "cut_job encode attrs (Suc k) (length ?txs) (length ?ws) builds = (Ok fbs' :: ('e, _) result)"
    note fields = flashblock_new_fields [OF new]
    have published: "map encode txs @ all_transactions fbs = map encode ?txs @ all_transactions fbs'"
      "ws @ all_withdrawals fbs = ?ws @ all_withdrawals fbs'"
      using join fields(3,5) by (simp_all add: fbs all_transactions_def all_withdrawals_def flip: append_assoc)
    show ?thesis
    proof (cases "builds = []")
      case True
      with rest have "fbs' = []" by simp
      with published True fields(6) show ?thesis by (auto simp: b fbs all_transactions_def all_withdrawals_def)
    next
      case False
      moreover from this have "fbs' \<noteq> []" using cut_job_indices [OF rest] by auto
      ultimately show ?thesis using Cons.IH [OF rest ext False] published by (simp add: fbs)
    qed
  qed
qed

lemma cut_job_wf:
  assumes "cut_job encode attrs 0 0 0 builds = (Ok fbs :: ('e, _) result)" and "builds \<noteq> []"
  shows "flashblocks_wf fbs"
    and "p_base (hd fbs) = Some (new_base (bp_block (fst (snd (hd builds)))) attrs)"
    and "d_block_access_list (p_diff (hd fbs)) = snd (snd (hd builds))"
proof -
  from assms have fbs: "fbs \<noteq> []" using cut_job_indices [OF assms(1)] by auto
  obtain ts payload bal rest where b: "builds = (ts, payload, bal) # rest"
    using assms(2) by (cases builds) auto
  have first: "p_base (hd fbs) = Some (new_base (bp_block payload) attrs) \<and> d_block_access_list (p_diff (hd fbs)) = bal"
    using assms(1) [unfolded b]
  proof (rule cut_job_ConsD)
    fix fb fbs'
    assume "fbs = fb # fbs'" and new: "flashblock_new encode (Some ts) payload attrs (of_nat 0) 0 0 bal = (Ok fb :: ('e, _) result)"
    then show ?thesis using flashblock_new_fields(4,6) [OF new] by (simp add: new_diff_def Let_def)
  qed
  then show "p_base (hd fbs) = Some (new_base (bp_block (fst (snd (hd builds)))) attrs)"
    "d_block_access_list (p_diff (hd fbs)) = snd (snd (hd builds))" by (simp_all add: b)
  have "\<forall>fb \<in> set fbs. p_payload_id fb = p_payload_id (hd fbs)"
    using cut_job_indices [OF assms(1)] hd_in_set [OF fbs] by metis
  then show "flashblocks_wf fbs"
    using fbs first cut_job_indices [OF assms(1)] unfolding flashblocks_wf_def check_indices_iff by simp
qed

section \<open>Properties\<close>

text \<open>
  The reduction of a collection that satisfies the invariant returns one flashblock, and does
  not trip its \<open>debug_assert\<close>: it has the payload id and the base of the first flashblock, the
  index and the metadata of the last, the transactions and withdrawals of all of them in order,
  and the roots, gas, bloom and block hash of the last.
\<close>

theorem reduce_collection:
  assumes "flashblocks_wf fbs"
  shows "\<exists>r. reduce debug fbs = Ok (Some r)
    \<and> p_payload_id r = p_payload_id (hd fbs) \<and> p_base r = p_base (hd fbs)
    \<and> p_index r = of_nat (length fbs - 1) \<and> p_metadata r = p_metadata (last fbs)
    \<and> d_transactions (p_diff r) = concat (map (d_transactions \<circ> p_diff) fbs)
    \<and> d_withdrawals (p_diff r) = concat (map (d_withdrawals \<circ> p_diff) fbs)
    \<and> d_state_root (p_diff r) = d_state_root (p_diff (last fbs))
    \<and> d_receipts_root (p_diff r) = d_receipts_root (p_diff (last fbs))
    \<and> d_logs_bloom (p_diff r) = d_logs_bloom (p_diff (last fbs))
    \<and> d_gas_used (p_diff r) = d_gas_used (p_diff (last fbs))
    \<and> d_withdrawals_root (p_diff r) = d_withdrawals_root (p_diff (last fbs))
    \<and> d_block_hash (p_diff r) = d_block_hash (p_diff (last fbs))"
  by (intro exI [of _ "reduced fbs"])
    (simp add: reduce_wf [OF assms] reduced_def first_base_wf [OF assms] last_index_wf [OF assms]
      all_transactions_def all_withdrawals_def)

theorem reduce_collection_witness:
  "\<exists>r. reduce True (default_flashblocks :: (unit, unit) flashblocks) = Ok (Some r)
     \<and> p_base r = Some default_base"
proof -
  let ?d = "default_flashblocks :: (unit, unit) flashblocks"
  have "p_base (hd ?d) = Some default_base" by (simp add: default_flashblocks_def)
  then show ?thesis using reduce_collection [OF default_flashblocks_wf, of True] by metis
qed

text \<open>
  The reduction does not take over the block access lists of later flashblocks: the result
  carries the list of the first flashblock, whatever lists the others have, although its block
  hash, roots and gas are those of the last one.
\<close>

theorem reduce_keeps_first_access_list:
  assumes "flashblocks_wf fbs"
  shows "\<exists>r. reduce debug fbs = Ok (Some r)
    \<and> d_block_access_list (p_diff r) = d_block_access_list (p_diff (hd fbs))
    \<and> d_block_hash (p_diff r) = d_block_hash (p_diff (last fbs))"
  by (intro exI [of _ "reduced fbs"]) (simp add: reduce_wf [OF assms] reduced_def)

definition stale_example :: "(unit, nat) flashblocks" where
  "stale_example =
     (let fb = \<lambda>i bal hash. \<lparr>p_payload_id = 7, p_index = i,
           p_diff = default_delta\<lparr>d_block_access_list := Some bal, d_block_hash := hash\<rparr>,
           p_metadata = default_metadata,
           p_base = (if i = 0 then Some default_base else None)\<rparr>
      in [fb 0 (1 :: nat) 10, fb 1 2 20])"

lemma stale_example_wf: "flashblocks_wf stale_example"
proof -
  have "p_index (stale_example ! i) = of_nat i" if "i < 2" for i
    using that by (cases i) (auto simp: stale_example_def Let_def less_Suc_eq)
  then show ?thesis
    by (auto simp: flashblocks_wf_def stale_example_def Let_def)
qed

theorem reduce_keeps_first_access_list_witness:
  "\<exists>r. reduce False stale_example = Ok (Some r)
     \<and> d_block_access_list (p_diff r) = Some 1 \<and> d_block_hash (p_diff r) = 20
     \<and> d_block_access_list (p_diff (last stale_example)) = Some 2"
proof -
  have "d_block_access_list (p_diff (hd stale_example)) = Some 1"
    "d_block_hash (p_diff (last stale_example)) = 20"
    "d_block_access_list (p_diff (last stale_example)) = Some 2"
    by (simp_all add: stale_example_def)
  then show ?thesis
    using reduce_keeps_first_access_list [OF stale_example_wf, of False] by metis
qed

text \<open>The widened base fee of a header converts back.\<close>

lemma u256_to_u64_new_base:
  "u256_to_u64 (b_base_fee_per_gas (new_base blk attrs)) =
     Ok (unwrap_or (h_base_fee_per_gas (bk_header blk)) 0)"
proof (cases "h_base_fee_per_gas (bk_header blk)")
  case None
  then show ?thesis by (simp add: new_base_def u256_to_u64_def Let_def)
next
  case (Some f)
  have "unat (ucast f :: u256) < 2 ^ 64" "ucast (ucast f :: u256) = f"
    using unat_u64_less [of f]
    by (simp_all add: unsigned_ucast_eq take_bit_nat_eq_self take_bit_word_eq_self)
  with Some show ?thesis by (simp add: new_base_def u256_to_u64_def Let_def)
qed

text \<open>
  The block of a payload of a job. The attributes give the parent, the beneficiary, the randomness and the time of its
  header; the consensus rules fix the hash of the ommers, the nonce, the difficulty and the transactions root; the
  number, gas limit, extra data and base fee are those of the first payload of the job.
\<close>

definition job_header ::
  "('tx, 'w, 'b) conversion_env \<Rightarrow> ('tx \<Rightarrow> bytes) \<Rightarrow> ('tx, 'w) OpPayloadBuilderAttributes \<Rightarrow> Header \<Rightarrow> ('tx, 'w, 'b) Block \<Rightarrow> bool" where
  "job_header env encode attrs hdr blk \<longleftrightarrow>
     (let h = bk_header blk; ea = oa_payload_attributes attrs in
      h_parent_hash h = ea_parent ea \<and> h_beneficiary h = ea_suggested_fee_recipient ea \<and>
      h_mix_hash h = ea_prev_randao ea \<and> h_timestamp h = ea_timestamp ea \<and>
      h_ommers_hash h = ce_empty_ommer_root_hash env \<and> bb_ommers (bk_body blk) = [] \<and>
      h_nonce h = ce_beacon_nonce env \<and> h_difficulty h = 0 \<and>
      h_transactions_root h = ce_transactions_root env (map encode (block_txs blk)) \<and>
      h_number h = h_number hdr \<and> h_gas_limit h = h_gas_limit hdr \<and>
      h_extra_data h = h_extra_data hdr \<and> h_base_fee_per_gas h = h_base_fee_per_gas hdr)"

text \<open>The block that is read back from the flashblocks of a job whose first has the access list \<open>bal\<close>.\<close>

definition read_back :: "('tx, 'w, 'b) conversion_env \<Rightarrow> 'b option \<Rightarrow> ('tx, 'w, 'b) Block \<Rightarrow> ('tx, 'w, 'b) Block" where
  "read_back env bal blk =
     blk\<lparr>bk_header := (bk_header blk)
           \<lparr>h_base_fee_per_gas := Some (unwrap_or (h_base_fee_per_gas (bk_header blk)) 0),
            h_withdrawals_root := Some (unwrap_or (h_withdrawals_root (bk_header blk)) 0),
            h_parent_beacon_block_root := None, h_blob_gas_used := Some 0, h_excess_blob_gas := Some 0,
            h_requests_hash := None, h_block_access_list_hash := map_option (ce_access_list_hash env) bal\<rparr>,
         bk_body := (bk_body blk)
           \<lparr>bb_withdrawals := Some (block_withdrawals blk), bb_block_access_list := bal\<rparr>\<rparr>"

lemma read_back_same:
  "read_back env bal blk = blk \<longleftrightarrow>
     (let h = bk_header blk; body = bk_body blk in
      h_base_fee_per_gas h \<noteq> None \<and> h_withdrawals_root h \<noteq> None \<and> h_parent_beacon_block_root h = None \<and>
      h_blob_gas_used h = Some 0 \<and> h_excess_blob_gas h = Some 0 \<and> h_requests_hash h = None \<and>
      h_block_access_list_hash h = map_option (ce_access_list_hash env) bal \<and>
      bb_withdrawals body \<noteq> None \<and> bb_block_access_list body = bal)"
  by (cases blk; cases "bk_header blk"; cases "bk_body blk")
    (auto simp: read_back_def Let_def unwrap_or_def split: option.splits)

text \<open>
  C19: A payload job cut into flashblocks with \<open>Flashblock::new\<close>, each with the transactions and the withdrawals that
  are new in its payload, gives a vector that \<open>Flashblocks::new\<close> accepts. Converting the collection reads back the
  block of the last payload: its transactions and withdrawals, none lost, repeated or reordered, its roots, gas and
  bloom, and every other field of its header but five. The parent beacon block root and the requests hash are dropped,
  the blob gas fields are zero, and the block access list and its hash are those of the first flashblock; a missing
  base fee or withdrawals root is read back as zero, and missing withdrawals as none. So the block is the last payload's
  exactly when it has these values; in particular it is another block whenever the header has a parent beacon block
  root, which the base of the first flashblock carries. The conversion then succeeds with the senders that are recovered from this block, and fails when there are none to
  recover. The transaction codec is assumed to decode what it encoded.
\<close>

theorem job_block_reconstructed:
  assumes cut: "cut_job encode attrs 0 0 0 builds
        = (Ok fbs :: (conversion_error, ('w, 'b) flashblocks) result)"
    and builds: "builds \<noteq> []" "extends [] [] builds"
    and codec: "\<And>t. t \<in> set (built_txs (last builds)) \<Longrightarrow> ce_decode_tx env (encode t) = Some t"
    and job: "job_header env encode attrs (bk_header (bp_block (fst (snd (hd builds))))) (bp_block (fst (snd (last builds))))"
  shows "flashblocks_new fbs = Ok fbs \<and>
    (let last_block = bp_block (fst (snd (last builds))); bal = snd (snd (hd builds));
         h = bk_header last_block; body = bk_body last_block in
     flashblocks_to_block debug env fbs =
       (case ce_recover env (read_back env bal last_block) of
          Some senders \<Rightarrow> Ok (read_back env bal last_block, senders)
        | None \<Rightarrow> Err RecoverFailed) \<and>
     (read_back env bal last_block = last_block \<longleftrightarrow>
        h_base_fee_per_gas h \<noteq> None \<and> h_withdrawals_root h \<noteq> None \<and> h_parent_beacon_block_root h = None \<and>
        h_blob_gas_used h = Some 0 \<and> h_excess_blob_gas h = Some 0 \<and> h_requests_hash h = None \<and>
        h_block_access_list_hash h = map_option (ce_access_list_hash env) bal \<and>
        bb_withdrawals body \<noteq> None \<and> bb_block_access_list body = bal))"
proof -
  note wf = cut_job_wf [OF cut builds(1)]
  let ?first = "bp_block (fst (snd (hd builds)))" and ?last = "bp_block (fst (snd (last builds)))" and ?bal = "snd (snd (hd builds))"
  let ?base = "new_base ?first attrs" and ?r = "reduced fbs"
  have sums: "all_transactions fbs = map encode (built_txs (last builds))"
    "all_withdrawals fbs = built_withdrawals (last builds)"
    and diff: "\<exists>offset woff bal. p_diff (last fbs) = new_diff encode (fst (snd (last builds))) offset woff bal"
    using cut_job_adds_up [where txs = "[]" and ws = "[]" and ?'e = conversion_error, unfolded list.size, OF cut builds(2,1)] by simp_all
  have base: "p_base ?r = Some ?base"
    by (simp add: reduced_def first_base_wf [OF wf(1)] wf(2))
  have fields: "d_transactions (p_diff ?r) = map encode (built_txs (last builds))"
    "d_withdrawals (p_diff ?r) = built_withdrawals (last builds)" "d_block_access_list (p_diff ?r) = ?bal"
    by (simp_all add: reduced_def sums wf(3))
  have header: "flashblock_header env ?base (p_diff ?r) (unwrap_or (h_base_fee_per_gas (bk_header ?first)) 0) =
      bk_header (read_back env ?bal ?last)"
    using job diff fields
    by (auto simp: flashblock_header_def read_back_def job_header_def reduced_def new_base_def new_diff_def Let_def
        intro!: Header.equality)
  have dec: "decode_all (ce_decode_tx env) (d_transactions (p_diff ?r)) = Ok (built_txs (last builds))"
    unfolding fields(1) by (rule decode_all_encoded [OF codec])
  have "\<lparr>bk_header = bk_header (read_back env ?bal ?last), bk_body = \<lparr>bb_transactions = built_txs (last builds), bb_ommers = [],
      bb_withdrawals = Some (d_withdrawals (p_diff ?r)), bb_block_access_list = d_block_access_list (p_diff ?r)\<rparr>\<rparr> =
    read_back env ?bal ?last"
    using job by (auto simp: read_back_def fields job_header_def Let_def intro!: Block.equality BlockBody.equality)
  then have "flashblocks_to_block debug env fbs =
      (case ce_recover env (read_back env ?bal ?last) of
         Some senders \<Rightarrow> Ok (read_back env ?bal ?last, senders) | None \<Rightarrow> Err RecoverFailed)"
    by (simp add: flashblocks_to_block_def reduce_wf [OF wf(1)] flashblock_to_block_def base u256_to_u64_new_base dec
        header Let_def ok_or_def split: option.split)
  then show ?thesis
    using read_back_same [of env ?bal ?last] by (simp add: Let_def flashblocks_new_Ok_iff wf(1))
qed

text \<open>A job of two payloads, the second with one more transaction, over one-byte transactions.\<close>

definition example_header :: Header where
  "example_header = \<lparr>h_parent_hash = 1, h_ommers_hash = 0, h_beneficiary = 0, h_state_root = 0,
     h_transactions_root = 0, h_receipts_root = 0, h_withdrawals_root = None, h_logs_bloom = 0,
     h_timestamp = 5, h_mix_hash = 0, h_nonce = 0, h_base_fee_per_gas = Some 9, h_number = 12,
     h_gas_limit = 100, h_difficulty = 0, h_gas_used = 0, h_extra_data = [],
     h_parent_beacon_block_root = None, h_blob_gas_used = None, h_excess_blob_gas = None,
     h_requests_hash = None, h_block_access_list_hash = None\<rparr>"

definition example_payload :: "u8 list \<Rightarrow> unit list \<Rightarrow> (u8, unit, unit, unit) OpBuiltPayload" where
  "example_payload txs ws = \<lparr>bp_id = 3,
     bp_block = \<lparr>bk_header = example_header\<lparr>h_transactions_root := of_nat (length txs), h_withdrawals_root := Some 0,
          h_parent_beacon_block_root := Some 77, h_blob_gas_used := Some 0, h_excess_blob_gas := Some 0\<rparr>,
        bk_body = \<lparr>bb_transactions = txs, bb_ommers = [], bb_withdrawals = Some ws, bb_block_access_list = None\<rparr>\<rparr>,
     bp_hash = 0, bp_fees = 0, bp_executed_block = None\<rparr>"

definition example_attrs :: "(u8, unit) OpPayloadBuilderAttributes" where
  "example_attrs = \<lparr>oa_payload_attributes = \<lparr>ea_id = 3, ea_parent = 1, ea_timestamp = 5,
       ea_suggested_fee_recipient = 0, ea_prev_randao = 0, ea_withdrawals = [],
       ea_parent_beacon_block_root = None\<rparr>,
     oa_no_tx_pool = False, oa_transactions = [], oa_gas_limit = None,
     oa_eip_1559_params = None, oa_min_base_fee = None\<rparr>"

definition conversion_example :: "(u8, unit, unit) conversion_env" where
  "conversion_example = \<lparr>ce_access_list_hash = (\<lambda>_. 0), ce_transactions_root = (\<lambda>txs. of_nat (length txs)),
     ce_decode_tx = first, ce_recover = (\<lambda>blk. Some (map (\<lambda>_. 0) (block_txs blk))),
     ce_empty_ommer_root_hash = 0, ce_beacon_nonce = 0\<rparr>"

definition example_builds :: "(u8, unit, unit, unit) built list" where
  "example_builds = [(1, example_payload [4] [()], None), (2, example_payload [4, 6] [()], None)]"

text \<open>All of the last block is read back, but for the parent beacon block root.\<close>

theorem job_block_reconstructed_witness:
  "\<exists>fbs blk. cut_job (\<lambda>t. [t]) example_attrs 0 0 0 example_builds
       = (Ok fbs :: (conversion_error, (unit, unit) flashblocks) result)
     \<and> flashblocks_to_block True conversion_example fbs = Ok (blk, [0, 0])
     \<and> block_txs blk = [4, 6] \<and> block_withdrawals blk = [()]
     \<and> blk \<noteq> bp_block (fst (snd (last example_builds)))
     \<and> blk = (bp_block (example_payload [4, 6] [()]))
         \<lparr>bk_header := (bk_header (bp_block (example_payload [4, 6] [()])))\<lparr>h_parent_beacon_block_root := None\<rparr>\<rparr>"
proof -
  obtain fbs where cut: "cut_job (\<lambda>t. [t]) example_attrs 0 0 0 example_builds
      = (Ok fbs :: (conversion_error, (unit, unit) flashblocks) result)"
    by (simp add: example_builds_def flashblock_new_def)
  have prems: "example_builds \<noteq> []" "extends [] [] example_builds"
    "\<And>t. t \<in> set (built_txs (last example_builds)) \<Longrightarrow> ce_decode_tx conversion_example [t] = Some t"
    "job_header conversion_example (\<lambda>t. [t]) example_attrs (bk_header (bp_block (fst (snd (hd example_builds)))))
      (bp_block (fst (snd (last example_builds))))"
    by (simp_all add: example_builds_def example_payload_def conversion_example_def job_header_def example_attrs_def
        example_header_def)
  note builds = example_builds_def example_payload_def example_header_def
  let ?blk = "read_back conversion_example None (bp_block (example_payload [4, 6] [()]))"
  from job_block_reconstructed [OF cut prems, of True]
  have "flashblocks_to_block True conversion_example fbs = Ok (?blk, [0, 0])"
    "?blk \<noteq> bp_block (fst (snd (last example_builds)))"
    by (simp_all add: Let_def builds conversion_example_def read_back_def)
  then show ?thesis
    by (intro exI [of _ fbs] exI [of _ ?blk] conjI cut) (simp_all add: read_back_def builds)
qed

end
