(* ===== verification/Codec.thy ===== *)
theory Codec
  imports Prelude
begin

text \<open>
  The interface of the \<^verbatim>\<open>alloy_rlp\<close> library as the program uses it. The library is not part of
  the program: a codec (what \<open>Encodable\<close> and \<open>Decodable\<close> of a type give) is a parameter of the
  model, and what the program relies on, its documented behaviour, is the locale \<open>rlp_codec\<close>; the
  same for the list header (\<open>rlp_header\<close>).
\<close>

section \<open>Codecs\<close>

datatype rlp_error =
    Overflow | LeadingZero | InputTooShort | NonCanonicalSingleByte | NonCanonicalSize
  | UnexpectedLength | UnexpectedString | UnexpectedList | ListLengthMismatch
  | CustomError string

text \<open>
  \<open>encode\<close> appends the encoding to a buffer: its model is the appended bytes. \<open>decode\<close> takes the
  buffer, and returns the value with the rest of the buffer.
\<close>

type_synonym 'a decoder = "bytes \<Rightarrow> (rlp_error, 'a \<times> bytes) result"

record 'a codec =
  encode :: "'a \<Rightarrow> bytes"
  encoded_length :: "'a \<Rightarrow> nat"
  decode :: "'a decoder"

text \<open>
  The header of an RLP item: \<open>header_encode n\<close> is the header of a list whose payload has \<open>n\<close>
  bytes; decoding returns whether the item is a list, the length of its payload and the rest of
  the buffer, which starts with the payload.
\<close>

record header_codec =
  header_encode :: "nat \<Rightarrow> bytes"
  header_length :: "nat \<Rightarrow> nat"
  header_decode :: "bytes \<Rightarrow> (rlp_error, bool \<times> nat \<times> bytes) result"

text \<open>
  A codec reads back what it wrote, whatever follows it in the buffer, and announces the length
  of what it writes. Lengths are \<open>usize\<close> in the program: the values \<open>valid\<close> for a codec are those
  whose encoding a machine can address.
\<close>

locale rlp_codec =
  fixes cod :: "'a codec" and valid :: "'a \<Rightarrow> bool"
  assumes decode_encode: "valid x \<Longrightarrow> decode cod (encode cod x @ rest) = Ok (x, rest)"
    and length_encode: "valid x \<Longrightarrow> encoded_length cod x = length (encode cod x)"
    and decode_no_panic: "decode cod buf \<noteq> Panic"
begin

lemma decode_encode_all: "valid x \<Longrightarrow> decode cod (encode cod x) = Ok (x, [])"
  using decode_encode [of x "[]"] by simp

lemma encode_inj:
  assumes "valid x" and "valid y" and "encode cod x = encode cod y"
  shows "x = y"
  using decode_encode_all [OF assms(1)] decode_encode_all [OF assms(2)]
  by (metis assms(3) prod.inject result.inject(1))

lemma encode_prefix_free:
  assumes "valid x" and "valid y" and "encode cod x @ xs = encode cod y @ ys"
  shows "x = y \<and> xs = ys"
  using decode_encode [OF assms(1), of xs] decode_encode [OF assms(2), of ys]
  by (metis assms(3) prod.inject result.inject(1))

end

locale rlp_header =
  fixes hdr :: header_codec
  assumes header_decode_encode:
    "n < 2 ^ 64 \<Longrightarrow> n \<le> length rest \<Longrightarrow>
       header_decode hdr (header_encode hdr n @ rest) = Ok (True, n, rest)"
    and header_truncated:
    "n < 2 ^ 64 \<Longrightarrow> length body = n \<Longrightarrow> k < length (header_encode hdr n) + n \<Longrightarrow>
       \<exists>e. header_decode hdr (take k (header_encode hdr n @ body)) = Err e"
    and length_header: "n < 2 ^ 64 \<Longrightarrow> header_length hdr n = length (header_encode hdr n)"
    and header_fits: "header_decode hdr buf = Ok (is_list, n, rest) \<Longrightarrow> n \<le> length rest"
    and header_no_panic: "header_decode hdr buf \<noteq> Panic"

end
