(* ===== verification/RlpReference.thy ===== *)
theory RlpReference
  imports Codec
begin

text \<open>
  Codecs that satisfy the interfaces of theory \<open>Codec\<close>, built from the definition of RLP in the
  Ethereum specification. They model no code of the program: they show that the interfaces can be
  met, with one codec per field type of the messages, and make the program's encoders and
  decoders run on concrete bytes.
\<close>

section \<open>Big-endian numbers\<close>

fun nat_bytes :: "nat \<Rightarrow> bytes" where
  "nat_bytes n = (if n = 0 then [] else nat_bytes (n div 256) @ [of_nat (n mod 256)])"

declare nat_bytes.simps [simp del]

lemma nat_bytes_0 [simp]: "nat_bytes 0 = []"
  by (simp add: nat_bytes.simps)

fun fixed_bytes :: "nat \<Rightarrow> nat \<Rightarrow> bytes" where
  "fixed_bytes 0 n = []"
| "fixed_bytes (Suc k) n = fixed_bytes k (n div 256) @ [of_nat (n mod 256)]"

definition bytes_nat :: "bytes \<Rightarrow> nat" where
  "bytes_nat bs = foldl (\<lambda>acc b. 256 * acc + unat b) 0 bs"

lemma bytes_nat_Nil [simp]: "bytes_nat [] = 0"
  by (simp add: bytes_nat_def)

lemma bytes_nat_snoc [simp]: "bytes_nat (bs @ [b]) = 256 * bytes_nat bs + unat b"
  by (simp add: bytes_nat_def)

lemma unat_byte_mod [simp]: "unat (of_nat (n mod 256) :: u8) = n mod 256"
  by (simp add: unat_of_nat)

lemma bytes_nat_nat_bytes [simp]: "bytes_nat (nat_bytes n) = n"
proof (induction n rule: nat_bytes.induct)
  case (1 n)
  then show ?case by (cases "n = 0") (simp_all add: nat_bytes.simps [of n])
qed

lemma length_fixed_bytes [simp]: "length (fixed_bytes k n) = k"
  by (induction k n rule: fixed_bytes.induct) simp_all

lemma bytes_nat_fixed_bytes: "n < 256 ^ k \<Longrightarrow> bytes_nat (fixed_bytes k n) = n"
proof (induction k n rule: fixed_bytes.induct)
  case (1 n)
  then show ?case by simp
next
  case (2 k n)
  then have "n div 256 < 256 ^ k" by (simp add: less_mult_imp_div_less mult.commute)
  with 2 show ?case by simp
qed

lemma length_nat_bytes: "n < 256 ^ k \<Longrightarrow> length (nat_bytes n) \<le> k"
proof (induction k arbitrary: n)
  case 0
  then show ?case by (simp add: nat_bytes.simps [of n])
next
  case (Suc k)
  then have "n div 256 < 256 ^ k" by (simp add: less_mult_imp_div_less mult.commute)
  then have "length (nat_bytes (n div 256)) \<le> k" by (rule Suc.IH)
  then show ?case by (simp add: nat_bytes.simps [of n])
qed

lemma nat_bytes_eq_Nil [simp]: "nat_bytes n = [] \<longleftrightarrow> n = 0"
  by (simp add: nat_bytes.simps [of n])

lemma hd_nat_bytes: "n \<noteq> 0 \<Longrightarrow> hd (nat_bytes n) \<noteq> 0"
proof (induction n rule: nat_bytes.induct)
  case (1 n)
  show ?case
  proof (cases "n div 256 = 0")
    case True
    then have "n mod 256 = n" and "n < 256" by (auto simp: div_eq_0_iff)
    with 1 show ?thesis
      by (simp add: nat_bytes.simps [of n] word_unat_eq_iff unat_of_nat)
  next
    case False
    with 1 show ?thesis by (simp add: nat_bytes.simps [of n] hd_append)
  qed
qed

section \<open>Item headers\<close>

definition byte :: "nat \<Rightarrow> u8" where
  "byte n = of_nat n"

lemma unat_byte [simp]: "n < 256 \<Longrightarrow> unat (byte n) = n"
  by (simp add: byte_def unat_of_nat)

definition item_head :: "nat \<Rightarrow> nat \<Rightarrow> bytes" where
  "item_head offset n =
     (if n < 56 then [byte (offset + n)]
      else let l = nat_bytes n in byte (offset + 55 + length l) # l)"

definition short_head :: "bool \<Rightarrow> nat \<Rightarrow> bytes \<Rightarrow> (rlp_error, bool \<times> nat \<times> bytes) result" where
  "short_head is_list n bs = (if length bs < n then Err InputTooShort else Ok (is_list, n, bs))"

definition long_head :: "bool \<Rightarrow> nat \<Rightarrow> bytes \<Rightarrow> (rlp_error, bool \<times> nat \<times> bytes) result" where
  "long_head is_list k bs =
     (if length bs < k then Err InputTooShort
      else if first bs = Some 0 then Err LeadingZero
      else let n = bytes_nat (take k bs); rest = drop k bs in
           if n < 56 then Err NonCanonicalSize
           else if length rest < n then Err InputTooShort
           else Ok (is_list, n, rest))"

fun item_decode :: "bytes \<Rightarrow> (rlp_error, bool \<times> nat \<times> bytes) result" where
  "item_decode [] = Err InputTooShort"
| "item_decode (b # bs) =
     (let t = unat b in
      if t < 128 then Ok (False, 1, b # bs)
      else if t < 184 then
        (if t = 129 \<and> (case bs of x # _ \<Rightarrow> unat x < 128 | [] \<Rightarrow> False)
         then Err NonCanonicalSingleByte else short_head False (t - 128) bs)
      else if t < 192 then long_head False (t - 183) bs
      else if t < 248 then short_head True (t - 192) bs
      else long_head True (t - 247) bs)"

lemma nat_bytes_u64:
  assumes "56 \<le> n" and "n < 2 ^ 64"
  shows "1 \<le> length (nat_bytes n)" "length (nat_bytes n) \<le> 8"
    and "first (nat_bytes n @ rest) \<noteq> Some 0"
proof -
  show "length (nat_bytes n) \<le> 8" using assms(2) by (intro length_nat_bytes) simp
  have "nat_bytes n \<noteq> []" using assms(1) by simp
  then show "1 \<le> length (nat_bytes n)" by (cases "nat_bytes n") simp_all
  show "first (nat_bytes n @ rest) \<noteq> Some 0"
    using hd_nat_bytes [of n] assms(1) \<open>nat_bytes n \<noteq> []\<close> by (cases "nat_bytes n") simp_all
qed

lemma long_head_nat_bytes:
  assumes "56 \<le> n" and "n < 2 ^ 64" and "n \<le> length rest"
  shows "long_head is_list (length (nat_bytes n)) (nat_bytes n @ rest) = Ok (is_list, n, rest)"
  using assms nat_bytes_u64(3) [OF assms(1,2)] by (simp add: long_head_def)

lemma item_decode_list:
  assumes "n < 2 ^ 64" and "n \<le> length rest"
  shows "item_decode (item_head 192 n @ rest) = Ok (True, n, rest)"
proof (cases "n < 56")
  case True
  then show ?thesis using assms by (simp add: item_head_def short_head_def)
next
  case False
  with assms nat_bytes_u64 [of n] long_head_nat_bytes [of n rest] show ?thesis
    by (simp add: item_head_def Let_def)
qed

lemma item_decode_string:
  assumes "n < 2 ^ 64" and "n \<le> length rest" and "n = 1 \<Longrightarrow> \<not> unat (hd rest) < 128"
  shows "item_decode (item_head 128 n @ rest) = Ok (False, n, rest)"
proof (cases "n < 56")
  case True
  then show ?thesis using assms
    by (auto simp: item_head_def short_head_def Let_def split: list.split)
next
  case False
  with assms nat_bytes_u64 [of n] long_head_nat_bytes [of n rest] show ?thesis
    by (simp add: item_head_def Let_def)
qed

lemma item_decode_truncated:
  assumes "n < 2 ^ 64" and "length body = n" and "k < length (item_head 192 n) + n"
  shows "\<exists>e. item_decode (take k (item_head 192 n @ body)) = Err e"
proof (cases k)
  case 0
  then show ?thesis by simp
next
  case (Suc j)
  show ?thesis
  proof (cases "n < 56")
    case True
    with assms Suc show ?thesis
      by (simp add: item_head_def short_head_def)
  next
    case False
    let ?l = "nat_bytes n"
    have l: "1 \<le> length ?l" "length ?l \<le> 8" using nat_bytes_u64 [of n] False assms(1) by simp_all
    have "\<exists>e. long_head True (length ?l) (take j (?l @ body)) = Err e"
    proof (cases "j < length ?l")
      case True
      then show ?thesis by (simp add: long_head_def)
    next
      case le: False
      with False assms Suc have "length (drop (length ?l) (take j (?l @ body))) < n"
        by (simp add: item_head_def Let_def)
      with le show ?thesis by (simp add: long_head_def Let_def)
    qed
    with False l Suc show ?thesis by (simp add: item_head_def Let_def)
  qed
qed

lemma item_decode_fits: "item_decode buf = Ok (is_list, n, rest) \<Longrightarrow> n \<le> length rest"
  by (cases buf) (auto simp: short_head_def long_head_def Let_def split: if_splits)

lemma item_decode_no_panic: "item_decode buf \<noteq> Panic"
  by (cases buf) (simp_all add: short_head_def long_head_def Let_def)

definition list_header :: header_codec where
  "list_header = \<lparr>header_encode = item_head 192,
     header_length = (\<lambda>n. length (item_head 192 n)), header_decode = item_decode\<rparr>"

interpretation list_header: rlp_header list_header
  by (unfold_locales, unfold list_header_def header_codec.simps)
    (erule (2) item_decode_truncated | erule (1) item_decode_list | rule refl
      | erule item_decode_fits | rule item_decode_no_panic)+

section \<open>Strings and numbers\<close>

definition string_encode :: "bytes \<Rightarrow> bytes" where
  "string_encode bs =
     (if length bs = 1 \<and> unat (hd bs) < 128 then bs else item_head 128 (length bs) @ bs)"

definition string_decode :: "bytes decoder" where
  "string_decode buf = bind_result (item_decode buf) (\<lambda>(is_list, n, rest).
     if is_list then Err UnexpectedList else Ok (take n rest, drop n rest))"

definition string_codec :: "bytes codec" where
  "string_codec = \<lparr>encode = string_encode, encoded_length = (\<lambda>bs. length (string_encode bs)),
     decode = string_decode\<rparr>"

text \<open>A codec over the values of another, through a checked conversion.\<close>

definition convert_codec ::
  "('b \<Rightarrow> 'a) \<Rightarrow> ('a \<Rightarrow> (rlp_error, 'b) result) \<Rightarrow> 'a codec \<Rightarrow> 'b codec" where
  "convert_codec to_a of_a c =
     \<lparr>encode = (\<lambda>x. encode c (to_a x)), encoded_length = (\<lambda>x. encoded_length c (to_a x)),
      decode = (\<lambda>buf. bind_result (decode c buf) (\<lambda>(a, rest).
        bind_result (of_a a) (\<lambda>x. Ok (x, rest))))\<rparr>"

text \<open>A word as a string of exactly \<open>k\<close> bytes, and as a number without leading zeros.\<close>

definition fixed_codec :: "nat \<Rightarrow> 'a :: len word codec" where
  "fixed_codec k = convert_codec (\<lambda>w. fixed_bytes k (unat w))
     (\<lambda>bs. if length bs = k then Ok (of_nat (bytes_nat bs)) else Err UnexpectedLength) string_codec"

definition number_codec :: "'a :: len word codec" where
  "number_codec = convert_codec (\<lambda>w. nat_bytes (unat w))
     (\<lambda>bs. if first bs = Some 0 then Err LeadingZero
           else if 2 ^ LENGTH('a) \<le> bytes_nat bs then Err Overflow
           else Ok (of_nat (bytes_nat bs))) string_codec"

lemma string_decode_encode:
  assumes "length bs < 2 ^ 64"
  shows "string_decode (string_encode bs @ rest) = Ok (bs, rest)"
proof (cases "length bs = 1 \<and> unat (hd bs) < 128")
  case True
  then obtain b where "bs = [b]" "unat b < 128" by (cases bs) auto
  then show ?thesis by (simp add: string_encode_def string_decode_def)
next
  case False
  have "item_decode (item_head 128 (length bs) @ (bs @ rest)) = Ok (False, length bs, bs @ rest)"
  proof (rule item_decode_string)
    show "\<not> unat (hd (bs @ rest)) < 128" if "length bs = 1"
      using that False by (cases bs) auto
  qed (use assms in simp_all)
  with False show ?thesis by (auto simp: string_encode_def string_decode_def)
qed

lemma string_codec_ok: "rlp_codec string_codec (\<lambda>bs. length bs < 2 ^ 64)"
proof
  show "decode string_codec buf \<noteq> Panic" for buf
    by (auto simp: string_codec_def string_decode_def bind_result_cases item_decode_no_panic
        split: prod.splits)
qed (simp_all add: string_codec_def string_decode_encode)

lemma convert_codec_ok:
  assumes "rlp_codec c valid" and "\<And>x. valid' x \<Longrightarrow> valid (to_a x) \<and> of_a (to_a x) = Ok x"
    and "\<And>a. of_a a \<noteq> Panic"
  shows "rlp_codec (convert_codec to_a of_a c) valid'"
proof
  show "decode (convert_codec to_a of_a c) buf \<noteq> Panic" for buf
    using assms(3) rlp_codec.decode_no_panic [OF assms(1)]
    by (auto simp: convert_codec_def bind_result_cases split: prod.splits)
qed (simp_all add: convert_codec_def assms(2) rlp_codec.decode_encode [OF assms(1)]
      rlp_codec.length_encode [OF assms(1)])

lemma fixed_codec_ok:
  assumes "LENGTH('a :: len) = 8 * k" and "k < 2 ^ 64"
  shows "rlp_codec (fixed_codec k :: 'a word codec) (\<lambda>_. True)"
  unfolding fixed_codec_def
proof (rule convert_codec_ok [OF string_codec_ok])
  fix w :: "'a word"
  have "unat w < 256 ^ k"
    using unsigned_less [of w, where ?'a = nat] by (simp add: assms(1) power_mult)
  then show "length (fixed_bytes k (unat w)) < 2 ^ 64 \<and>
      (if length (fixed_bytes k (unat w)) = k then Ok (of_nat (bytes_nat (fixed_bytes k (unat w))))
       else Err UnexpectedLength) = Ok w"
    using assms(2) by (simp add: bytes_nat_fixed_bytes)
qed simp

lemma number_codec_ok:
  assumes "LENGTH('a :: len) = 8 * k" and "k < 2 ^ 64"
  shows "rlp_codec (number_codec :: 'a word codec) (\<lambda>_. True)"
  unfolding number_codec_def
proof (rule convert_codec_ok [OF string_codec_ok])
  fix w :: "'a word"
  let ?bs = "nat_bytes (unat w)"
  have bound: "unat w < 2 ^ LENGTH('a)" by (rule unsigned_less)
  then have "length ?bs \<le> k" by (intro length_nat_bytes) (simp add: assms(1) power_mult)
  moreover have "first ?bs \<noteq> Some 0"
    using hd_nat_bytes [of "unat w"] by (cases "unat w = 0"; cases ?bs) simp_all
  ultimately show "length ?bs < 2 ^ 64 \<and>
      (if first ?bs = Some 0 then Err LeadingZero
       else if 2 ^ LENGTH('a) \<le> bytes_nat ?bs then Err Overflow
       else Ok (of_nat (bytes_nat ?bs))) = Ok w"
    using assms(2) bound by (simp add: not_le)
qed simp

section \<open>Structures\<close>

text \<open>
  Fields one after the other, a sequence of items, an optional last field, and the list item
  around them. What stands inside a list needs to be read back only when nothing follows it:
  \<open>closed_codec\<close>.
\<close>

definition seq_codec :: "'a codec \<Rightarrow> 'b codec \<Rightarrow> ('a \<times> 'b) codec" where
  "seq_codec c d =
     \<lparr>encode = (\<lambda>(x, y). encode c x @ encode d y),
      encoded_length = (\<lambda>(x, y). encoded_length c x + encoded_length d y),
      decode = (\<lambda>buf. bind_result (decode c buf) (\<lambda>(x, rest).
        bind_result (decode d rest) (\<lambda>(y, rest'). Ok ((x, y), rest'))))\<rparr>"

definition trailing_codec :: "'a codec \<Rightarrow> 'a option codec" where
  "trailing_codec c =
     \<lparr>encode = (\<lambda>x. case x of None \<Rightarrow> [] | Some a \<Rightarrow> encode c a),
      encoded_length = (\<lambda>x. case x of None \<Rightarrow> 0 | Some a \<Rightarrow> encoded_length c a),
      decode = (\<lambda>buf. if buf = [] then Ok (None, [])
        else bind_result (decode c buf) (\<lambda>(a, rest). Ok (Some a, rest)))\<rparr>"

fun decode_many :: "nat \<Rightarrow> 'a decoder \<Rightarrow> 'a list decoder" where
  "decode_many 0 d buf = (if buf = [] then Ok ([], []) else Err UnexpectedLength)"
| "decode_many (Suc fuel) d buf =
     (if buf = [] then Ok ([], [])
      else bind_result (d buf) (\<lambda>(x, rest).
           bind_result (decode_many fuel d rest) (\<lambda>(xs, rest'). Ok (x # xs, rest'))))"

text \<open>Every item takes at least one byte, so the length of the buffer is enough fuel.\<close>

definition many_codec :: "'a codec \<Rightarrow> 'a list codec" where
  "many_codec c =
     \<lparr>encode = (\<lambda>xs. concat (map (encode c) xs)),
      encoded_length = (\<lambda>xs. sum_list (map (encoded_length c) xs)),
      decode = (\<lambda>buf. decode_many (length buf) (decode c) buf)\<rparr>"

definition list_codec :: "'a codec \<Rightarrow> 'a codec" where
  "list_codec c =
     \<lparr>encode = (\<lambda>x. item_head 192 (length (encode c x)) @ encode c x),
      encoded_length = (\<lambda>x. length (item_head 192 (encoded_length c x)) + encoded_length c x),
      decode = (\<lambda>buf. bind_result (item_decode buf) (\<lambda>(is_list, n, rest).
        if \<not> is_list then Err UnexpectedString
        else bind_result (decode c (take n rest)) (\<lambda>(x, left).
             if left \<noteq> [] then Err ListLengthMismatch else Ok (x, drop n rest))))\<rparr>"

definition closed_codec :: "'a codec \<Rightarrow> ('a \<Rightarrow> bool) \<Rightarrow> bool" where
  "closed_codec c valid \<longleftrightarrow>
     (\<forall>x. valid x \<longrightarrow> decode c (encode c x) = Ok (x, [])
        \<and> encoded_length c x = length (encode c x))
     \<and> (\<forall>buf. decode c buf \<noteq> Panic)"

lemma closed_if_codec: "rlp_codec c valid \<Longrightarrow> closed_codec c valid"
  unfolding closed_codec_def
  by (metis rlp_codec.decode_encode_all rlp_codec.length_encode rlp_codec.decode_no_panic)

lemma closed_weaken:
  "closed_codec c valid \<Longrightarrow> (\<And>x. valid' x \<Longrightarrow> valid x) \<Longrightarrow> closed_codec c valid'"
  by (auto simp: closed_codec_def)

lemma closed_seq:
  assumes "rlp_codec c valid" and "closed_codec d valid'"
  shows "closed_codec (seq_codec c d) (\<lambda>(x, y). valid x \<and> valid' y)"
  using assms(2) rlp_codec.decode_encode [OF assms(1)] rlp_codec.length_encode [OF assms(1)]
    rlp_codec.decode_no_panic [OF assms(1)]
  by (auto simp: closed_codec_def seq_codec_def bind_result_cases split: prod.splits)

lemma closed_trailing:
  assumes "rlp_codec c valid" and "\<And>x. valid x \<Longrightarrow> encode c x \<noteq> []"
  shows "closed_codec (trailing_codec c) (\<lambda>x. case x of None \<Rightarrow> True | Some a \<Rightarrow> valid a)"
  using assms(2) rlp_codec.decode_encode_all [OF assms(1)] rlp_codec.length_encode [OF assms(1)]
    rlp_codec.decode_no_panic [OF assms(1)]
  by (auto simp: closed_codec_def trailing_codec_def bind_result_cases split: option.splits prod.splits)

lemma decode_many_encoded:
  assumes "rlp_codec c valid" and "\<And>x. x \<in> set xs \<Longrightarrow> valid x \<and> encode c x \<noteq> []"
    and "length (concat (map (encode c) xs)) \<le> fuel"
  shows "decode_many fuel (decode c) (concat (map (encode c) xs)) = Ok (xs, [])"
  using assms(2,3)
proof (induction xs arbitrary: fuel)
  case Nil
  then show ?case by (cases fuel) simp_all
next
  case (Cons x xs)
  then obtain k where fuel: "fuel = Suc k" by (cases fuel) auto
  have "1 \<le> length (encode c x)" using Cons.prems(1)[of x] by (cases "encode c x") simp_all
  then have "length (concat (map (encode c) xs)) \<le> k"
    using Cons.prems(2) fuel by simp
  then have "decode_many k (decode c) (concat (map (encode c) xs)) = Ok (xs, [])"
    using Cons.prems(1) by (intro Cons.IH) simp_all
  then show ?case
    using Cons.prems(1)[of x] rlp_codec.decode_encode [OF assms(1), of x] fuel by simp
qed

lemma decode_many_no_panic: "(\<And>buf. d buf \<noteq> Panic) \<Longrightarrow> decode_many fuel d buf \<noteq> Panic"
  by (induction fuel d buf rule: decode_many.induct) (auto simp: bind_result_cases split: prod.splits)

lemma closed_many:
  assumes "rlp_codec c valid" and "\<And>x. valid x \<Longrightarrow> encode c x \<noteq> []"
  shows "closed_codec (many_codec c) (\<lambda>xs. \<forall>x \<in> set xs. valid x)"
proof -
  have "sum_list (map (encoded_length c) xs) = length (concat (map (encode c) xs))"
    if "\<forall>x \<in> set xs. valid x" for xs
    using that by (induction xs) (simp_all add: rlp_codec.length_encode [OF assms(1)])
  then show ?thesis
    using assms decode_many_encoded [OF assms(1)] rlp_codec.decode_no_panic [OF assms(1)]
    by (auto simp: closed_codec_def many_codec_def decode_many_no_panic)
qed

lemma list_codec_ok:
  assumes "closed_codec c valid"
  shows "rlp_codec (list_codec c) (\<lambda>x. valid x \<and> length (encode c x) < 2 ^ 64)"
proof
  fix x rest
  assume x: "valid x \<and> length (encode c x) < 2 ^ 64"
  then have "item_decode (item_head 192 (length (encode c x)) @ (encode c x @ rest)) =
      Ok (True, length (encode c x), encode c x @ rest)"
    by (intro item_decode_list) simp_all
  with x assms show "decode (list_codec c) (encode (list_codec c) x @ rest) = Ok (x, rest)"
    by (simp add: list_codec_def closed_codec_def)
  from x assms show "encoded_length (list_codec c) x = length (encode (list_codec c) x)"
    by (simp add: list_codec_def closed_codec_def)
next
  show "decode (list_codec c) buf \<noteq> Panic" for buf
    using assms
    by (auto simp: list_codec_def closed_codec_def bind_result_cases item_decode_no_panic
        split: prod.splits if_splits)
qed

end
