(* ===== verification/Wire.thy ===== *)
theory Wire
  imports Primitives RlpReference
begin

text \<open>
  The wire format of the flashblocks protocol: the hand-written \<open>Encodable\<close> and \<open>Decodable\<close> of
  \<open>FlashblocksPayloadV1\<close> (\<^verbatim>\<open>src/flashblocks/primitives.rs\<close>) and of \<open>FlashblocksP2PMsg\<close>
  (\<^verbatim>\<open>src/flashblocks/p2p.rs\<close>). The codecs of the fields (alloy's, and those its derive macro
  generates for the two payload structs) and the JSON of the metadata are parameters.
\<close>

section \<open>The payload\<close>

record ('m, 'w, 'b) payload_codecs =
  pc_header :: header_codec
  pc_payload_id :: "payload_id codec"
  pc_index :: "u64 codec"
  pc_diff :: "('w, 'b) ExecutionPayloadFlashblockDeltaV1 codec"
  pc_bytes :: "bytes codec"
  pc_base :: "ExecutionPayloadBaseV1 codec"
  pc_to_json :: "'m \<Rightarrow> bytes"
  pc_from_json :: "bytes \<Rightarrow> 'm option"

definition RLP_EMPTY_LEN :: nat where
  "RLP_EMPTY_LEN = 1"

definition compute_payload_length ::
  "('m, 'w, 'b) payload_codecs \<Rightarrow> ('m, 'w, 'b) FlashblocksPayloadV1 \<Rightarrow> nat \<times> bytes" where
  "compute_payload_length cs p =
     (let json_bytes = pc_to_json cs (p_metadata p);
          base_len = unwrap_or (map_option (encoded_length (pc_base cs)) (p_base p)) RLP_EMPTY_LEN
      in (encoded_length (pc_payload_id cs) (p_payload_id p)
          + encoded_length (pc_index cs) (p_index p)
          + encoded_length (pc_diff cs) (p_diff p)
          + encoded_length (pc_bytes cs) json_bytes
          + base_len, json_bytes))"

definition payload_encode ::
  "('m, 'w, 'b) payload_codecs \<Rightarrow> ('m, 'w, 'b) FlashblocksPayloadV1 \<Rightarrow> bytes" where
  "payload_encode cs p =
     (let (payload_len, json_bytes) = compute_payload_length cs p in
      header_encode (pc_header cs) payload_len
      @ encode (pc_payload_id cs) (p_payload_id p)
      @ encode (pc_index cs) (p_index p)
      @ encode (pc_diff cs) (p_diff p)
      @ encode (pc_bytes cs) json_bytes
      @ (case p_base p of Some base \<Rightarrow> encode (pc_base cs) base | None \<Rightarrow> [0x80]))"

definition payload_length ::
  "('m, 'w, 'b) payload_codecs \<Rightarrow> ('m, 'w, 'b) FlashblocksPayloadV1 \<Rightarrow> nat" where
  "payload_length cs p =
     (let (payload_len, _) = compute_payload_length cs p in
      header_length (pc_header cs) payload_len + payload_len)"

text \<open>
  \<open>decode\<close>. The two slices \<open>&buf[..n]\<close> and \<open>&buf[n..]\<close> panic when the buffer is shorter than the
  length the header announces. The base is read as absent when the next byte of the list is
  \<open>0x80\<close>, without consuming it, and bytes left in the list are not looked at.
\<close>

definition payload_fields_decode ::
  "('m, 'w, 'b) payload_codecs \<Rightarrow> bytes \<Rightarrow> (rlp_error, ('m, 'w, 'b) FlashblocksPayloadV1) result"
where
  "payload_fields_decode cs body =
     bind_result (decode (pc_payload_id cs) body) (\<lambda>(pid, body).
     bind_result (decode (pc_index cs) body) (\<lambda>(index, body).
     bind_result (decode (pc_diff cs) body) (\<lambda>(diff, body).
     bind_result (decode (pc_bytes cs) body) (\<lambda>(meta_bytes, body).
     bind_result (ok_or (pc_from_json cs meta_bytes) (CustomError ''bad JSON'')) (\<lambda>meta.
     bind_result
       (if first body = Some 0x80 then Ok None
        else bind_result (decode (pc_base cs) body) (\<lambda>(base, _). Ok (Some base))) (\<lambda>base.
     Ok \<lparr>p_payload_id = pid, p_index = index, p_diff = diff, p_metadata = meta,
         p_base = base\<rparr>))))))"

definition payload_decode ::
  "('m, 'w, 'b) payload_codecs \<Rightarrow> ('m, 'w, 'b) FlashblocksPayloadV1 decoder" where
  "payload_decode cs buf =
     bind_result (header_decode (pc_header cs) buf) (\<lambda>(is_list, n, buf).
     if \<not> is_list then Err UnexpectedString
     else if length buf < n then Panic
     else bind_result (payload_fields_decode cs (take n buf)) (\<lambda>p. Ok (p, drop n buf)))"

definition payload_codec ::
  "('m, 'w, 'b) payload_codecs \<Rightarrow> ('m, 'w, 'b) FlashblocksPayloadV1 codec" where
  "payload_codec cs =
     \<lparr>encode = payload_encode cs, encoded_length = payload_length cs, decode = payload_decode cs\<rparr>"

section \<open>The message\<close>

text \<open>\<open>FlashblocksP2PMsg\<close> has one variant; its tag is the byte 0, written and read as a \<open>u8\<close>.\<close>

datatype ('m, 'w, 'b) FlashblocksP2PMsg = FlashblocksPayloadMsg "('m, 'w, 'b) FlashblocksPayloadV1"

fun msg_encode :: "u8 codec \<Rightarrow> ('m, 'w, 'b) payload_codecs \<Rightarrow> ('m, 'w, 'b) FlashblocksP2PMsg \<Rightarrow> bytes"
where
  "msg_encode u8c cs (FlashblocksPayloadMsg payload) = encode u8c 0 @ payload_encode cs payload"

fun msg_length :: "('m, 'w, 'b) payload_codecs \<Rightarrow> ('m, 'w, 'b) FlashblocksP2PMsg \<Rightarrow> nat" where
  "msg_length cs (FlashblocksPayloadMsg payload) = 1 + payload_length cs payload"

definition msg_decode ::
  "u8 codec \<Rightarrow> ('m, 'w, 'b) payload_codecs \<Rightarrow> ('m, 'w, 'b) FlashblocksP2PMsg decoder" where
  "msg_decode u8c cs buf =
     bind_result (decode u8c buf) (\<lambda>(tag, buf).
     if tag = 0 then bind_result (payload_decode cs buf) (\<lambda>(payload, rest).
       Ok (FlashblocksPayloadMsg payload, rest))
     else Err (CustomError ''unknown tag''))"

definition msg_codec ::
  "u8 codec \<Rightarrow> ('m, 'w, 'b) payload_codecs \<Rightarrow> ('m, 'w, 'b) FlashblocksP2PMsg codec" where
  "msg_codec u8c cs =
     \<lparr>encode = msg_encode u8c cs, encoded_length = msg_length cs, decode = msg_decode u8c cs\<rparr>"

section \<open>What the codecs of the fields promise\<close>

locale payload_fields =
  header: rlp_header "pc_header cs"
  + id: rlp_codec "pc_payload_id cs" "\<lambda>_. True"
  + index: rlp_codec "pc_index cs" "\<lambda>_. True"
  + diff: rlp_codec "pc_diff cs" diff_valid
  + bytes: rlp_codec "pc_bytes cs" "\<lambda>bs. length bs < 2 ^ 64"
  + base: rlp_codec "pc_base cs" base_valid
  for cs :: "('m, 'w, 'b) payload_codecs"
    and diff_valid :: "('w, 'b) ExecutionPayloadFlashblockDeltaV1 \<Rightarrow> bool"
    and base_valid :: "ExecutionPayloadBaseV1 \<Rightarrow> bool" +
  assumes json_roundtrip: "pc_from_json cs (pc_to_json cs m) = Some m"
    and base_is_list: "base_valid b \<Longrightarrow> first (encode (pc_base cs) b @ rest) \<noteq> Some 0x80"

locale message_fields =
  payload_fields cs diff_valid base_valid + tag: rlp_codec u8c "\<lambda>_. True"
  for cs :: "('m, 'w, 'b) payload_codecs" and diff_valid base_valid and u8c :: "u8 codec" +
  assumes tag_one_byte: "length (encode u8c 0) = 1"

text \<open>
  The payloads whose encoding fits the machine's address space: those with valid parts, whose
  JSON and whose whole list payload are shorter than \<open>2 ^ 64\<close> bytes.
\<close>

definition payload_valid ::
  "(('w, 'b) ExecutionPayloadFlashblockDeltaV1 \<Rightarrow> bool) \<Rightarrow> (ExecutionPayloadBaseV1 \<Rightarrow> bool) \<Rightarrow>
     ('m, 'w, 'b) payload_codecs \<Rightarrow> ('m, 'w, 'b) FlashblocksPayloadV1 \<Rightarrow> bool" where
  "payload_valid diff_valid base_valid cs p \<longleftrightarrow>
     diff_valid (p_diff p) \<and> length (pc_to_json cs (p_metadata p)) < 2 ^ 64
     \<and> (case p_base p of None \<Rightarrow> True | Some b \<Rightarrow> base_valid b)
     \<and> fst (compute_payload_length cs p) < 2 ^ 64"

fun msg_valid ::
  "(('w, 'b) ExecutionPayloadFlashblockDeltaV1 \<Rightarrow> bool) \<Rightarrow> (ExecutionPayloadBaseV1 \<Rightarrow> bool) \<Rightarrow>
     ('m, 'w, 'b) payload_codecs \<Rightarrow> ('m, 'w, 'b) FlashblocksP2PMsg \<Rightarrow> bool" where
  "msg_valid diff_valid base_valid cs (FlashblocksPayloadMsg p) = payload_valid diff_valid base_valid cs p"

section \<open>Reading back what was written\<close>

text \<open>The encoding without its header.\<close>

definition payload_body ::
  "('m, 'w, 'b) payload_codecs \<Rightarrow> ('m, 'w, 'b) FlashblocksPayloadV1 \<Rightarrow> bytes" where
  "payload_body cs p =
     encode (pc_payload_id cs) (p_payload_id p) @ encode (pc_index cs) (p_index p)
     @ encode (pc_diff cs) (p_diff p) @ encode (pc_bytes cs) (pc_to_json cs (p_metadata p))
     @ (case p_base p of Some base \<Rightarrow> encode (pc_base cs) base | None \<Rightarrow> [0x80])"

lemma payload_encode_eq:
  "payload_encode cs p =
     header_encode (pc_header cs) (fst (compute_payload_length cs p)) @ payload_body cs p"
  by (simp add: payload_encode_def payload_body_def compute_payload_length_def Let_def)

lemma payload_length_eq:
  "payload_length cs p =
     header_length (pc_header cs) (fst (compute_payload_length cs p))
     + fst (compute_payload_length cs p)"
  by (simp add: payload_length_def case_prod_unfold Let_def)

context payload_fields
begin

abbreviation "valid \<equiv> payload_valid diff_valid base_valid cs"

lemma length_body:
  assumes "valid p"
  shows "length (payload_body cs p) = fst (compute_payload_length cs p)"
proof -
  have "unwrap_or (map_option (encoded_length (pc_base cs)) (p_base p)) RLP_EMPTY_LEN
      = length (case p_base p of Some base \<Rightarrow> encode (pc_base cs) base | None \<Rightarrow> [0x80])"
    using assms base.length_encode
    by (auto simp: payload_valid_def RLP_EMPTY_LEN_def split: option.splits)
  then show ?thesis
    using assms
    by (simp add: payload_body_def compute_payload_length_def payload_valid_def Let_def
        id.length_encode index.length_encode diff.length_encode bytes.length_encode)
qed

lemma decode_body:
  assumes "valid p"
  shows "payload_fields_decode cs (payload_body cs p @ junk) = Ok p"
proof -
  let ?base = "case p_base p of Some base \<Rightarrow> encode (pc_base cs) base | None \<Rightarrow> [0x80]"
  have "(if first (?base @ junk) = Some 0x80 then Ok None
      else bind_result (decode (pc_base cs) (?base @ junk)) (\<lambda>(base, _). Ok (Some base)))
      = Ok (p_base p)"
  proof (cases "p_base p")
    case (Some b)
    with assms have "base_valid b" by (simp add: payload_valid_def)
    with Some show ?thesis
      using base_is_list [of b junk] base.decode_encode [of b junk] by simp
  qed simp
  then show ?thesis
    using assms
    by (simp add: payload_fields_decode_def payload_body_def payload_valid_def id.decode_encode
        index.decode_encode diff.decode_encode bytes.decode_encode json_roundtrip)
qed

text \<open>Bytes left in the list after the fields do not disturb the decoder.\<close>

lemma decode_with_junk:
  assumes "valid p" and "n = length (payload_body cs p) + length junk" and "n < 2 ^ 64"
  shows "payload_decode cs (header_encode (pc_header cs) n @ payload_body cs p @ junk @ rest)
    = Ok (p, rest)"
  using assms header.header_decode_encode [of n "payload_body cs p @ junk @ rest"]
    decode_body [OF assms(1), of junk]
  by (simp add: payload_decode_def)

lemma fields_decode_no_panic: "payload_fields_decode cs body \<noteq> Panic"
  using id.decode_no_panic index.decode_no_panic diff.decode_no_panic bytes.decode_no_panic
    base.decode_no_panic
  by (auto simp: payload_fields_decode_def bind_result_cases ok_or_def split: prod.splits option.splits)

lemma payload_decode_no_panic: "payload_decode cs buf \<noteq> Panic"
  using header.header_no_panic fields_decode_no_panic
  by (auto simp: payload_decode_def bind_result_cases not_less dest: header.header_fits
      split: prod.splits if_splits)

lemma decode_truncated:
  assumes "valid p" and "k < length (payload_encode cs p)"
  shows "\<exists>e. payload_decode cs (take k (payload_encode cs p)) = Err e"
proof -
  have "fst (compute_payload_length cs p) < 2 ^ 64" using assms(1) by (simp add: payload_valid_def)
  from header.header_truncated [OF this length_body [OF assms(1)], of k] assms(2)
  show ?thesis
    by (auto simp: payload_encode_eq length_body [OF assms(1)] payload_decode_def)
qed

sublocale payload: rlp_codec "payload_codec cs" valid
proof
  fix p rest
  assume p: "valid p"
  then have bound: "fst (compute_payload_length cs p) < 2 ^ 64" by (simp add: payload_valid_def)
  show "decode (payload_codec cs) (encode (payload_codec cs) p @ rest) = Ok (p, rest)"
    using decode_with_junk [of p "length (payload_body cs p)" "[]" rest] p bound
    by (simp add: payload_codec_def payload_encode_eq length_body)
  show "encoded_length (payload_codec cs) p = length (encode (payload_codec cs) p)"
    using header.length_header [OF bound] length_body [OF p]
    by (simp add: payload_codec_def payload_encode_eq payload_length_eq)
next
  show "decode (payload_codec cs) buf \<noteq> Panic" for buf
    by (simp add: payload_codec_def payload_decode_no_panic)
qed

end

context message_fields
begin

lemma msg_roundtrip:
  assumes "msg_valid diff_valid base_valid cs m"
  shows "msg_decode u8c cs (msg_encode u8c cs m @ rest) = Ok (m, rest)"
    and "msg_length cs m = length (msg_encode u8c cs m)"
proof -
  obtain p where p: "m = FlashblocksPayloadMsg p" by (cases m)
  with assms have valid: "valid p" by simp
  show "msg_decode u8c cs (msg_encode u8c cs m @ rest) = Ok (m, rest)"
    using payload.decode_encode [OF valid, of rest] tag.decode_encode [of 0]
    by (simp add: p msg_decode_def payload_codec_def)
  show "msg_length cs m = length (msg_encode u8c cs m)"
    using payload.length_encode [OF valid] tag_one_byte by (simp add: p payload_codec_def)
qed

lemma msg_decode_no_panic: "msg_decode u8c cs buf \<noteq> Panic"
  using tag.decode_no_panic payload_decode_no_panic
  by (auto simp: msg_decode_def bind_result_cases split: prod.splits)

sublocale message: rlp_codec "msg_codec u8c cs" "msg_valid diff_valid base_valid cs"
  by unfold_locales (simp_all add: msg_codec_def msg_roundtrip msg_decode_no_panic)

end

section \<open>The fields' codecs by the RLP specification\<close>

text \<open>
  Codecs for the two payload structs as the derive macro lays them out (a list of the fields in
  order; the access list is a trailing optional field), given those of a withdrawal and of an
  access list.
\<close>

definition base_codec :: "ExecutionPayloadBaseV1 codec" where
  "base_codec = convert_codec
     (\<lambda>b. (b_parent_beacon_block_root b, b_parent_hash b, b_fee_recipient b, b_prev_randao b,
           b_block_number b, b_gas_limit b, b_timestamp b, b_extra_data b, b_base_fee_per_gas b))
     (\<lambda>(r, h, f, m, n, g, t, x, e). Ok \<lparr>b_parent_beacon_block_root = r, b_parent_hash = h,
        b_fee_recipient = f, b_prev_randao = m, b_block_number = n, b_gas_limit = g,
        b_timestamp = t, b_extra_data = x, b_base_fee_per_gas = e\<rparr>)
     (list_codec (seq_codec (fixed_codec 32) (seq_codec (fixed_codec 32) (seq_codec (fixed_codec 20)
       (seq_codec (fixed_codec 32) (seq_codec number_codec (seq_codec number_codec
       (seq_codec number_codec (seq_codec string_codec number_codec)))))))))"

definition delta_codec ::
  "'w codec \<Rightarrow> 'b codec \<Rightarrow> ('w, 'b) ExecutionPayloadFlashblockDeltaV1 codec" where
  "delta_codec wc bc = convert_codec
     (\<lambda>d. (d_state_root d, d_receipts_root d, d_logs_bloom d, d_gas_used d, d_block_hash d,
           d_transactions d, d_withdrawals d, d_withdrawals_root d, d_block_access_list d))
     (\<lambda>(s, r, l, g, h, t, w, wr, b). Ok \<lparr>d_state_root = s, d_receipts_root = r,
        d_logs_bloom = l, d_gas_used = g, d_block_hash = h, d_transactions = t,
        d_withdrawals = w, d_withdrawals_root = wr, d_block_access_list = b\<rparr>)
     (list_codec (seq_codec (fixed_codec 32) (seq_codec (fixed_codec 32) (seq_codec (fixed_codec 256)
       (seq_codec number_codec (seq_codec (fixed_codec 32)
       (seq_codec (list_codec (many_codec string_codec)) (seq_codec (list_codec (many_codec wc))
       (seq_codec (fixed_codec 32) (trailing_codec bc))))))))))"

definition base_addressable :: "ExecutionPayloadBaseV1 \<Rightarrow> bool" where
  "base_addressable b \<longleftrightarrow>
     length (b_extra_data b) < 2 ^ 64 \<and> length (encode base_codec b) < 2 ^ 64"

definition delta_addressable ::
  "('w \<Rightarrow> bool) \<Rightarrow> ('b \<Rightarrow> bool) \<Rightarrow> 'w codec \<Rightarrow> 'b codec \<Rightarrow>
     ('w, 'b) ExecutionPayloadFlashblockDeltaV1 \<Rightarrow> bool" where
  "delta_addressable wv bv wc bc d \<longleftrightarrow>
     (\<forall>t \<in> set (d_transactions d). length t < 2 ^ 64) \<and> (\<forall>w \<in> set (d_withdrawals d). wv w)
     \<and> (case d_block_access_list d of None \<Rightarrow> True | Some b \<Rightarrow> bv b)
     \<and> length (encode (list_codec (many_codec string_codec)) (d_transactions d)) < 2 ^ 64
     \<and> length (encode (list_codec (many_codec wc)) (d_withdrawals d)) < 2 ^ 64
     \<and> length (encode (delta_codec wc bc) d) < 2 ^ 64"

lemma length_encode_list_codec:
  "length (encode c x) \<le> length (encode (list_codec c) x)"
  by (simp add: list_codec_def)

lemma encode_list_codec_first:
  assumes "length (encode (list_codec c) x) < 2 ^ 64"
  shows "first (encode (list_codec c) x @ rest) \<noteq> Some 128"
  using nat_bytes_u64(1,2) [of "length (encode c x)"]
    le_less_trans [OF length_encode_list_codec assms]
  by (auto simp: list_codec_def item_head_def Let_def word_unat_eq_iff)

lemma encode_string_codec_nonempty: "encode string_codec bs \<noteq> []"
  by (auto simp: string_codec_def string_encode_def item_head_def Let_def)

lemma encode_convert_codec [simp]: "encode (convert_codec f g c) x = encode c (f x)"
  by (simp add: convert_codec_def)

lemmas field_codecs_ok =
  fixed_codec_ok [where ?'a = 256 and k = 32, simplified]
  fixed_codec_ok [where ?'a = 160 and k = 20, simplified]
  fixed_codec_ok [where ?'a = 2048 and k = 256, simplified]
  fixed_codec_ok [where ?'a = 64 and k = 8, simplified]
  number_codec_ok [where ?'a = 64 and k = 8, simplified]
  number_codec_ok [where ?'a = 256 and k = 32, simplified]
  number_codec_ok [where ?'a = 8 and k = 1, simplified]
  string_codec_ok

lemma base_codec_ok: "rlp_codec base_codec base_addressable"
  unfolding base_codec_def
proof (rule convert_codec_ok [OF list_codec_ok])
  show "closed_codec (seq_codec (fixed_codec 32 :: b256 codec) (seq_codec (fixed_codec 32 :: b256 codec)
      (seq_codec (fixed_codec 20 :: address codec) (seq_codec (fixed_codec 32 :: b256 codec)
      (seq_codec (number_codec :: u64 codec) (seq_codec (number_codec :: u64 codec)
      (seq_codec (number_codec :: u64 codec) (seq_codec string_codec (number_codec :: u256 codec))))))))) 
    (\<lambda>(_, _, _, _, _, _, _, x, _). length x < 2 ^ 64)"
  proof -
    note closed = closed_seq [OF field_codecs_ok(1) closed_seq [OF field_codecs_ok(1)
      closed_seq [OF field_codecs_ok(2) closed_seq [OF field_codecs_ok(1)
      closed_seq [OF field_codecs_ok(5) closed_seq [OF field_codecs_ok(5)
      closed_seq [OF field_codecs_ok(5) closed_seq [OF field_codecs_ok(8)
      closed_if_codec [OF field_codecs_ok(6)]]]]]]]]]
    show ?thesis by (rule closed_weaken [OF closed]) auto
  qed
qed (auto simp: base_addressable_def base_codec_def
    intro: le_less_trans [OF length_encode_list_codec])

lemma delta_codec_ok:
  assumes w: "rlp_codec wc wv" "\<And>x. wv x \<Longrightarrow> encode wc x \<noteq> []"
    and b: "rlp_codec bc bv" "\<And>x. bv x \<Longrightarrow> encode bc x \<noteq> []"
  shows "rlp_codec (delta_codec wc bc) (delta_addressable wv bv wc bc)"
  unfolding delta_codec_def
proof (rule convert_codec_ok [OF list_codec_ok])
  note txs = list_codec_ok [OF closed_many [OF string_codec_ok encode_string_codec_nonempty]]
  note wds = list_codec_ok [OF closed_many [OF w]]
  show "closed_codec (seq_codec (fixed_codec 32 :: b256 codec) (seq_codec (fixed_codec 32 :: b256 codec)
      (seq_codec (fixed_codec 256 :: bloom codec) (seq_codec (number_codec :: u64 codec)
      (seq_codec (fixed_codec 32 :: b256 codec) (seq_codec (list_codec (many_codec string_codec))
      (seq_codec (list_codec (many_codec wc)) (seq_codec (fixed_codec 32 :: b256 codec)
      (trailing_codec bc)))))))))
    (\<lambda>(_, _, _, _, _, t, ws, _, al). (\<forall>x \<in> set t. length x < 2 ^ 64) \<and> (\<forall>x \<in> set ws. wv x)
      \<and> (case al of None \<Rightarrow> True | Some b \<Rightarrow> bv b)
      \<and> length (encode (many_codec string_codec) t) < 2 ^ 64
      \<and> length (encode (many_codec wc) ws) < 2 ^ 64)"
  proof -
    note closed = closed_seq [OF field_codecs_ok(1) closed_seq [OF field_codecs_ok(1)
      closed_seq [OF field_codecs_ok(3) closed_seq [OF field_codecs_ok(5)
      closed_seq [OF field_codecs_ok(1) closed_seq [OF txs
      closed_seq [OF wds closed_seq [OF field_codecs_ok(1) closed_trailing [OF b]]]]]]]]]
    show ?thesis by (rule closed_weaken [OF closed]) auto
  qed
qed (auto simp: delta_addressable_def delta_codec_def split: option.splits
    intro: le_less_trans [OF length_encode_list_codec])

text \<open>
  A full set of field codecs, over withdrawals and access lists that are numbers and byte strings.
  The metadata is written as fixed-width text: any injective printer can stand for the JSON.
\<close>

definition metadata_text :: "FlashblockMetadata \<Rightarrow> bytes" where
  "metadata_text m = fixed_bytes 32 (unat (m_fees m))
     @ (case m_flashblock_timestamp m of None \<Rightarrow> [] | Some t \<Rightarrow> fixed_bytes 8 (unat t))"

definition metadata_of_text :: "bytes \<Rightarrow> FlashblockMetadata option" where
  "metadata_of_text bs =
     (if length bs = 32 then
        Some \<lparr>m_fees = of_nat (bytes_nat bs), m_flashblock_timestamp = None\<rparr>
      else if length bs = 40 then
        Some \<lparr>m_fees = of_nat (bytes_nat (take 32 bs)),
              m_flashblock_timestamp = Some (of_nat (bytes_nat (drop 32 bs)))\<rparr>
      else None)"

definition spec_codecs :: "(FlashblockMetadata, u64, bytes) payload_codecs" where
  "spec_codecs = \<lparr>pc_header = list_header, pc_payload_id = fixed_codec 8, pc_index = number_codec,
     pc_diff = delta_codec number_codec string_codec, pc_bytes = string_codec,
     pc_base = base_codec, pc_to_json = metadata_text, pc_from_json = metadata_of_text\<rparr>"

abbreviation spec_delta_valid :: "(u64, bytes) ExecutionPayloadFlashblockDeltaV1 \<Rightarrow> bool" where
  "spec_delta_valid \<equiv>
     delta_addressable (\<lambda>_. True) (\<lambda>b. length b < 2 ^ 64) number_codec string_codec"

lemma encode_number_codec_nonempty: "encode number_codec w \<noteq> []"
  by (simp add: number_codec_def encode_string_codec_nonempty)

lemma metadata_roundtrip: "metadata_of_text (metadata_text m) = Some m"
proof -
  have "unat (m_fees m) < 256 ^ 32"
    using unsigned_less [of "m_fees m", where ?'a = nat] by simp
  moreover have "unat t < 256 ^ 8" for t :: i64
    using unat_u64_less [of t] by simp
  ultimately show ?thesis
    by (cases m; cases "m_flashblock_timestamp m")
      (simp_all add: metadata_of_text_def metadata_text_def bytes_nat_fixed_bytes)
qed

interpretation spec: message_fields spec_codecs spec_delta_valid base_addressable number_codec
proof (intro message_fields.intro payload_fields.intro payload_fields_axioms.intro
    message_fields_axioms.intro; (unfold spec_codecs_def payload_codecs.simps)?)
  show "rlp_header list_header" by (rule list_header.rlp_header_axioms)
  show "rlp_codec (fixed_codec 8 :: payload_id codec) (\<lambda>_. True)" by (rule field_codecs_ok)
  show "rlp_codec (number_codec :: u64 codec) (\<lambda>_. True)" by (rule field_codecs_ok)
  show "rlp_codec (number_codec :: u8 codec) (\<lambda>_. True)" by (rule field_codecs_ok)
  show "rlp_codec (delta_codec (number_codec :: u64 codec) string_codec) spec_delta_valid"
    using delta_codec_ok [OF field_codecs_ok(5) encode_number_codec_nonempty string_codec_ok
        encode_string_codec_nonempty] .
  show "rlp_codec string_codec (\<lambda>bs. length bs < 2 ^ 64)" by (rule string_codec_ok)
  show "rlp_codec base_codec base_addressable" by (rule base_codec_ok)
  show "metadata_of_text (metadata_text m) = Some m" for m by (rule metadata_roundtrip)
  show "first (encode base_codec b @ rest) \<noteq> Some 128" if "base_addressable b" for b rest
    using that unfolding base_addressable_def base_codec_def encode_convert_codec
    by (elim conjE) (rule encode_list_codec_first)
  show "length (encode (number_codec :: u8 codec) 0) = 1"
    by (simp add: number_codec_def string_codec_def string_encode_def item_head_def)
qed

section \<open>Properties\<close>

text \<open>An example payload, its index and base given.\<close>

definition wire_example ::
  "u64 \<Rightarrow> ExecutionPayloadBaseV1 option \<Rightarrow> (FlashblockMetadata, u64, bytes) FlashblocksPayloadV1"
where
  "wire_example i base = \<lparr>p_payload_id = 5, p_index = i,
     p_diff = default_delta\<lparr>d_gas_used := 21000, d_transactions := [[0xde, 0xad, 0xbe, 0xef]],
       d_withdrawals := [7]\<rparr>,
     p_metadata = default_metadata\<lparr>m_fees := 9\<rparr>, p_base = base\<rparr>"

text \<open>Bounds on the sizes of the encodings.\<close>

lemma length_item_head: "n < 2 ^ 64 \<Longrightarrow> length (item_head offset n) \<le> 9"
  using length_nat_bytes [of n 8] by (simp add: item_head_def Let_def)

lemma length_encode_string: "length bs < 2 ^ 64 \<Longrightarrow> length (encode string_codec bs) \<le> 9 + length bs"
  using length_item_head [of "length bs" 128] by (simp add: string_codec_def string_encode_def)

lemma length_encode_fixed: "k < 2 ^ 64 \<Longrightarrow> length (encode (fixed_codec k) w) \<le> 9 + k"
  using length_encode_string [of "fixed_bytes k (unat w)"] by (simp add: fixed_codec_def)

lemma length_encode_u64: "length (encode (number_codec :: u64 codec) w) \<le> 17"
  using length_encode_string [of "nat_bytes (unat w)"] length_nat_bytes [of "unat w" 8]
    unat_u64_less [of w]
  by (simp add: number_codec_def)

lemma length_encode_u256: "length (encode (number_codec :: u256 codec) w) \<le> 41"
  using length_encode_string [of "nat_bytes (unat w)"] length_nat_bytes [of "unat w" 32]
    unsigned_less [of w, where ?'a = nat]
  by (simp add: number_codec_def)

lemma length_encode_list:
  "length (encode c x) < 2 ^ 64 \<Longrightarrow> length (encode (list_codec c) x) \<le> 9 + length (encode c x)"
  using length_item_head [of "length (encode c x)" 192] by (simp add: list_codec_def)

lemma encode_seq [simp]: "encode (seq_codec c d) (x, y) = encode c x @ encode d y"
  by (simp add: seq_codec_def)

lemma encode_many [simp]: "encode (many_codec c) xs = concat (map (encode c) xs)"
  by (simp add: many_codec_def)

lemma encode_trailing [simp]:
  "encode (trailing_codec c) x = (case x of None \<Rightarrow> [] | Some a \<Rightarrow> encode c a)"
  by (simp add: trailing_codec_def)

lemma base_encoding_small:
  assumes "length (b_extra_data b) < 1000"
  shows "length (encode base_codec b) < 2000"
proof -
  have fields: "length (encode (fixed_codec 32) (w :: b256)) \<le> 41"
    "length (encode (fixed_codec 20) (a :: address)) \<le> 29"
    "length (encode string_codec (b_extra_data b)) \<le> 9 + length (b_extra_data b)" for w a
    using length_encode_fixed [of 32 w] length_encode_fixed [of 20 a]
      length_encode_string [of "b_extra_data b"] assms by simp_all
  show ?thesis
    unfolding base_codec_def encode_convert_codec
    by (rule le_less_trans [OF length_encode_list])
      (use fields(1) [of "b_parent_beacon_block_root b"] fields(1) [of "b_parent_hash b"]
        fields(1) [of "b_prev_randao b"] fields(2) [of "b_fee_recipient b"] fields(3) assms
        length_encode_u64 [of "b_block_number b"] length_encode_u64 [of "b_gas_limit b"]
        length_encode_u64 [of "b_timestamp b"] length_encode_u256 [of "b_base_fee_per_gas b"]
       in simp_all)
qed

lemma wire_example_delta_small:
  "length (encode (list_codec (many_codec string_codec)) (d_transactions (p_diff (wire_example i base))))
     < 100"
  "length (encode (list_codec (many_codec number_codec)) (d_withdrawals (p_diff (wire_example i base))))
     < 100"
  "length (encode (delta_codec number_codec string_codec) (p_diff (wire_example i base))) < 2000"
proof -
  let ?d = "p_diff (wire_example i base)"
  have fields: "length (encode (fixed_codec 32) (w :: b256)) \<le> 41"
    "length (encode (fixed_codec 256) (l :: bloom)) \<le> 265" for w l
    using length_encode_fixed [of 32 w] length_encode_fixed [of 256 l] by simp_all
  show txs: "length (encode (list_codec (many_codec string_codec)) (d_transactions ?d)) < 100"
    by (rule le_less_trans [OF length_encode_list])
      (use length_encode_string [of "[0xde, 0xad, 0xbe, 0xef]"] in \<open>simp_all add: wire_example_def\<close>)
  show wds: "length (encode (list_codec (many_codec number_codec)) (d_withdrawals ?d)) < 100"
    by (rule le_less_trans [OF length_encode_list])
      (use length_encode_u64 [of 7] in \<open>simp_all add: wire_example_def\<close>)
  have "d_block_access_list ?d = None" by (simp add: wire_example_def default_delta_def)
  then show "length (encode (delta_codec number_codec string_codec) ?d) < 2000"
    unfolding delta_codec_def encode_convert_codec
    by (intro le_less_trans [OF length_encode_list])
      (use fields(1) [of "d_state_root ?d"] fields(1) [of "d_receipts_root ?d"]
        fields(2) [of "d_logs_bloom ?d"] fields(1) [of "d_block_hash ?d"] txs wds
        fields(1) [of "d_withdrawals_root ?d"] length_encode_u64 [of "d_gas_used ?d"]
       in simp_all)
qed

lemma wire_example_valid:
  assumes "base = None \<or> base = Some default_base"
  shows "payload_valid spec_delta_valid base_addressable spec_codecs (wire_example i base)"
    and "fst (compute_payload_length spec_codecs (wire_example i base)) < 5000"
proof -
  let ?p = "wire_example i base"
  have delta: "spec_delta_valid (p_diff ?p)"
    using wire_example_delta_small [of i base]
    by (simp add: delta_addressable_def) (simp add: wire_example_def default_delta_def)
  have base_ok: "base_addressable default_base" "length (encode base_codec default_base) < 2000"
    using base_encoding_small [of default_base] by (simp_all add: base_addressable_def default_base_def)
  have json: "length (metadata_text (p_metadata ?p)) = 32"
    by (simp add: metadata_text_def wire_example_def default_metadata_def)
  have "unwrap_or (map_option (encoded_length base_codec) (p_base ?p)) RLP_EMPTY_LEN < 2000"
    using assms base_ok rlp_codec.length_encode [OF base_codec_ok base_ok(1)]
    by (auto simp: RLP_EMPTY_LEN_def wire_example_def)
  moreover have "encoded_length (pc_diff spec_codecs) (p_diff ?p) < 2000"
    using spec.diff.length_encode [OF delta] wire_example_delta_small(3) [of i base]
    by (simp add: spec_codecs_def)
  moreover have "encoded_length (pc_payload_id spec_codecs) (p_payload_id ?p) \<le> 17"
    "encoded_length (pc_index spec_codecs) (p_index ?p) \<le> 17"
    "encoded_length (pc_bytes spec_codecs) (metadata_text (p_metadata ?p)) \<le> 41"
    using spec.id.length_encode spec.index.length_encode
      spec.bytes.length_encode [of "metadata_text (p_metadata ?p)"] json
      length_encode_fixed [of 8 "p_payload_id ?p"] length_encode_u64 [of "p_index ?p"]
      length_encode_string [of "metadata_text (p_metadata ?p)"]
    by (simp_all add: spec_codecs_def)
  ultimately show small: "fst (compute_payload_length spec_codecs ?p) < 5000"
    by (simp add: compute_payload_length_def Let_def spec_codecs_def)
  show "payload_valid spec_delta_valid base_addressable spec_codecs ?p"
    unfolding payload_valid_def
  proof (intro conjI)
    show "spec_delta_valid (p_diff ?p)" by (rule delta)
    show "length (pc_to_json spec_codecs (p_metadata ?p)) < 2 ^ 64"
      using json by (simp add: spec_codecs_def)
    show "case p_base ?p of None \<Rightarrow> True | Some b \<Rightarrow> base_addressable b"
      using assms base_ok(1) by (auto simp: wire_example_def)
    show "fst (compute_payload_length spec_codecs ?p) < 2 ^ 64" using small by simp
  qed
qed

text \<open>
  C21: Given field codecs that read back what they write, a protocol message is read back from its
  encoding, whatever bytes follow it, and \<open>length()\<close> is the number of bytes written.
\<close>

theorem message_roundtrip:
  assumes "message_fields cs diff_valid base_valid u8c"
    and "msg_valid diff_valid base_valid cs m"
  shows "msg_decode u8c cs (msg_encode u8c cs m @ rest) = Ok (m, rest)
    \<and> msg_length cs m = length (msg_encode u8c cs m)"
  using message_fields.msg_roundtrip [OF assms] by simp

theorem message_roundtrip_witness:
  "msg_decode number_codec spec_codecs
     (msg_encode number_codec spec_codecs (FlashblocksPayloadMsg (wire_example 0 (Some default_base)))
        @ [1, 2])
   = Ok (FlashblocksPayloadMsg (wire_example 0 (Some default_base)), [1, 2])"
proof -
  have "msg_valid spec_delta_valid base_addressable spec_codecs
      (FlashblocksPayloadMsg (wire_example 0 (Some default_base)))"
    unfolding msg_valid.simps by (rule wire_example_valid(1)) simp
  from message_roundtrip [OF spec.message_fields_axioms this] show ?thesis by blast
qed

text \<open>
  Whatever bytes a peer sends, the decoder of protocol messages returns a message or an
  error: no slice is out of range and nothing panics.
\<close>

theorem message_decode_total:
  assumes "message_fields cs diff_valid base_valid u8c"
  shows "(\<exists>m rest. msg_decode u8c cs buf = Ok (m, rest)) \<or> (\<exists>e. msg_decode u8c cs buf = Err e)"
  using message_fields.msg_decode_no_panic [OF assms, of buf]
  by (cases "msg_decode u8c cs buf") auto

theorem message_decode_total_witness:
  "(\<exists>m rest. msg_decode number_codec spec_codecs [0x80, 0xc1] = Ok (m, rest))
     \<or> (\<exists>e. msg_decode number_codec spec_codecs [0x80, 0xc1] = Err e)"
  by (rule message_decode_total [OF spec.message_fields_axioms])

text \<open>
  A truncated payload is rejected: every proper prefix of the encoding of a payload decodes
  to an error.
\<close>

theorem truncated_payload_rejected:
  assumes "payload_fields cs diff_valid base_valid"
    and "payload_valid diff_valid base_valid cs p" and "k < length (payload_encode cs p)"
  shows "\<exists>e. payload_decode cs (take k (payload_encode cs p)) = Err e"
  using assms by (rule payload_fields.decode_truncated)

theorem truncated_payload_rejected_witness:
  "\<exists>e. payload_decode spec_codecs (take 1 (payload_encode spec_codecs (wire_example 1 None))) = Err e"
proof (rule truncated_payload_rejected [OF spec.payload_fields_axioms])
  show "payload_valid spec_delta_valid base_addressable spec_codecs (wire_example 1 None)"
    by (rule wire_example_valid(1)) simp
  have header: "1 \<le> length (header_encode (pc_header spec_codecs) n)" for n
    by (simp add: spec_codecs_def list_header_def item_head_def Let_def)
  have "p_base (wire_example 1 None) = None" by (simp add: wire_example_def)
  then have body: "1 \<le> length (payload_body spec_codecs (wire_example 1 None))"
    by (simp add: payload_body_def)
  show "1 < length (payload_encode spec_codecs (wire_example 1 None))"
    unfolding payload_encode_eq length_append
    using header [of "fst (compute_payload_length spec_codecs (wire_example 1 None))"] body
    by linarith
qed

text \<open>
  Bytes after the fields inside the list are ignored: an encoding whose header announces a
  longer list, with any junk behind the fields, decodes to the same payload as the canonical
  encoding. The decoder is not strict about what follows the last field.
\<close>

theorem junk_in_list_accepted:
  assumes "payload_fields cs diff_valid base_valid"
    and "payload_valid diff_valid base_valid cs p"
    and "length (payload_body cs p) + length junk < 2 ^ 64"
  shows "payload_decode cs
      (header_encode (pc_header cs) (length (payload_body cs p) + length junk)
        @ payload_body cs p @ junk @ rest) = Ok (p, rest)"
  using payload_fields.decode_with_junk [OF assms(1,2) refl assms(3)] .

theorem junk_in_list_accepted_witness:
  "\<exists>n. payload_decode spec_codecs (header_encode list_header n
      @ payload_body spec_codecs (wire_example 1 None) @ [0xff, 0xff] @ []) = Ok (wire_example 1 None, [])"
proof -
  let ?p = "wire_example 1 None"
  have valid: "payload_valid spec_delta_valid base_addressable spec_codecs ?p"
    by (rule wire_example_valid(1)) simp
  have "length (payload_body spec_codecs ?p) + length [0xff, 0xff :: u8] < 2 ^ 64"
    using wire_example_valid(2) [of None 1] spec.length_body [OF valid] by simp
  from junk_in_list_accepted [OF spec.payload_fields_axioms valid this, of "[]"]
  show ?thesis by (auto simp: spec_codecs_def)
qed

end
