(* ===== verification/P2P.thy ===== *)
theory P2P
  imports Wire "HOL-Library.Multiset"
begin

text \<open>
  The protocol state of \<^verbatim>\<open>src/flashblocks/p2p.rs\<close>: \<open>FlashblocksP2PState\<close>, the publication of a
  flashblock with its out-of-order buffer and in-order stream, and the stream a subscriber gets.

  A call of \<open>publish\<close> runs under the state's mutex: it is one step. Its effects on the two
  broadcast channels are the outputs of the step, in the order the code sends them.
\<close>

section \<open>State and messages\<close>

definition MAX_FRAME :: nat where
  "MAX_FRAME = 2 ^ 24"

definition MAX_FLASHBLOCK_INDEX :: nat where
  "MAX_FLASHBLOCK_INDEX = 100"

definition BROADCAST_BUFFER_CAPACITY :: nat where
  "BROADCAST_BUFFER_CAPACITY = 100"

datatype PeerMsg = PeerFlashblocksPayload payload_id nat bytes

record ('w, 'b) FlashblocksP2PState =
  s_payload_id :: payload_id
  s_payload_timestamp :: u64
  s_flashblock_timestamp :: i64
  s_flashblock_index :: nat
  s_flashblocks :: "('w, 'b) flashblock option list"

definition default_p2p_state :: "('w, 'b) FlashblocksP2PState" where
  "default_p2p_state = \<lparr>s_payload_id = 0, s_payload_timestamp = 0, s_flashblock_timestamp = 0,
     s_flashblock_index = 0, s_flashblocks = []\<rparr>"

text \<open>What a publication sends: a message to the connections, or a flashblock to the stream.\<close>

datatype ('w, 'b) effect = ToPeers PeerMsg | ToStream "('w, 'b) flashblock"

section \<open>Publishing\<close>

text \<open>
  Step 1: a flashblock of another payload resets the state. The buffer keeps its length. The cast
  of the \<open>i64\<close> timestamp to \<open>u64\<close> keeps the bits.
\<close>

definition track_payload ::
  "('w, 'b) FlashblocksP2PState \<Rightarrow> ('w, 'b) flashblock \<Rightarrow> ('w, 'b) FlashblocksP2PState" where
  "track_payload st payload =
     (if p_payload_id payload \<noteq> s_payload_id st then
        st\<lparr>s_payload_id := p_payload_id payload,
           s_payload_timestamp := unwrap_or (m_flashblock_timestamp (p_metadata payload)) 0,
           s_flashblock_index := 0,
           s_flashblocks := map (\<lambda>_. None) (s_flashblocks st)\<rparr>
      else st)"

text \<open>
  Step 5, the loop: flashblocks are emitted while the next one is in the buffer. The measured
  interval is discarded by the code and not modelled.
\<close>

function emit_ready ::
  "i64 \<Rightarrow> ('w, 'b) FlashblocksP2PState \<Rightarrow>
     ('w, 'b) FlashblocksP2PState \<times> ('w, 'b) flashblock list" where
  "emit_ready now st =
     (case get (s_flashblocks st) (s_flashblock_index st) of
        Some (Some flashblock_event) \<Rightarrow>
          (let (st', events) = emit_ready now
                 (st\<lparr>s_flashblock_timestamp := now,
                     s_flashblock_index := s_flashblock_index st + 1\<rparr>)
           in (st', flashblock_event # events))
      | _ \<Rightarrow> (st, []))"
  by pat_completeness auto
termination
  by (relation "measure (\<lambda>(now, st). length (s_flashblocks st) - s_flashblock_index st)") auto

declare emit_ready.simps [simp del]

text \<open>
  \<open>FlashblocksP2PCtx::publish\<close>. \<open>encode_msg\<close> is the encoding of theory \<open>Wire\<close> with its codecs
  chosen; \<open>now\<close> is the clock reading. A message that is too large for a frame stays in the buffer
  but is neither sent nor does it start the emission.
\<close>

definition publish ::
  "((FlashblockMetadata, 'w, 'b) FlashblocksP2PMsg \<Rightarrow> bytes) \<Rightarrow> i64 \<Rightarrow>
     ('w, 'b) FlashblocksP2PState \<Rightarrow> ('w, 'b) flashblock \<Rightarrow>
     ('w, 'b) FlashblocksP2PState \<times> ('w, 'b) effect list" where
  "publish encode_msg now st payload =
     (let payload_index = unat (p_index payload);
          st = track_payload st payload
      in if MAX_FLASHBLOCK_INDEX < payload_index then (st, [])
      else
        let required_len = payload_index + 1;
            st = st\<lparr>s_flashblocks := grow_to required_len None (s_flashblocks st)\<rparr>
        in if s_flashblocks st ! payload_index \<noteq> None then (st, [])
        else
          let st = st\<lparr>s_flashblocks := (s_flashblocks st)[payload_index := Some payload]\<rparr>;
              bytes = encode_msg (FlashblocksPayloadMsg payload)
          in if MAX_FRAME < length bytes then (st, [])
          else
            let (st, events) = emit_ready now st
            in (st, ToPeers (PeerFlashblocksPayload (p_payload_id payload) payload_index bytes)
                    # map ToStream events))"

text \<open>\<open>FlashblocksHandle::publish_new\<close> and the callers of \<open>publish\<close>: one step per flashblock.\<close>

definition publish_step ::
  "((FlashblockMetadata, 'w, 'b) FlashblocksP2PMsg \<Rightarrow> bytes) \<Rightarrow>
     ('w, 'b) FlashblocksP2PState \<Rightarrow> i64 \<times> ('w, 'b) flashblock \<Rightarrow>
     ('w, 'b) FlashblocksP2PState \<times> ('w, 'b) effect list" where
  "publish_step encode_msg st i = publish encode_msg (fst i) st (snd i)"

lemma publish_step_pair [simp]: "publish_step enc st (now, fb) = publish enc now st fb"
  by (simp add: publish_step_def)

section \<open>The stream of a subscriber\<close>

text \<open>
  \<open>FlashblocksHandle::flashblock_stream\<close>: the flashblocks buffered up to the first gap, taken under
  the mutex, followed by what the broadcast receiver yields after the subscription. The receiver
  yields \<open>Err\<close> when it lagged behind, and \<open>map_while(|x| x.ok())\<close> ends the stream there.
\<close>

definition stream_snapshot :: "('w, 'b) FlashblocksP2PState \<Rightarrow> ('w, 'b) flashblock list" where
  "stream_snapshot st = map_while_some (s_flashblocks st)"

fun received_until_lag :: "('e, 'a) result list \<Rightarrow> 'a list" where
  "received_until_lag (Ok x # xs) = x # received_until_lag xs"
| "received_until_lag _ = []"

definition flashblock_stream ::
  "('w, 'b) FlashblocksP2PState \<Rightarrow> ('e, ('w, 'b) flashblock) result list \<Rightarrow>
     ('w, 'b) flashblock list" where
  "flashblock_stream st received = stream_snapshot st @ received_until_lag received"

text \<open>The outputs by channel.\<close>

fun streamed :: "('w, 'b) effect list \<Rightarrow> ('w, 'b) flashblock list" where
  "streamed [] = []"
| "streamed (ToStream p # os) = p # streamed os"
| "streamed (ToPeers m # os) = streamed os"

fun sent_to_peers :: "('w, 'b) effect list \<Rightarrow> PeerMsg list" where
  "sent_to_peers [] = []"
| "sent_to_peers (ToPeers m # os) = m # sent_to_peers os"
| "sent_to_peers (ToStream p # os) = sent_to_peers os"

lemma streamed_append [simp]: "streamed (xs @ ys) = streamed xs @ streamed ys"
  by (induction xs rule: streamed.induct) simp_all

lemma sent_to_peers_append [simp]: "sent_to_peers (xs @ ys) = sent_to_peers xs @ sent_to_peers ys"
  by (induction xs rule: sent_to_peers.induct) simp_all

lemma streamed_map [simp]: "streamed (map ToStream ps) = ps"
  by (induction ps) simp_all

lemma sent_to_peers_map [simp]: "sent_to_peers (map ToStream ps) = []"
  by (induction ps) simp_all

section \<open>The loop\<close>

text \<open>What the loop does: it moves the index to the first gap and emits what lies between.\<close>

lemma emit_ready_spec:
  assumes "emit_ready now st = (st', events)"
    and "s_flashblock_index st \<le> length (s_flashblocks st)"
  shows "s_flashblocks st' = s_flashblocks st \<and> s_payload_id st' = s_payload_id st
    \<and> s_flashblock_index st \<le> s_flashblock_index st'
    \<and> s_flashblock_index st' \<le> length (s_flashblocks st)
    \<and> events = map the (drop (s_flashblock_index st)
        (take (s_flashblock_index st') (s_flashblocks st)))
    \<and> (\<forall>i. s_flashblock_index st \<le> i \<and> i < s_flashblock_index st' \<longrightarrow> s_flashblocks st ! i \<noteq> None)
    \<and> (s_flashblock_index st' < length (s_flashblocks st) \<longrightarrow>
        s_flashblocks st ! s_flashblock_index st' = None)"
  using assms
proof (induction now st arbitrary: st' events rule: emit_ready.induct)
  case (1 now st)
  let ?w = "s_flashblock_index st" and ?fbs = "s_flashblocks st"
  let ?nxt = "st\<lparr>s_flashblock_timestamp := now, s_flashblock_index := ?w + 1\<rparr>"
  show ?case
  proof (cases "?w < length ?fbs \<and> ?fbs ! ?w \<noteq> None")
    case True
    then obtain fb where fb: "?fbs ! ?w = Some fb" by auto
    with True have next_fb: "get ?fbs ?w = Some (Some fb)" by simp
    obtain st1 events1 where rec: "emit_ready now ?nxt = (st1, events1)" by fastforce
    with 1(2) next_fb have res: "st' = st1" "events = fb # events1"
      by (simp_all add: emit_ready.simps [of now st])
    have "s_flashblock_index ?nxt \<le> length (s_flashblocks ?nxt)" using True by simp
    from 1(1) [OF next_fb refl rec this] have IH:
      "s_flashblocks st1 = ?fbs" "s_payload_id st1 = s_payload_id st"
      "?w + 1 \<le> s_flashblock_index st1" "s_flashblock_index st1 \<le> length ?fbs"
      "events1 = map the (drop (?w + 1) (take (s_flashblock_index st1) ?fbs))"
      "\<forall>i. ?w + 1 \<le> i \<and> i < s_flashblock_index st1 \<longrightarrow> ?fbs ! i \<noteq> None"
      "s_flashblock_index st1 < length ?fbs \<longrightarrow> ?fbs ! s_flashblock_index st1 = None"
      by simp_all
    have "drop ?w (take (s_flashblock_index st1) ?fbs) =
        ?fbs ! ?w # drop (?w + 1) (take (s_flashblock_index st1) ?fbs)"
      using IH(3,4) True by (simp add: Cons_nth_drop_Suc [symmetric])
    moreover have "?fbs ! i \<noteq> None" if "?w \<le> i" "i < s_flashblock_index st1" for i
      using that IH(6) fb by (cases "i = ?w") auto
    ultimately show ?thesis using IH fb res by simp
  next
    case False
    then have "st' = st \<and> events = []"
      using 1(2) by (auto simp: emit_ready.simps [of now st] get_def split: option.splits if_splits)
    with False 1(3) show ?thesis by auto
  qed
qed

section \<open>One step of publish, branch by branch\<close>

text \<open>The cached flashblock at an index, as a map, and the state after the tracking step.\<close>

definition cached :: "('w, 'b) FlashblocksP2PState \<Rightarrow> nat \<Rightarrow> ('w, 'b) flashblock option" where
  "cached st i = (if i < length (s_flashblocks st) then s_flashblocks st ! i else None)"

definition buffer_wf :: "('w, 'b) FlashblocksP2PState \<Rightarrow> bool" where
  "buffer_wf st \<longleftrightarrow>
     s_flashblock_index st \<le> length (s_flashblocks st) \<and>
     length (s_flashblocks st) \<le> Suc MAX_FLASHBLOCK_INDEX \<and>
     (\<forall>i < s_flashblock_index st. cached st i \<noteq> None) \<and>
     (\<forall>i fb. cached st i = Some fb \<longrightarrow>
        unat (p_index fb) = i \<and> p_payload_id fb = s_payload_id st)"

definition emitted :: "('w, 'b) FlashblocksP2PState \<Rightarrow> ('w, 'b) flashblock list" where
  "emitted st = map the (take (s_flashblock_index st) (s_flashblocks st))"

definition insert_flashblock ::
  "('w, 'b) FlashblocksP2PState \<Rightarrow> ('w, 'b) flashblock \<Rightarrow> ('w, 'b) FlashblocksP2PState" where
  "insert_flashblock st fb = st\<lparr>s_flashblocks :=
     (grow_to (Suc (unat (p_index fb))) None (s_flashblocks st))[unat (p_index fb) := Some fb]\<rparr>"

lemma default_p2p_state_id [simp]: "s_payload_id default_p2p_state = 0"
  by (simp add: default_p2p_state_def)

lemma buffer_wf_default [simp]: "buffer_wf default_p2p_state"
  by (simp add: buffer_wf_def default_p2p_state_def cached_def)

lemma buffer_wf_track [simp]: "buffer_wf st \<Longrightarrow> buffer_wf (track_payload st fb)"
  by (auto simp: buffer_wf_def track_payload_def cached_def)

lemma track_payload_id [simp]: "s_payload_id (track_payload st fb) = p_payload_id fb"
  by (simp add: track_payload_def)

lemma track_same: "p_payload_id fb = s_payload_id st \<Longrightarrow> track_payload st fb = st"
  by (simp add: track_payload_def)

lemma cached_track:
  "cached (track_payload st fb) i = (if p_payload_id fb = s_payload_id st then cached st i else None)"
  by (simp add: track_payload_def cached_def)

lemma emitted_track:
  "emitted (track_payload st fb) = (if p_payload_id fb = s_payload_id st then emitted st else [])"
  by (simp add: track_payload_def emitted_def)

lemma cached_insert:
  "cached (insert_flashblock st fb) i =
     (if i = unat (p_index fb) then Some fb else cached st i)"
  by (auto simp: insert_flashblock_def cached_def nth_grow_to)

lemma insert_simps [simp]:
  "s_payload_id (insert_flashblock st fb) = s_payload_id st"
  "s_flashblock_index (insert_flashblock st fb) = s_flashblock_index st"
  "length (s_flashblocks (insert_flashblock st fb)) =
     max (Suc (unat (p_index fb))) (length (s_flashblocks st))"
  by (simp_all add: insert_flashblock_def)

lemma index_ge_watermark:
  assumes "buffer_wf st" and "cached st i = None"
  shows "s_flashblock_index st \<le> i"
  using assms unfolding buffer_wf_def by (meson not_le)

lemma emitted_insert [simp]:
  assumes "buffer_wf st" and "cached st (unat (p_index fb)) = None"
  shows "emitted (insert_flashblock st fb) = emitted st"
proof -
  have "s_flashblock_index st \<le> unat (p_index fb)" "s_flashblock_index st \<le> length (s_flashblocks st)"
    using assms index_ge_watermark [OF assms] by (simp_all add: buffer_wf_def)
  then show ?thesis by (simp add: emitted_def insert_flashblock_def take_update_swap list_update_beyond)
qed

lemma buffer_wf_insert:
  assumes "buffer_wf st" and "unat (p_index fb) \<le> MAX_FLASHBLOCK_INDEX"
    and "p_payload_id fb = s_payload_id st"
  shows "buffer_wf (insert_flashblock st fb)"
  using assms by (auto simp: buffer_wf_def cached_insert)

text \<open>The four ways a publication ends.\<close>

lemma publish_cases [case_names bound duplicate oversized accepted]:
  obtains
    "MAX_FLASHBLOCK_INDEX < unat (p_index fb)" "publish enc now st fb = (track_payload st fb, [])"
  | "unat (p_index fb) \<le> MAX_FLASHBLOCK_INDEX"
    "cached (track_payload st fb) (unat (p_index fb)) \<noteq> None" "publish enc now st fb = (track_payload st fb, [])"
  | "unat (p_index fb) \<le> MAX_FLASHBLOCK_INDEX"
    "cached (track_payload st fb) (unat (p_index fb)) = None"
    "MAX_FRAME < length (enc (FlashblocksPayloadMsg fb))"
    "publish enc now st fb = (insert_flashblock (track_payload st fb) fb, [])"
  | st' events where "unat (p_index fb) \<le> MAX_FLASHBLOCK_INDEX"
    "cached (track_payload st fb) (unat (p_index fb)) = None"
    "length (enc (FlashblocksPayloadMsg fb)) \<le> MAX_FRAME"
    "emit_ready now (insert_flashblock (track_payload st fb) fb) = (st', events)"
    "publish enc now st fb = (st', ToPeers (PeerFlashblocksPayload (p_payload_id fb) (unat (p_index fb))
        (enc (FlashblocksPayloadMsg fb))) # map ToStream events)"
proof -
  let ?i = "unat (p_index fb)" and ?st = "track_payload st fb"
  let ?fbs = "grow_to (?i + 1) None (s_flashblocks ?st)"
  have nth: "?fbs ! ?i = cached ?st ?i" by (simp add: nth_grow_to cached_def)
  have same: "?st\<lparr>s_flashblocks := ?fbs\<rparr> = ?st" if "?fbs ! ?i \<noteq> None"
    proof -
    have "?i < length (s_flashblocks ?st)"
      using that unfolding nth cached_def by (simp split: if_splits)
    then show ?thesis by (simp add: grow_to_def)
  qed
  have ins: "?st\<lparr>s_flashblocks := ?fbs[?i := Some fb]\<rparr> = insert_flashblock ?st fb"
    by (simp add: insert_flashblock_def)
  obtain st' events where emit: "emit_ready now (insert_flashblock ?st fb) = (st', events)"
    by fastforce
  show thesis
  proof (cases "MAX_FLASHBLOCK_INDEX < ?i")
    case True
    with that(1) show ?thesis by (simp add: publish_def Let_def)
  next
    case False
    show ?thesis
    proof (cases "cached ?st ?i = None")
      case True
      show ?thesis
      proof (cases "MAX_FRAME < length (enc (FlashblocksPayloadMsg fb))")
        case True
        with False \<open>cached ?st ?i = None\<close> nth ins that(3) show ?thesis
          by (simp add: publish_def Let_def)
      next
        case frame: False
        with False True nth ins emit that(4) show ?thesis
          by (simp add: publish_def Let_def)
      qed
    next
      case cch: False
      with False nth same that(2) show ?thesis by (simp add: publish_def Let_def)
    qed
  qed
qed

text \<open>What an accepted publication emits: the cached flashblocks from the old mark to the new.\<close>

lemma emit_ready_emits:
  assumes "emit_ready now st = (st', events)" and "buffer_wf st"
  shows "buffer_wf st'" and "s_payload_id st' = s_payload_id st"
    and "s_flashblocks st' = s_flashblocks st" and "cached st' i = cached st i"
    and "emitted st' = emitted st @ events"
    and "cached st' (s_flashblock_index st') = None"
proof -
  have "s_flashblock_index st \<le> length (s_flashblocks st)" using assms(2) by (simp add: buffer_wf_def)
  note spec = emit_ready_spec [OF assms(1) this]
  let ?w = "s_flashblock_index st" and ?w' = "s_flashblock_index st'"
  show fbs: "s_flashblocks st' = s_flashblocks st" and pid: "s_payload_id st' = s_payload_id st"
    using spec by blast+
  then have cch: "cached st' j = cached st j" for j by (simp add: cached_def)
  then show "cached st' i = cached st i" .
  have w': "?w \<le> ?w'" "?w' \<le> length (s_flashblocks st)" using spec by blast+
  have "cached st j \<noteq> None" if "j < ?w'" for j
  proof (cases "j < ?w")
    case True
    with assms(2) show ?thesis unfolding buffer_wf_def by blast
  next
    case False
    with that w' have "s_flashblocks st ! j \<noteq> None" using spec by (meson not_le)
    with that w' show ?thesis by (simp add: cached_def)
  qed
  with assms(2) w' show "buffer_wf st'"
    by (simp add: buffer_wf_def cch fbs pid)
  show "cached st' ?w' = None" using spec by (auto simp: cached_def fbs)
  have "take ?w' (s_flashblocks st) =
      take ?w (s_flashblocks st) @ drop ?w (take ?w' (s_flashblocks st))"
    using w' by (metis append_take_drop_id min.absorb1 take_take)
  then show "emitted st' = emitted st @ events"
    using spec by (metis emitted_def fbs map_append)
qed

lemma buffer_wf_publish:
  assumes "buffer_wf st"
  shows "buffer_wf (fst (publish enc now st fb))"
proof -
  note wf = buffer_wf_track [OF assms, of fb]
  show ?thesis
  proof (cases rule: publish_cases [where enc = enc and now = now and st = st and fb = fb])
    case (accepted st' events)
    have "buffer_wf (insert_flashblock (track_payload st fb) fb)"
      using wf accepted(1) by (simp add: buffer_wf_insert)
    from emit_ready_emits(1) [OF accepted(4) this] accepted(5) show ?thesis by simp
  qed (use wf in \<open>simp_all add: buffer_wf_insert\<close>)
qed

lemma publish_payload_id: 
  assumes "buffer_wf st"
  shows "s_payload_id (fst (publish enc now st fb)) = p_payload_id fb"
proof -
  note wf = buffer_wf_track [OF assms, of fb]
  show ?thesis
  proof (cases rule: publish_cases [where enc = enc and now = now and st = st and fb = fb])
    case (accepted st' events)
    have "buffer_wf (insert_flashblock (track_payload st fb) fb)"
      using wf accepted(1) by (simp add: buffer_wf_insert)
    from emit_ready_emits(2) [OF accepted(4) this] accepted(5) show ?thesis by simp
  qed simp_all
qed

text \<open>A publication appends what it streams to what is emitted of the payload it tracks.\<close>

lemma publish_streams:
  assumes "buffer_wf st"
  shows "emitted (fst (publish enc now st fb)) =
    emitted (track_payload st fb) @ streamed (snd (publish enc now st fb))"
proof -
  note wf = buffer_wf_track [OF assms, of fb]
  show ?thesis
  proof (cases rule: publish_cases [where enc = enc and now = now and st = st and fb = fb])
    case oversized
    with wf show ?thesis by simp
  next
    case (accepted st' events)
    have "buffer_wf (insert_flashblock (track_payload st fb) fb)"
      using wf accepted(1) by (simp add: buffer_wf_insert)
    from emit_ready_emits(5) [OF accepted(4) this] accepted wf show ?thesis by simp
  qed simp_all
qed

section \<open>Strict order of the stream\<close>

text \<open>
  A stream is in order when it starts with a flashblock of index 0 and each later flashblock is
  either the next one of the same payload or again a flashblock of index 0.
\<close>

definition follows :: "('w, 'b) flashblock \<Rightarrow> ('w, 'b) flashblock \<Rightarrow> bool" where
  "follows a b \<longleftrightarrow> unat (p_index b) = 0 \<or>
     (p_payload_id b = p_payload_id a \<and> unat (p_index b) = Suc (unat (p_index a)))"

definition in_order :: "('w, 'b) flashblock list \<Rightarrow> bool" where
  "in_order fbs \<longleftrightarrow> (fbs \<noteq> [] \<longrightarrow> unat (p_index (hd fbs)) = 0) \<and> successively follows fbs"

lemma in_order_append:
  assumes "in_order xs" and "in_order ys"
  shows "in_order (xs @ ys)"
  using assms by (auto simp: in_order_def successively_append_iff follows_def hd_append)

lemma emitted_nth:
  assumes "buffer_wf st" and "i < s_flashblock_index st"
  shows "unat (p_index (emitted st ! i)) = i" and "p_payload_id (emitted st ! i) = s_payload_id st"
proof -
  obtain fb where fb: "cached st i = Some fb"
    using assms unfolding buffer_wf_def by blast
  have "i < length (s_flashblocks st)" using assms by (simp add: buffer_wf_def)
  with fb assms(2) have "emitted st ! i = fb" by (simp add: emitted_def cached_def)
  with assms(1) fb show "unat (p_index (emitted st ! i)) = i"
    and "p_payload_id (emitted st ! i) = s_payload_id st" by (auto simp: buffer_wf_def)
qed

lemma length_emitted [simp]: "buffer_wf st \<Longrightarrow> length (emitted st) = s_flashblock_index st"
  by (simp add: emitted_def buffer_wf_def)

lemma emitted_in_order:
  assumes "buffer_wf st"
  shows "in_order (emitted st)"
proof -
  have "successively follows (emitted st)"
    using assms by (auto simp: successively_conv_nth follows_def emitted_nth)
  moreover have "unat (p_index (hd (emitted st))) = 0" if "emitted st \<noteq> []"
    using that assms emitted_nth(1) [OF assms, of 0] by (simp add: hd_conv_nth flip: length_emitted)
  ultimately show ?thesis by (simp add: in_order_def)
qed

text \<open>The stream so far is an ordered past followed by what the state has emitted.\<close>

definition stream_history :: "('w, 'b) FlashblocksP2PState \<Rightarrow> ('w, 'b) effect list \<Rightarrow> bool" where
  "stream_history st h \<longleftrightarrow>
     buffer_wf st \<and> (\<exists>past. in_order past \<and> streamed h = past @ emitted st)"

lemma stream_history_publish:
  assumes "stream_history st h"
  shows "stream_history (fst (publish enc now st fb)) (h @ snd (publish enc now st fb))"
proof -
  obtain past where wf: "buffer_wf st" and past: "in_order past" "streamed h = past @ emitted st"
    using assms by (auto simp: stream_history_def)
  let ?r = "publish enc now st fb"
  have emits: "emitted (fst ?r) = emitted (track_payload st fb) @ streamed (snd ?r)"
    by (rule publish_streams [OF wf])
  have "\<exists>past'. in_order past' \<and> past @ emitted st = past' @ emitted (track_payload st fb)"
  proof (cases "p_payload_id fb = s_payload_id st")
    case True
    then show ?thesis using past(1) by (auto simp: emitted_track)
  next
    case False
    then show ?thesis using past(1) emitted_in_order [OF wf]
      by (auto simp: emitted_track intro: in_order_append)
  qed
  then obtain past' where "in_order past'" "streamed h = past' @ emitted (track_payload st fb)"
    using past(2) by auto
  with emits buffer_wf_publish [OF wf] show ?thesis by (auto simp: stream_history_def)
qed

interpretation stream: machine "publish_step encode_msg" "\<lambda>_. True" stream_history for encode_msg
  by unfold_locales (simp add: publish_step_def stream_history_publish)

text \<open>
  C20: Strict ordering. Whatever flashblocks are published, in whatever order and of whatever
  payloads, the stream starts with index 0 and continues with the next index of the same payload
  or with an index 0; the buffer never holds more than 101 entries, and an entry sits at its
  index and belongs to the payload the state tracks.
\<close>

theorem stream_strictly_ordered:
  "in_order (streamed (snd (run (publish_step encode_msg) default_p2p_state is))) \<and>
   buffer_wf (fst (run (publish_step encode_msg) default_p2p_state is))"
proof -
  have "stream_history default_p2p_state []"
    by (simp add: stream_history_def) (simp add: default_p2p_state_def emitted_def in_order_def)
  from stream.run_from_start [OF TrueI this, of encode_msg "is"]
  show ?thesis by (auto simp: stream_history_def intro!: in_order_append emitted_in_order)
qed

section \<open>An abstract delivery and its refinement\<close>

text \<open>
  The contract of the publication: a map from indices to the first flashblock received of the
  current payload. A new flashblock delivers whatever lies between the old first gap of the map
  and the new one. There is no mark, no buffer length and no loop.
\<close>

definition first_gap :: "(nat \<Rightarrow> 'a option) \<Rightarrow> nat" where
  "first_gap m = length (takeWhile (\<lambda>i. m i \<noteq> None) [0..<Suc MAX_FLASHBLOCK_INDEX])"

definition deliver_spec ::
  "payload_id \<times> (nat \<Rightarrow> ('w, 'b) flashblock option) \<Rightarrow> i64 \<times> ('w, 'b) flashblock \<Rightarrow>
     (payload_id \<times> (nat \<Rightarrow> ('w, 'b) flashblock option)) \<times> ('w, 'b) flashblock list" where
  "deliver_spec t i =
     (let fb = snd i;
          m = (if p_payload_id fb \<noteq> fst t then (\<lambda>_. None) else snd t);
          idx = unat (p_index fb)
      in if MAX_FLASHBLOCK_INDEX < idx \<or> m idx \<noteq> None then ((p_payload_id fb, m), [])
      else let m' = m(idx \<mapsto> fb)
        in ((p_payload_id fb, m'), map (\<lambda>j. the (m' j)) [first_gap m..<first_gap m']))"

definition settled :: "('w, 'b) FlashblocksP2PState \<Rightarrow> bool" where
  "settled st \<longleftrightarrow> buffer_wf st \<and> cached st (s_flashblock_index st) = None"

definition implements ::
  "('w, 'b) FlashblocksP2PState \<Rightarrow> payload_id \<times> (nat \<Rightarrow> ('w, 'b) flashblock option) \<Rightarrow> bool" where
  "implements st t \<longleftrightarrow> settled st \<and> t = (s_payload_id st, cached st)"

definition fits_frame ::
  "((FlashblockMetadata, 'w, 'b) FlashblocksP2PMsg \<Rightarrow> bytes) \<Rightarrow> i64 \<times> ('w, 'b) flashblock \<Rightarrow> bool" where
  "fits_frame encode_msg i \<longleftrightarrow> length (encode_msg (FlashblocksPayloadMsg (snd i))) \<le> MAX_FRAME"

lemma first_gap_eq:
  assumes "\<And>i. i < w \<Longrightarrow> m i \<noteq> None" and "m w = None" and "w \<le> Suc MAX_FLASHBLOCK_INDEX"
  shows "first_gap m = w"
proof -
  have split: "[0..<Suc MAX_FLASHBLOCK_INDEX] = [0..<w] @ [w..<Suc MAX_FLASHBLOCK_INDEX]"
    using assms(3) upt_add_eq_append [of 0 w "Suc MAX_FLASHBLOCK_INDEX - w"] by simp
  have "takeWhile (\<lambda>i. m i \<noteq> None) [0..<Suc MAX_FLASHBLOCK_INDEX] = [0..<w]"
    unfolding split
    by (subst takeWhile_append2)
      (use assms in \<open>auto simp: takeWhile_eq_Nil_iff le_less simp del: upt_Suc\<close>)
  then show ?thesis by (simp add: first_gap_def del: upt_Suc)
qed

lemma cached_default [simp]: "cached default_p2p_state i = None"
  by (simp add: default_p2p_state_def cached_def)

lemma settled_default [simp]: "settled default_p2p_state"
  by (simp add: settled_def)

lemma implements_default: "implements default_p2p_state (0, \<lambda>_. None)"
  by (simp add: implements_def fun_eq_iff)

lemma settled_first_gap: "settled st \<Longrightarrow> first_gap (cached st) = s_flashblock_index st"
  by (rule first_gap_eq) (auto simp: settled_def buffer_wf_def)

lemma settled_track: "settled st \<Longrightarrow> settled (track_payload st fb)"
  by (auto simp: settled_def cached_track track_same)

lemma emitted_conv_cached:
  assumes "buffer_wf st"
  shows "emitted st = map (\<lambda>i. the (cached st i)) [0..<s_flashblock_index st]"
  using assms by (intro nth_equalityI) (auto simp: emitted_def cached_def buffer_wf_def)

lemma publish_accepted:
  assumes "settled st" and "fits_frame enc (now, fb)"
    and "unat (p_index fb) \<le> MAX_FLASHBLOCK_INDEX"
    and "cached (track_payload st fb) (unat (p_index fb)) = None"
  shows "settled (fst (publish enc now st fb))"
    and "cached (fst (publish enc now st fb)) =
      (cached (track_payload st fb))(unat (p_index fb) \<mapsto> fb)"
proof -
  let ?st = "track_payload st fb"
  have wf: "buffer_wf ?st" using assms(1) by (simp add: settled_def)
  then have ins: "buffer_wf (insert_flashblock ?st fb)"
    using assms(3) by (simp add: buffer_wf_insert)
  obtain st' events where emit: "emit_ready now (insert_flashblock ?st fb) = (st', events)"
    by fastforce
  have fst: "fst (publish enc now st fb) = st'"
    by (cases rule: publish_cases [where enc = enc and now = now and st = st and fb = fb])
      (use assms emit in \<open>simp_all add: fits_frame_def\<close>)
  note emits = emit_ready_emits [OF emit ins]
  show "settled (fst (publish enc now st fb))" using emits(1,6) fst by (simp add: settled_def)
  show "cached (fst (publish enc now st fb)) = (cached ?st)(unat (p_index fb) \<mapsto> fb)"
    using emits(4) fst by (auto simp: cached_insert fun_upd_def)
qed

lemma publish_ignored:
  assumes "MAX_FLASHBLOCK_INDEX < unat (p_index fb) \<or>
      cached (track_payload st fb) (unat (p_index fb)) \<noteq> None"
  shows "publish enc now st fb = (track_payload st fb, [])"
  by (cases rule: publish_cases [where enc = enc and now = now and st = st and fb = fb])
    (use assms in auto)

lemma implements_step:
  assumes "fits_frame enc i" and "implements st t"
  shows "implements (fst (publish_step enc st i)) (fst (deliver_spec t i)) \<and>
    streamed (snd (publish_step enc st i)) = snd (deliver_spec t i)"
proof -
  obtain now fb where i: "i = (now, fb)" by fastforce
  let ?st = "track_payload st fb" and ?idx = "unat (p_index fb)"
  let ?st' = "fst (publish enc now st fb)"
  have settled: "settled st" and t: "t = (s_payload_id st, cached st)"
    using assms(2) by (simp_all add: implements_def)
  then have wf: "buffer_wf st" by (simp add: settled_def)
  have m: "(if p_payload_id fb \<noteq> fst t then (\<lambda>_. None) else snd t) = cached ?st"
    by (auto simp: t cached_track)
  show ?thesis
  proof (cases "MAX_FLASHBLOCK_INDEX < ?idx \<or> cached ?st ?idx \<noteq> None")
    case True
    have "deliver_spec t i = ((p_payload_id fb, cached ?st), [])"
      using True by (simp add: deliver_spec_def i m Let_def del: not_None_eq)
    with publish_ignored [OF True, of enc now] settled_track [OF settled, of fb]
    show ?thesis by (simp add: implements_def publish_step_def i)
  next
    case False
    then have idx: "?idx \<le> MAX_FLASHBLOCK_INDEX" "cached ?st ?idx = None" by auto
    note acc = publish_accepted [OF settled assms(1) [unfolded i] idx]
    have gaps: "first_gap (cached ?st) = s_flashblock_index ?st"
      "first_gap (cached ?st') = s_flashblock_index ?st'"
      using settled_first_gap settled_track [OF settled] acc(1) by blast+
    have wfs: "buffer_wf ?st" "buffer_wf ?st'" using wf by (simp_all add: buffer_wf_publish)
    have split: "emitted ?st' = emitted ?st @ streamed (snd (publish enc now st fb))"
      by (rule publish_streams [OF wf])
    then have "streamed (snd (publish enc now st fb)) =
        drop (s_flashblock_index ?st) (emitted ?st')" using wfs by simp
    also have "\<dots> = map (\<lambda>j. the (cached ?st' j)) [s_flashblock_index ?st..<s_flashblock_index ?st']"
      by (simp add: emitted_conv_cached wfs drop_map)
    finally have "streamed (snd (publish enc now st fb)) =
        map (\<lambda>j. the (cached ?st' j)) [first_gap (cached ?st)..<first_gap (cached ?st')]"
      by (simp add: gaps)
    moreover have "deliver_spec t i = ((p_payload_id fb, cached ?st'),
        map (\<lambda>j. the (cached ?st' j)) [first_gap (cached ?st)..<first_gap (cached ?st')])"
      using idx by (simp add: deliver_spec_def i m Let_def acc(2))
    ultimately show ?thesis
      using acc(1) publish_payload_id [OF wf] by (simp add: implements_def publish_step_def i)
  qed
qed

interpretation delivery:
  simulation "publish_step encode_msg" deliver_spec implements streamed "fits_frame encode_msg"
  for encode_msg
  by unfold_locales (simp_all add: implements_step)

text \<open>
  C16: Refinement. As long as no message exceeds the frame size, the publication with its buffer,
  mark and loop streams exactly what the abstract map from indices to flashblocks delivers, over
  every run from the initial state, and the buffer represents the map.
\<close>

theorem publish_refines_delivery:
  assumes "\<And>i. i \<in> set is \<Longrightarrow> fits_frame encode_msg i"
  shows "streamed (snd (run (publish_step encode_msg) default_p2p_state is)) =
      snd (run deliver_spec (0, \<lambda>_. None) is) \<and>
    implements (fst (run (publish_step encode_msg) default_p2p_state is))
      (fst (run deliver_spec (0, \<lambda>_. None) is))"
proof -
  from delivery.run_simulates [OF assms implements_default] show ?thesis by simp
qed

text \<open>An encoding for the concrete runs below, and flashblocks with a given payload and index.\<close>

definition probe :: "payload_id \<Rightarrow> u64 \<Rightarrow> (unit, unit) flashblock" where
  "probe pid idx = \<lparr>p_payload_id = pid, p_index = idx, p_diff = default_delta,
     p_metadata = default_metadata, p_base = None\<rparr>"

definition probe_bytes :: "(FlashblockMetadata, unit, unit) FlashblocksP2PMsg \<Rightarrow> bytes" where
  "probe_bytes msg = (case msg of FlashblocksPayloadMsg p \<Rightarrow> [ucast (p_index p)])"

lemma probe_simps [simp]:
  "p_payload_id (probe pid idx) = pid" "p_index (probe pid idx) = idx"
  "length (probe_bytes msg) = 1" "fits_frame probe_bytes i"
  by (simp_all add: probe_def probe_bytes_def fits_frame_def MAX_FRAME_def split: FlashblocksP2PMsg.split)

theorem publish_refines_delivery_witness:
  "streamed (snd (run (publish_step probe_bytes) default_p2p_state
     [(1, probe 7 1), (2, probe 7 0), (3, probe 7 1), (4, probe 7 2)])) =
   snd (run deliver_spec (0, \<lambda>_. None) [(1, probe 7 1), (2, probe 7 0), (3, probe 7 1), (4, probe 7 2)])"
  using publish_refines_delivery
    [of "[(1, probe 7 1), (2, probe 7 0), (3, probe 7 1), (4, probe 7 2)]" probe_bytes]
  by simp

section \<open>Any order of arrival\<close>

definition fresh :: "payload_id \<Rightarrow> ('w, 'b) FlashblocksP2PState \<Rightarrow> bool" where
  "fresh pid st \<longleftrightarrow> buffer_wf st \<and> s_payload_id st = pid \<and> (\<forall>i. cached st i = None)"

definition first_received :: "(i64 \<times> ('w, 'b) flashblock) list \<Rightarrow> nat \<Rightarrow> ('w, 'b) flashblock option" where
  "first_received is idx =
     (if idx \<le> MAX_FLASHBLOCK_INDEX then find (\<lambda>fb. unat (p_index fb) = idx) (map snd is) else None)"

lemma find_append: "find P (xs @ ys) = (case find P xs of None \<Rightarrow> find P ys | Some x \<Rightarrow> Some x)"
  by (induction xs) simp_all

lemma fresh_track:
  "buffer_wf st \<Longrightarrow> p_payload_id fb \<noteq> s_payload_id st \<Longrightarrow> fresh (p_payload_id fb) (track_payload st fb)"
  by (simp add: fresh_def cached_track)

lemma publish_track: "publish enc now (track_payload st fb) fb = publish enc now st fb"
  by (simp add: publish_def track_same)

lemma fresh_run:
  assumes "fresh pid st"
    and "\<And>i. i \<in> set is \<Longrightarrow> p_payload_id (snd i) = pid \<and> fits_frame enc i"
  shows "let r = run (publish_step enc) st is in
    settled (fst r) \<and> s_payload_id (fst r) = pid \<and> cached (fst r) = first_received is \<and>
    streamed (snd r) = emitted (fst r)"
  using assms(2)
proof (induction "is" rule: rev_induct)
  case Nil
  have "s_flashblock_index st = 0"
    using assms(1) unfolding fresh_def buffer_wf_def by (metis gr0I)
  with assms(1) show ?case
    by (auto simp: fresh_def settled_def first_received_def emitted_def fun_eq_iff)
next
  case (snoc i "is")
  obtain now fb where i: "i = (now, fb)" by fastforce
  let ?st = "fst (run (publish_step enc) st is)" and ?idx = "unat (p_index fb)"
  have IH: "settled ?st" "s_payload_id ?st = pid" "cached ?st = first_received is"
    "streamed (snd (run (publish_step enc) st is)) = emitted ?st"
    using snoc by (simp_all add: Let_def)
  have fb: "p_payload_id fb = pid" "fits_frame enc (now, fb)" using snoc.prems [of i] i by simp_all
  have track: "track_payload ?st fb = ?st" using fb IH(2) by (simp add: track_same)
  have wf: "buffer_wf ?st" using IH(1) by (simp add: settled_def)
  have streams: "emitted (fst (publish enc now ?st fb)) =
      emitted ?st @ streamed (snd (publish enc now ?st fb))"
    using publish_streams [OF wf, of enc now fb] by (simp add: track)
  have "settled (fst (publish enc now ?st fb)) \<and>
      cached (fst (publish enc now ?st fb)) = first_received (is @ [i])"
  proof (cases "MAX_FLASHBLOCK_INDEX < ?idx \<or> cached ?st ?idx \<noteq> None")
    case True
    then have "first_received (is @ [i]) = first_received is"
      by (auto simp: IH(3) first_received_def find_append i fun_eq_iff split: option.splits if_splits)
    with True IH(1,3) track show ?thesis by (subst (1 2) publish_ignored) simp_all
  next
    case False
    then have idx: "?idx \<le> MAX_FLASHBLOCK_INDEX" "cached ?st ?idx = None" by auto
    have "(first_received is)(?idx \<mapsto> fb) = first_received (is @ [i])"
      using idx by (auto simp: IH(3) first_received_def find_append i fun_eq_iff split: option.splits if_splits)
    with publish_accepted [OF IH(1) fb(2) idx(1)] idx(2) track IH(3) show ?thesis by simp
  qed
  moreover have "s_payload_id (fst (publish enc now ?st fb)) = pid"
    using publish_payload_id [OF wf] fb(1) by simp
  ultimately show ?case
    using IH(4) streams by (simp add: Let_def run_snoc_fst run_snoc_snd i)
qed

lemma stream_of_payload:
  assumes "buffer_wf st" and "s_payload_id st \<noteq> pid" and "is \<noteq> []"
    and "\<And>i. i \<in> set is \<Longrightarrow> p_payload_id (snd i) = pid \<and> fits_frame encode_msg i"
  shows "streamed (snd (run (publish_step encode_msg) st is)) =
    map_while_some (map (first_received is) [0..<Suc (Suc MAX_FLASHBLOCK_INDEX)])"
proof -
  obtain i js where js: "is = i # js" using assms(3) by (cases "is") auto
  let ?st = "track_payload st (snd i)"
  have pid: "p_payload_id (snd i) = pid" using assms(4) js by simp
  then have fresh: "fresh pid ?st" using assms(1,2) fresh_track by metis
  have same: "run (publish_step encode_msg) st is = run (publish_step encode_msg) ?st is"
    by (simp add: js run.simps publish_step_def publish_track)
  let ?r = "run (publish_step encode_msg) ?st is" and ?w = "s_flashblock_index"
  have r: "settled (fst ?r)" "cached (fst ?r) = first_received is"
    "streamed (snd ?r) = emitted (fst ?r)"
    using fresh_run [OF fresh assms(4)] by (simp_all add: Let_def)
  have wf: "buffer_wf (fst ?r)" and gap: "first_received is (?w (fst ?r)) = None"
    using r(1,2) by (simp_all add: settled_def)
  let ?w = "s_flashblock_index (fst ?r)"
  have bound: "?w \<le> Suc MAX_FLASHBLOCK_INDEX" using wf by (simp add: buffer_wf_def)
  have "map_while_some (map (first_received is) [0..<Suc (Suc MAX_FLASHBLOCK_INDEX)]) =
      map the (take ?w (map (first_received is) [0..<Suc (Suc MAX_FLASHBLOCK_INDEX)]))"
  proof (rule map_while_some_prefix)
    fix i assume "i < ?w"
    with wf have "first_received is i \<noteq> None" unfolding buffer_wf_def r(2) [symmetric] by blast
    with \<open>i < ?w\<close> bound show "map (first_received is) [0..<Suc (Suc MAX_FLASHBLOCK_INDEX)] ! i \<noteq> None"
      by (simp add: nth_append del: upt_Suc)
  qed (use bound gap in \<open>simp_all del: upt_Suc\<close>)
  also have "\<dots> = emitted (fst ?r)"
    using bound by (simp add: emitted_conv_cached [OF wf] r(2) take_map take_upt del: upt_Suc)
  finally show ?thesis using r(3) same by simp
qed

text \<open>
  delivery in any order of arrival. When a new payload starts, then for every sequence of its
  flashblocks, with any order, duplicates and out-of-range indices, the stream is exactly the
  first received flashblock of index 0, of index 1, and so on up to the first missing index.
\<close>

theorem delivery_in_any_order:
  assumes "buffer_wf st" and "s_payload_id st \<noteq> pid" and "is \<noteq> []"
    and "\<And>i. i \<in> set is \<Longrightarrow> p_payload_id (snd i) = pid \<and> fits_frame encode_msg i"
  shows "streamed (snd (run (publish_step encode_msg) st is)) =
    map_while_some (map (first_received is) [0..<Suc (Suc MAX_FLASHBLOCK_INDEX)])"
  using assms by (rule stream_of_payload)

theorem delivery_in_any_order_witness:
  "streamed (snd (run (publish_step probe_bytes) default_p2p_state
     [(1, probe 7 1), (2, probe 7 0), (3, probe 7 1), (4, probe 7 3)])) = [probe 7 0, probe 7 1]"
proof -
  let ?is = "[(1, probe 7 1), (2, probe 7 0), (3, probe 7 1), (4, probe 7 3)]"
  have "streamed (snd (run (publish_step probe_bytes) default_p2p_state ?is)) =
      map_while_some (map (first_received ?is) [0..<Suc (Suc MAX_FLASHBLOCK_INDEX)])"
    by (rule delivery_in_any_order [where pid = 7]) auto
  also have "[0..<Suc (Suc MAX_FLASHBLOCK_INDEX)] = 0 # 1 # 2 # [3..<Suc (Suc MAX_FLASHBLOCK_INDEX)]"
    by (simp add: MAX_FLASHBLOCK_INDEX_def upt_conv_Cons)
  finally show ?thesis by (simp add: first_received_def MAX_FLASHBLOCK_INDEX_def)
qed

text \<open>The same contract for complete payloads: the stream is the payload sorted by index.\<close>

lemma first_received_complete:
  assumes "distinct (map (\<lambda>i. unat (p_index (snd i))) is)" and "i \<in> set is"
    and "unat (p_index (snd i)) \<le> MAX_FLASHBLOCK_INDEX"
  shows "first_received is (unat (p_index (snd i))) = Some (snd i)"
proof -
  have "find (\<lambda>fb. unat (p_index fb) = unat (p_index (snd i))) (map snd is) = Some (snd i)"
    using assms(1,2) by (induction "is") (auto simp: rev_image_eqI)
  with assms(3) show ?thesis by (simp add: first_received_def)
qed

lemma map_while_some_Some [simp]: "map_while_some (map (\<lambda>x. Some (f x)) xs @ None # ys) = map f xs"
  by (induction xs) simp_all

lemma complete_payload:
  assumes "buffer_wf st" and "s_payload_id st \<noteq> pid" and "0 < n"
    and "n \<le> Suc MAX_FLASHBLOCK_INDEX"
    and "\<And>i. i \<in> set is \<Longrightarrow> p_payload_id (snd i) = pid \<and> fits_frame encode_msg i"
    and "distinct (map (\<lambda>i. unat (p_index (snd i))) is)"
    and "set (map (\<lambda>i. unat (p_index (snd i))) is) = {0..<n}"
  shows "streamed (snd (run (publish_step encode_msg) st is)) =
    sort_key (\<lambda>fb. unat (p_index fb)) (map snd is)"
proof -
  let ?idx = "\<lambda>fb. unat (p_index fb)" and ?f = "\<lambda>j. the (first_received is j)"
  have got: "first_received is (?idx (snd i)) = Some (snd i)" "?idx (snd i) < n" if "i \<in> set is" for i
  proof -
    show "?idx (snd i) < n" using assms(7) that by auto
    with assms(4) show "first_received is (?idx (snd i)) = Some (snd i)"
      by (intro first_received_complete assms(6) that) simp
  qed
  have some: "first_received is j = Some (?f j)" "?idx (?f j) = j" "?f j \<in> set (map snd is)" if "j < n" for j
  proof -
    have "j \<in> set (map (\<lambda>i. ?idx (snd i)) is)" using assms(7) that by simp
    then obtain i where i: "i \<in> set is" "?idx (snd i) = j" by (auto simp del: split_paired_Ex)
    with got(1) [OF i(1)] have "first_received is j = Some (snd i)" by simp
    with i show "first_received is j = Some (?f j)" "?idx (?f j) = j" "?f j \<in> set (map snd is)"
      by simp_all
  qed
  have none: "first_received is n = None"
  proof -
    have "?idx (snd i) \<noteq> n" if "i \<in> set is" for i using got(2) [OF that] by simp
    then show ?thesis by (auto simp: first_received_def find_None_iff)
  qed
  have split: "[0..<Suc (Suc MAX_FLASHBLOCK_INDEX)] = [0..<n] @ n # [Suc n..<Suc (Suc MAX_FLASHBLOCK_INDEX)]"
    using assms(4) upt_add_eq_append [of 0 n "Suc (Suc MAX_FLASHBLOCK_INDEX) - n"]
    by (simp add: upt_conv_Cons del: upt_Suc)
  have "is \<noteq> []" using assms(3,7) by auto
  note stream = stream_of_payload [OF assms(1,2) this assms(5)]
  have "streamed (snd (run (publish_step encode_msg) st is)) =
      map_while_some (map (\<lambda>j. Some (?f j)) [0..<n] @ None #
        map (first_received is) [Suc n..<Suc (Suc MAX_FLASHBLOCK_INDEX)])"
  proof -
    have "map (first_received is) [0..<n] = map (\<lambda>j. Some (?f j)) [0..<n]"
      by (rule map_cong [OF refl], rule some(1)) simp
    then show ?thesis using stream none unfolding split by (simp only: map_append list.map)
  qed
  then have stream: "streamed (snd (run (publish_step encode_msg) st is)) = map ?f [0..<n]" by simp
  have "sort_key ?idx (map snd is) = map ?f [0..<n]"
  proof (rule sort_key_inj_key_eq)
    have dist: "distinct (map snd is)" using assms(6) by (simp add: distinct_map inj_on_def)
    have "inj_on ?f {0..<n}" by (rule inj_on_inverseI [of _ ?idx]) (simp add: some(2))
    then have "distinct (map ?f [0..<n])" by (simp add: distinct_map)
    moreover have "set (map snd is) = set (map ?f [0..<n])"
    proof (rule set_eqI, rule iffI)
      fix fb assume "fb \<in> set (map snd is)"
      then obtain i where i: "i \<in> set is" "fb = snd i" by auto
      then have "fb = ?f (?idx fb)" "?idx fb < n" using got by simp_all
      then show "fb \<in> set (map ?f [0..<n])"
        unfolding set_map by (intro image_eqI [of fb ?f "?idx fb"]) (assumption, simp)
    next
      fix fb assume "fb \<in> set (map ?f [0..<n])"
      then obtain j where "j < n" "fb = ?f j" unfolding set_map set_upt atLeastLessThan_iff image_iff by (elim bexE) simp_all
      then show "fb \<in> set (map snd is)" using some(3) by blast
    qed
    ultimately show "mset (map snd is) = mset (map ?f [0..<n])"
      using dist set_eq_iff_mset_eq_distinct by blast
    show "inj_on ?idx (set (map snd is))" using assms(6) by (auto simp: distinct_map inj_on_def)
    have "map ?idx (map ?f [0..<n]) = [0..<n]" 
      unfolding map_map by (rule map_idI) (simp add: some(2))
    then show "sorted (map ?idx (map ?f [0..<n]))" by (simp only: sorted_upt)
  qed
  with stream show ?thesis by simp
qed

text \<open>
  Reordering. When a payload starts and its flashblocks of index 0 to n - 1 arrive in any
  order, each once, the stream delivers them all, sorted by their index.
\<close>

theorem complete_payload_sorted:
  assumes "buffer_wf st" and "s_payload_id st \<noteq> pid" and "0 < n"
    and "n \<le> Suc MAX_FLASHBLOCK_INDEX"
    and "\<And>i. i \<in> set is \<Longrightarrow> p_payload_id (snd i) = pid \<and> fits_frame encode_msg i"
    and "distinct (map (\<lambda>i. unat (p_index (snd i))) is)"
    and "set (map (\<lambda>i. unat (p_index (snd i))) is) = {0..<n}"
  shows "streamed (snd (run (publish_step encode_msg) st is)) =
    sort_key (\<lambda>fb. unat (p_index fb)) (map snd is)"
  using assms by (rule complete_payload)

theorem complete_payload_sorted_witness:
  "streamed (snd (run (publish_step probe_bytes) default_p2p_state
     [(1, probe 7 2), (2, probe 7 0), (3, probe 7 1)])) = [probe 7 0, probe 7 1, probe 7 2]"
proof -
  have "streamed (snd (run (publish_step probe_bytes) default_p2p_state
      [(1, probe 7 2), (2, probe 7 0), (3, probe 7 1)])) =
    sort_key (\<lambda>fb. unat (p_index fb)) (map snd [(1 :: i64, probe 7 2), (2, probe 7 0), (3, probe 7 1)])"
    by (rule complete_payload_sorted [where pid = 7 and n = 3]) (auto simp: MAX_FLASHBLOCK_INDEX_def)
  then show ?thesis by simp
qed

section \<open>Relaying to the peers\<close>

definition peer_index :: "PeerMsg \<Rightarrow> nat" where
  "peer_index m = (case m of PeerFlashblocksPayload _ idx _ \<Rightarrow> idx)"

definition relay_history ::
  "((FlashblockMetadata, 'w, 'b) FlashblocksP2PMsg \<Rightarrow> bytes) \<Rightarrow> payload_id \<Rightarrow>
     ('w, 'b) FlashblocksP2PState \<Rightarrow> ('w, 'b) effect list \<Rightarrow> bool" where
  "relay_history encode_msg pid st h \<longleftrightarrow>
     buffer_wf st \<and> distinct (map peer_index (sent_to_peers h)) \<and>
     (\<forall>m \<in> set (sent_to_peers h). \<exists>fb. s_payload_id st = pid \<and> cached st (peer_index m) = Some fb \<and>
        m = PeerFlashblocksPayload pid (peer_index m) (encode_msg (FlashblocksPayloadMsg fb)))"

lemma relay_history_publish:
  assumes "p_payload_id fb = pid" and "relay_history enc pid st h"
  shows "relay_history enc pid (fst (publish enc now st fb)) (h @ snd (publish enc now st fb))"
proof -
  let ?st = "track_payload st fb" and ?idx = "unat (p_index fb)"
  have wf: "buffer_wf st" and wf': "buffer_wf ?st"
    and h: "distinct (map peer_index (sent_to_peers h))"
    "\<And>m. m \<in> set (sent_to_peers h) \<Longrightarrow> \<exists>fb. s_payload_id st = pid \<and>
       cached st (peer_index m) = Some fb \<and>
       m = PeerFlashblocksPayload pid (peer_index m) (enc (FlashblocksPayloadMsg fb))"
    using assms(2) by (auto simp: relay_history_def)
  have old: "\<exists>fb. s_payload_id ?st = pid \<and> cached ?st (peer_index m) = Some fb \<and>
      m = PeerFlashblocksPayload pid (peer_index m) (enc (FlashblocksPayloadMsg fb))"
    if "m \<in> set (sent_to_peers h)" for m
    using h(2) [OF that] assms(1) by (simp add: track_same)
  show ?thesis
  proof (cases rule: publish_cases [where enc = enc and now = now and st = st and fb = fb])
    case oversized
    have "buffer_wf (insert_flashblock ?st fb)" using wf' oversized(1) by (simp add: buffer_wf_insert)
    then show ?thesis using old h(1) oversized assms(1)
      by (fastforce simp: relay_history_def cached_insert)
  next
    case (accepted st' events)
    have "buffer_wf (insert_flashblock ?st fb)" using wf' accepted(1) by (simp add: buffer_wf_insert)
    note emits = emit_ready_emits(1,2,4) [OF accepted(4) this]
    have "peer_index m \<noteq> ?idx" if "m \<in> set (sent_to_peers h)" for m
      using old [OF that] accepted(2) by auto
    then show ?thesis using old h(1) accepted assms(1) emits
      by (fastforce simp: relay_history_def cached_insert peer_index_def [of "PeerFlashblocksPayload _ _ _"])
  qed (use wf' old h(1) in \<open>simp_all add: relay_history_def\<close>)
qed

interpretation relay:
  machine "publish_step encode_msg" "\<lambda>i. p_payload_id (snd i) = pid" "relay_history encode_msg pid"
  for encode_msg pid
proof (unfold_locales, goal_cases)
  case (1 i s h)
  then show ?case by (cases i) (simp add: relay_history_publish)
qed

text \<open>
  Relaying. Over any publications of one payload, with duplicates and in any order, the
  connections are sent at most one message per index, and each message is the encoding of the
  flashblock the buffer holds at that index.
\<close>

theorem relayed_at_most_once:
  assumes "buffer_wf st" and "\<And>i. i \<in> set is \<Longrightarrow> p_payload_id (snd i) = pid"
  shows "let r = run (publish_step encode_msg) st is in
    distinct (map peer_index (sent_to_peers (snd r))) \<and>
    (\<forall>m \<in> set (sent_to_peers (snd r)). \<exists>fb. cached (fst r) (peer_index m) = Some fb \<and>
       m = PeerFlashblocksPayload pid (peer_index m) (encode_msg (FlashblocksPayloadMsg fb)))"
proof -
  have "relay_history encode_msg pid st []" using assms(1) by (simp add: relay_history_def)
  from relay.run_from_start [OF assms(2) this]
  show ?thesis unfolding relay_history_def Let_def by blast
qed

theorem relayed_at_most_once_witness:
  "distinct (map peer_index (sent_to_peers (snd (run (publish_step probe_bytes) default_p2p_state
     [(1, probe 7 0), (2, probe 7 0), (3, probe 7 1)]))))"
proof -
  let ?is = "[(1 :: i64, probe 7 0), (2, probe 7 0), (3, probe 7 1)]"
  have "p_payload_id (snd i) = 7" if "i \<in> set ?is" for i using that by auto
  from relayed_at_most_once [OF buffer_wf_default this, of ?is probe_bytes]
  show ?thesis by (simp only: Let_def)
qed

section \<open>Subscribers\<close>

lemma snapshot_settled: "settled st \<Longrightarrow> stream_snapshot st = emitted st"
  unfolding stream_snapshot_def emitted_def
  by (rule map_while_some_prefix) (auto simp: settled_def buffer_wf_def cached_def split: if_splits)

lemma received_until_lag_Ok [simp]:
  "received_until_lag (map Ok xs @ ys) = xs @ received_until_lag ys"
  "received_until_lag (map Ok xs) = xs"
  by (induction xs) simp_all

text \<open>
  A late subscriber. A subscriber that joins after any publications, with nothing published
  between its snapshot and its subscription and no lag, reads a contiguous end of the whole
  stream, in order, from the first flashblock of the current payload on.
\<close>

theorem late_subscriber_reads_suffix:
  assumes "\<And>i. i \<in> set is \<Longrightarrow> fits_frame encode_msg i"
    and "run (publish_step encode_msg) default_p2p_state is = (st, before)"
    and "run (publish_step encode_msg) st js = (st', after)"
  shows "(\<exists>past. streamed (before @ after) = past @ flashblock_stream st (map Ok (streamed after)))
    \<and> in_order (flashblock_stream st (map Ok (streamed after)))"
proof -
  have start: "implements default_p2p_state (0, \<lambda>_. None)" "stream_history default_p2p_state []"
    by (simp add: implements_def settled_def stream_history_def;
        simp add: default_p2p_state_def cached_def emitted_def in_order_def fun_eq_iff)+
  have "implements (fst (run (publish_step encode_msg) default_p2p_state is))
      (fst (run deliver_spec (0, \<lambda>_. None) is))"
    by (rule delivery.run_simulates [THEN conjunct1]) (use assms(1) start in auto)
  with assms(2) have settled: "settled st" by (simp add: implements_def)
  from stream.run_from_start [OF TrueI start(2), of encode_msg "is"] assms(2)
  obtain past where past: "streamed before = past @ emitted st" by (auto simp: stream_history_def)
  have "stream_history st (map ToStream (emitted st))"
    using settled by (auto simp: stream_history_def settled_def in_order_def intro!: exI [of _ "[]"])
  from stream.run_hist [OF TrueI this, of encode_msg js] assms(3)
  have "in_order (emitted st @ streamed after)"
    by (auto simp: stream_history_def) (metis in_order_append emitted_in_order)
  then show ?thesis using past settled by (simp add: flashblock_stream_def snapshot_settled)
qed

theorem late_subscriber_reads_suffix_witness:
  "in_order (flashblock_stream (fst (run (publish_step probe_bytes) default_p2p_state
     [(1, probe 7 1), (2, probe 7 0)]))
     (map Ok (streamed (snd (run (publish_step probe_bytes) (fst (run (publish_step probe_bytes)
        default_p2p_state [(1, probe 7 1), (2, probe 7 0)])) [(3, probe 7 2)]))) ::
      (unit, (unit, unit) flashblock) result list))"
  by (rule late_subscriber_reads_suffix
      [OF _ surjective_pairing surjective_pairing, THEN conjunct2]) simp

section \<open>Where the delivery falls short\<close>

text \<open>Two steps of the delivery: the start of a payload, and its next flashblock.\<close>

lemma deliver_start:
  assumes "p_payload_id fb \<noteq> pid" and "unat (p_index fb) = 0"
  shows "deliver_spec (pid, m) (now, fb) = ((p_payload_id fb, (\<lambda>_. None)(0 \<mapsto> fb)), [fb])"
proof -
  have "first_gap (\<lambda>_. None :: ('a, 'b) flashblock option) = 0" by (rule first_gap_eq) auto
  moreover have "first_gap ((\<lambda>_. None)(0 \<mapsto> fb)) = 1" by (rule first_gap_eq) auto
  ultimately show ?thesis using assms by (simp add: deliver_spec_def Let_def)
qed

text \<open>
  a late flashblock replays a payload. The state is reset by every flashblock of another
  payload than the tracked one, also by one of the payload before: when the flashblocks of two
  payloads arrive interleaved, as they do from two peers, subscribers read both payloads again
  and again although each repeated flashblock was streamed before.
\<close>

theorem late_flashblock_replays_payload:
  assumes "p_payload_id a \<noteq> p_payload_id b" and "p_payload_id a \<noteq> 0"
    and "p_index a = 0" and "p_index b = 0"
    and "\<And>now. fits_frame encode_msg (now, a)" and "\<And>now. fits_frame encode_msg (now, b)"
  shows "streamed (snd (run (publish_step encode_msg) default_p2p_state
    [(t1, a), (t2, b), (t3, a), (t4, b)])) = [a, b, a, b]"
proof -
  note start = implements_default
  have "streamed (snd (run (publish_step encode_msg) default_p2p_state
      [(t1, a), (t2, b), (t3, a), (t4, b)])) =
    snd (run deliver_spec (0, \<lambda>_. None) [(t1, a), (t2, b), (t3, a), (t4, b)])"
    by (rule delivery.run_simulates [OF _ start, THEN conjunct2]) (use assms in auto)
  also have "\<dots> = [a, b, a, b]"
    using assms(1-4) by (simp add: run.simps deliver_start del: run_Cons_snd)
  finally show ?thesis .
qed

theorem late_flashblock_replays_payload_witness:
  "streamed (snd (run (publish_step probe_bytes) default_p2p_state
    [(1, probe 7 0), (2, probe 8 0), (3, probe 7 0), (4, probe 8 0)])) =
   [probe 7 0, probe 8 0, probe 7 0, probe 8 0]"
  by (rule late_flashblock_replays_payload) simp_all

text \<open>
  The subscription gap. The snapshot is taken under the mutex, but the subscription happens
  after the mutex is released: what is streamed in between is in neither part. The subscriber
  then reads index 0 followed by index 2 of one payload, out of order.
\<close>

theorem subscription_gap_loses_flashblock:
  assumes "p_payload_id a \<noteq> 0" and "p_payload_id b = p_payload_id a" and "p_payload_id c = p_payload_id a"
    and "p_index a = 0" and "p_index b = 1" and "p_index c = 2"
    and "\<And>now. fits_frame encode_msg (now, a)" and "\<And>now. fits_frame encode_msg (now, b)"
    and "\<And>now. fits_frame encode_msg (now, c)"
    and "run (publish_step encode_msg) default_p2p_state [(t1, a)] = (snapshotted, before)"
    and "run (publish_step encode_msg) snapshotted [(t2, b)] = (subscribed, missed)"
    and "run (publish_step encode_msg) subscribed [(t3, c)] = (st, after)"
  shows "flashblock_stream snapshotted (map Ok (streamed after)) = [a, c] \<and>
    \<not> in_order (flashblock_stream snapshotted (map Ok (streamed after)))" (is "?read = _ \<and> \<not> in_order ?read'")
proof -
  let ?m1 = "(\<lambda>_. None)(0 \<mapsto> a)" let ?m2 = "?m1(Suc 0 \<mapsto> b)" let ?m3 = "?m2(2 \<mapsto> c)"
  note start = implements_default
  have gaps: "first_gap ?m1 = 1" "first_gap ?m2 = 2" "first_gap ?m3 = 3"
    by (rule first_gap_eq; force simp: MAX_FLASHBLOCK_INDEX_def less_Suc_eq numeral_eq_Suc)+
  have spec2: "deliver_spec (p_payload_id a, ?m1) (t2, b) = ((p_payload_id a, ?m2), [b])"
    using assms(2,5) gaps by (simp add: deliver_spec_def Let_def MAX_FLASHBLOCK_INDEX_def upt_conv_Cons)
  have spec3: "deliver_spec (p_payload_id a, ?m2) (t3, c) = ((p_payload_id a, ?m3), [c])"
    using assms(3,6) gaps
    by (simp add: deliver_spec_def Let_def MAX_FLASHBLOCK_INDEX_def upt_conv_Cons fun_upd_twist)
  have s1: "implements snapshotted (p_payload_id a, ?m1)" "streamed before = [a]"
    using implements_step [OF assms(7) [of t1] start] assms(10) deliver_start [of a 0 "\<lambda>_. None" t1] assms(1,4)
    by (simp_all add: run.simps split: prod.splits)
  have s2: "implements subscribed (p_payload_id a, ?m2)"
    using implements_step [OF assms(8) [of t2] s1(1)] assms(11) spec2
    by (simp add: run.simps split: prod.splits)
  have s3: "streamed after = [c]"
    using implements_step [OF assms(9) [of t3] s2] assms(12) spec3
    by (simp add: run.simps split: prod.splits)
  have settled: "settled snapshotted" and cch: "cached snapshotted = ?m1"
    using s1(1) by (simp_all add: implements_def)
  have "s_flashblock_index snapshotted = 1"
    using settled_first_gap [OF settled] gaps(1) unfolding cch by simp
  then have "stream_snapshot snapshotted = [a]"
    using settled cch by (simp add: snapshot_settled) (simp add: settled_def emitted_conv_cached)
  then have "?read = [a, c]" "?read' = [a, c]"
    by (simp_all add: flashblock_stream_def s3)
  moreover have "\<not> in_order [a, c]" using assms(4,6) by (simp add: in_order_def follows_def)
  ultimately show ?thesis by simp
qed

text \<open>Three flashblocks of one payload: the second one falls into the gap.\<close>

theorem subscription_gap_loses_flashblock_witness:
  "let first = fst (run (publish_step probe_bytes) default_p2p_state [(1, probe 7 0)]);
       gap = fst (run (publish_step probe_bytes) first [(2, probe 7 1)]);
       after = snd (run (publish_step probe_bytes) gap [(3, probe 7 2)])
   in flashblock_stream first (map Ok (streamed after) :: (unit, (unit, unit) flashblock) result list) =
     [probe 7 0, probe 7 2]"
proof -
  let ?first = "run (publish_step probe_bytes) default_p2p_state [(1, probe 7 0)]"
  let ?gap = "run (publish_step probe_bytes) (fst ?first) [(2, probe 7 1)]"
  let ?last = "run (publish_step probe_bytes) (fst ?gap) [(3, probe 7 2)]"
  have "flashblock_stream (fst ?first) (map Ok (streamed (snd ?last)) :: (unit, (unit, unit) flashblock) result list) =
      [probe 7 0, probe 7 2]"
    by (rule subscription_gap_loses_flashblock [where a = "probe 7 0" and b = "probe 7 1" and c = "probe 7 2"
        and encode_msg = probe_bytes and ?t1.0 = 1 and ?t2.0 = 2 and ?t3.0 = 3
        and snapshotted = "fst ?first" and before = "snd ?first"
        and subscribed = "fst ?gap" and missed = "snd ?gap" and st = "fst ?last" and after = "snd ?last",
        THEN conjunct1]) (simp_all del: run_Cons_fst run_Cons_snd)
  then show ?thesis by (simp add: Let_def)
qed

end
