(* ===== verification/Connection.thy ===== *)
theory Connection
  imports P2P
begin

text \<open>
  One peer connection, \<^verbatim>\<open>src/flashblocks/connection.rs\<close>: the handler of a received flashblock,
  the poll loop that interleaves the outgoing queue with the peer's messages, and two nodes
  connected by it.

  The codec of messages is a parameter (theories \<open>Codec\<close> and \<open>Wire\<close>), and so is what the broadcast
  channel of tokio does to this connection's own queue when a message is sent (\<open>deliver\<close>).
\<close>

section \<open>State\<close>

record FlashblocksConnection =
  c_payload_id :: payload_id
  c_received :: "bool list"

definition new_connection :: FlashblocksConnection where
  "new_connection = \<lparr>c_payload_id = 0, c_received = []\<rparr>"

datatype ReputationChangeKind = BadMessage | AlreadySeenTransaction

datatype ('w, 'b) conn_effect =
    ReputationChange ReputationChangeKind
  | Published "('w, 'b) effect"

section \<open>The handler of a flashblock\<close>

text \<open>
  The latency is an \<open>i64\<close> subtraction whose result is discarded. A debug build panics when it
  overflows; a release build wraps.
\<close>

definition latency_overflows :: "i64 \<Rightarrow> i64 \<Rightarrow> bool" where
  "latency_overflows now ts \<longleftrightarrow> \<not> (- (2 ^ 63) \<le> sint now - sint ts \<and> sint now - sint ts < 2 ^ 63)"

definition track_peer_payload ::
  "FlashblocksConnection \<Rightarrow> ('w, 'b) flashblock \<Rightarrow> FlashblocksConnection" where
  "track_peer_payload conn payload =
     (if c_payload_id conn \<noteq> p_payload_id payload
      then conn\<lparr>c_payload_id := p_payload_id payload,
                c_received := map (\<lambda>_. False) (c_received conn)\<rparr>
      else conn)"

definition handle_flashblocks_payload_v1 ::
  "bool \<Rightarrow> ((FlashblockMetadata, 'w, 'b) FlashblocksP2PMsg \<Rightarrow> bytes) \<Rightarrow> i64 \<Rightarrow>
     FlashblocksConnection \<Rightarrow> ('w, 'b) FlashblocksP2PState \<Rightarrow> ('w, 'b) flashblock \<Rightarrow>
     ('e, FlashblocksConnection \<times> ('w, 'b) FlashblocksP2PState \<times> ('w, 'b) conn_effect list) result"
where
  "handle_flashblocks_payload_v1 debug encode_msg now conn state payload =
     (let conn = track_peer_payload conn payload;
          index = unat (p_index payload)
      in if MAX_FLASHBLOCK_INDEX < index then Ok (conn, state, [])
      else
        let required_len = index + 1;
            conn = conn\<lparr>c_received := grow_to required_len False (c_received conn)\<rparr>
        in if c_received conn ! index
        then Ok (conn, state, [ReputationChange AlreadySeenTransaction])
        else
          let conn = conn\<lparr>c_received := (c_received conn)[index := True]\<rparr>
          in if debug \<and> (\<exists>ts. m_flashblock_timestamp (p_metadata payload) = Some ts \<and> latency_overflows now ts)
          then Panic
          else
            let (state, effects) = publish encode_msg now state payload
            in Ok (conn, state, map Published effects))"

section \<open>The poll loop\<close>

text \<open>
  The queue \<open>peer_rx\<close> holds what the broadcast receiver yields: a message, or the error of a
  receiver that lagged behind.
\<close>

type_synonym peer_queue = "(unit, PeerMsg) result list"

text \<open>
  A poll ends with bytes for the peer, with the end of the stream, or pending. \<open>Pending armed\<close>
  records whether \<open>peer_rx\<close> was polled without an item ready during the poll, which is when the
  receiver has the task's waker.
\<close>

datatype poll = Pending bool | Ready "bytes option"

text \<open>The first half of an iteration: an item of the queue is sent, or dropped.\<close>

fun take_peer_msg :: "FlashblocksConnection \<Rightarrow> peer_queue \<Rightarrow> bytes option \<times> peer_queue" where
  "take_peer_msg conn [] = (None, [])"
| "take_peer_msg conn (Ok (PeerFlashblocksPayload payload_id flashblock_index bytes) # rx) =
     (if c_payload_id conn \<noteq> payload_id \<or> get (c_received conn) flashblock_index \<noteq> Some True
      then (Some bytes, rx) else (None, rx))"
| "take_peer_msg conn (_ # rx) = (None, rx)"

text \<open>
  \<open>poll_next\<close>. What a handled message sends to the connections is delivered to this connection's
  own queue as well. The inbox holds the messages that are ready on the connection, each with the clock
  reading at its handling; \<open>closed\<close> says that the connection has ended behind them. Every
  iteration of the loop consumes one of them or returns.
\<close>

fun published :: "('w, 'b) conn_effect list \<Rightarrow> ('w, 'b) effect list" where
  "published [] = []"
| "published (Published e # es) = e # published es"
| "published (ReputationChange k # es) = published es"

fun poll_next ::
  "bool \<Rightarrow> (FlashblockMetadata, 'w, 'b) FlashblocksP2PMsg codec \<Rightarrow>
     (peer_queue \<Rightarrow> PeerMsg list \<Rightarrow> peer_queue) \<Rightarrow> bool \<Rightarrow> bool \<Rightarrow>
     FlashblocksConnection \<Rightarrow> ('w, 'b) FlashblocksP2PState \<Rightarrow> peer_queue \<Rightarrow> (i64 \<times> bytes) list \<Rightarrow>
     ('e, (FlashblocksConnection \<times> ('w, 'b) FlashblocksP2PState \<times> peer_queue \<times> (i64 \<times> bytes) list)
        \<times> ('w, 'b) conn_effect list \<times> poll) result"
where
  "poll_next debug cod deliver closed armed conn state rx inbox =
     (case take_peer_msg conn rx of
        (Some bytes, rx') \<Rightarrow> Ok ((conn, state, rx', inbox), [], Ready (Some bytes))
      | (None, rx') \<Rightarrow>
        (let armed' = (armed \<or> rx = []) in
         case inbox of
           [] \<Rightarrow> Ok ((conn, state, rx', []), [], if closed then Ready None else Pending armed')
         | (now, buf) # inbox' \<Rightarrow>
           (case decode cod buf of
              Err error \<Rightarrow>
                Ok ((conn, state, rx', inbox'), [ReputationChange BadMessage], Ready None)
            | Panic \<Rightarrow> Panic
            | Ok (FlashblocksPayloadMsg payload, _) \<Rightarrow>
                bind_result
                  (handle_flashblocks_payload_v1 debug (encode cod) now conn state payload)
                  (\<lambda>(conn', state', effects).
                    bind_result
                      (poll_next debug cod deliver closed armed' conn' state'
                         (deliver rx' (sent_to_peers (published effects))) inbox')
                      (\<lambda>(final, later, res). Ok (final, effects @ later, res))))))"

declare poll_next.simps [simp del]

text \<open>What the channel does for a receiver that keeps up: the messages are appended.\<close>

definition append_msgs :: "peer_queue \<Rightarrow> PeerMsg list \<Rightarrow> peer_queue" where
  "append_msgs rx ms = rx @ map Ok ms"

section \<open>The handler, branch by branch\<close>

text \<open>The indices that count as received for a payload.\<close>

definition received_from :: "FlashblocksConnection \<Rightarrow> payload_id \<Rightarrow> nat set" where
  "received_from conn pid = {i. c_payload_id conn = pid \<and> get (c_received conn) i = Some True}"

definition bitmap_bounded :: "FlashblocksConnection \<Rightarrow> bool" where
  "bitmap_bounded conn \<longleftrightarrow> length (c_received conn) \<le> Suc MAX_FLASHBLOCK_INDEX"

definition panics_on :: "bool \<Rightarrow> i64 \<Rightarrow> ('w, 'b) flashblock \<Rightarrow> bool" where
  "panics_on debug now payload \<longleftrightarrow>
     debug \<and> (\<exists>ts. m_flashblock_timestamp (p_metadata payload) = Some ts \<and> latency_overflows now ts)"

lemma track_peer_payload_facts:
  "c_payload_id (track_peer_payload conn fb) = p_payload_id fb"
  "received_from (track_peer_payload conn fb) (p_payload_id fb) = received_from conn (p_payload_id fb)"
  "bitmap_bounded (track_peer_payload conn fb) = bitmap_bounded conn"
  by (auto simp: track_peer_payload_def received_from_def bitmap_bounded_def)

lemma grow_received:
  "received_from (conn\<lparr>c_received := grow_to n False (c_received conn)\<rparr>) pid = received_from conn pid"
  "n \<le> Suc MAX_FLASHBLOCK_INDEX \<Longrightarrow>
     bitmap_bounded (conn\<lparr>c_received := grow_to n False (c_received conn)\<rparr>) = bitmap_bounded conn"
  by (auto simp: received_from_def bitmap_bounded_def nth_grow_to split: if_splits)

lemma set_received:
  assumes "i < length (c_received conn)"
  shows "received_from (conn\<lparr>c_received := (c_received conn)[i := True]\<rparr>) (c_payload_id conn) =
      insert i (received_from conn (c_payload_id conn))"
    and "bitmap_bounded (conn\<lparr>c_received := (c_received conn)[i := True]\<rparr>) = bitmap_bounded conn"
  using assms by (auto simp: received_from_def bitmap_bounded_def nth_list_update split: if_splits)

lemma handle_cases [case_names bound duplicate panic forwarded]:
  obtains
    conn' where "MAX_FLASHBLOCK_INDEX < unat (p_index fb)"
      "(handle_flashblocks_payload_v1 debug enc now conn st fb :: ('e, _) result) = Ok (conn', st, [])"
      "c_payload_id conn' = p_payload_id fb"
      "received_from conn' (p_payload_id fb) = received_from conn (p_payload_id fb)"
      "bitmap_bounded conn' = bitmap_bounded conn"
  | conn' where "unat (p_index fb) \<le> MAX_FLASHBLOCK_INDEX"
      "unat (p_index fb) \<in> received_from conn (p_payload_id fb)"
      "(handle_flashblocks_payload_v1 debug enc now conn st fb :: ('e, _) result) =
         Ok (conn', st, [ReputationChange AlreadySeenTransaction])"
      "c_payload_id conn' = p_payload_id fb"
      "received_from conn' (p_payload_id fb) = received_from conn (p_payload_id fb)"
      "bitmap_bounded conn' = bitmap_bounded conn"
  | "unat (p_index fb) \<le> MAX_FLASHBLOCK_INDEX"
      "unat (p_index fb) \<notin> received_from conn (p_payload_id fb)" "panics_on debug now fb"
      "(handle_flashblocks_payload_v1 debug enc now conn st fb :: ('e, _) result) = Panic"
  | conn' where "unat (p_index fb) \<le> MAX_FLASHBLOCK_INDEX"
      "unat (p_index fb) \<notin> received_from conn (p_payload_id fb)" "\<not> panics_on debug now fb"
      "(handle_flashblocks_payload_v1 debug enc now conn st fb :: ('e, _) result) =
         Ok (conn', fst (publish enc now st fb), map Published (snd (publish enc now st fb)))"
      "c_payload_id conn' = p_payload_id fb"
      "received_from conn' (p_payload_id fb) =
         insert (unat (p_index fb)) (received_from conn (p_payload_id fb))"
      "bitmap_bounded conn' = bitmap_bounded conn"
proof -
  let ?i = "unat (p_index fb)" and ?pid = "p_payload_id fb"
  let ?c = "track_peer_payload conn fb"
  let ?c1 = "?c\<lparr>c_received := grow_to (?i + 1) False (c_received ?c)\<rparr>"
  let ?c2 = "?c1\<lparr>c_received := (c_received ?c1)[?i := True]\<rparr>"
  note c = track_peer_payload_facts [of conn fb]
  have c1: "c_payload_id ?c1 = ?pid" "received_from ?c1 ?pid = received_from conn ?pid"
    "?i \<le> MAX_FLASHBLOCK_INDEX \<Longrightarrow> bitmap_bounded ?c1 = bitmap_bounded conn"
    using c grow_received(2) [of "?i + 1" ?c] by (simp_all add: grow_received(1))
  have c2: "c_payload_id ?c2 = ?pid" "received_from ?c2 ?pid = insert ?i (received_from ?c1 ?pid)"
    "bitmap_bounded ?c2 = bitmap_bounded ?c1"
    using set_received [of ?i ?c1] c by simp_all
  have seen: "c_received ?c1 ! ?i \<longleftrightarrow> ?i \<in> received_from conn ?pid"
    unfolding c1(2) [symmetric] using c(1) by (simp add: received_from_def less_max_iff_disj)
  note unfolded = handle_flashblocks_payload_v1_def [of debug enc now conn st fb, unfolded Let_def]
  show thesis
  proof (cases "MAX_FLASHBLOCK_INDEX < ?i")
    case True
    show ?thesis by (rule that(1) [OF True _ c]) (simp add: unfolded True)
  next
    case False
    then have le: "?i \<le> MAX_FLASHBLOCK_INDEX" by simp
    show ?thesis
    proof (cases "?i \<in> received_from conn ?pid")
      case True
      show ?thesis
        by (rule that(2) [OF le True, of ?c1])
          (use False True seen c c1 in \<open>simp_all add: unfolded\<close>)
    next
      case new: False
      show ?thesis
      proof (cases "panics_on debug now fb")
        case True
        show ?thesis
          by (rule that(3) [OF le new True])
            (unfold unfolded, use False True new seen in \<open>simp add: panics_on_def\<close>)
      next
        case ok: False
        show ?thesis
          by (rule that(4) [OF le new ok, of ?c2])
            (use False ok new seen c c1 c2 le in \<open>simp_all add: unfolded panics_on_def case_prod_unfold\<close>)
      qed
    qed
  qed
qed

text \<open>A codec for the concrete polls: one byte of index, of payload 7.\<close>

definition probe_codec :: "(FlashblockMetadata, unit, unit) FlashblocksP2PMsg codec" where
  "probe_codec = \<lparr>encode = probe_bytes, encoded_length = (\<lambda>_. 1),
     decode = (\<lambda>buf. case buf of [] \<Rightarrow> Err InputTooShort
       | b # rest \<Rightarrow> Ok (FlashblocksPayloadMsg (probe 7 (ucast b)), rest))\<rparr>"

section \<open>A connection's sequence of flashblocks\<close>

text \<open>
  The handler over the flashblocks a peer sends, in a build whose arithmetic wraps: the pair of
  connection and shared state steps on each.
\<close>

definition handle_step ::
  "((FlashblockMetadata, 'w, 'b) FlashblocksP2PMsg \<Rightarrow> bytes) \<Rightarrow>
     FlashblocksConnection \<times> ('w, 'b) FlashblocksP2PState \<Rightarrow> i64 \<times> ('w, 'b) flashblock \<Rightarrow>
     (FlashblocksConnection \<times> ('w, 'b) FlashblocksP2PState) \<times> ('w, 'b) conn_effect list" where
  "handle_step enc s i =
     (case handle_flashblocks_payload_v1 False enc (fst i) (fst s) (snd s) (snd i) ::
             (unit, _) result of
        Ok (conn, st, es) \<Rightarrow> ((conn, st), es)
      | _ \<Rightarrow> (s, []))"

text \<open>
  What reaches the protocol, and what is penalised, with the payload of the last message and the indices of it
  that have come in since the peer turned to that payload: a message of another payload forgets them.
\<close>

abbreviation kept_for :: "payload_id \<Rightarrow> nat set \<Rightarrow> ('w, 'b) flashblock \<Rightarrow> nat set" where
  "kept_for pid seen fb \<equiv> if p_payload_id fb = pid then seen else {}"

fun forwarded ::
  "payload_id \<Rightarrow> nat set \<Rightarrow> (i64 \<times> ('w, 'b) flashblock) list \<Rightarrow> (i64 \<times> ('w, 'b) flashblock) list" where
  "forwarded pid seen [] = []"
| "forwarded pid seen (i # is) =
     (let fb = snd i; seen = kept_for pid seen fb in
      if MAX_FLASHBLOCK_INDEX < unat (p_index fb) \<or> unat (p_index fb) \<in> seen
      then forwarded (p_payload_id fb) seen is
      else i # forwarded (p_payload_id fb) (insert (unat (p_index fb)) seen) is)"

fun repeated :: "payload_id \<Rightarrow> nat set \<Rightarrow> (i64 \<times> ('w, 'b) flashblock) list \<Rightarrow> nat" where
  "repeated pid seen [] = 0"
| "repeated pid seen (i # is) =
     (let fb = snd i; seen = kept_for pid seen fb in
      if MAX_FLASHBLOCK_INDEX < unat (p_index fb) then repeated (p_payload_id fb) seen is
      else if unat (p_index fb) \<in> seen then Suc (repeated (p_payload_id fb) seen is)
      else repeated (p_payload_id fb) (insert (unat (p_index fb)) seen) is)"

definition penalties :: "ReputationChangeKind \<Rightarrow> ('w, 'b) conn_effect list \<Rightarrow> nat" where
  "penalties kind es = length (filter (\<lambda>e. case e of ReputationChange k \<Rightarrow> k = kind | _ \<Rightarrow> False) es)"

lemma published_append [simp]: "published (xs @ ys) = published xs @ published ys"
  by (induction xs rule: published.induct) simp_all

lemma published_map [simp]: "published (map Published es) = es"
  by (induction es) simp_all

lemma penalties_simps [simp]:
  "penalties k [] = 0" "penalties k (xs @ ys) = penalties k xs + penalties k ys"
  "penalties k (map Published os) = 0"
  "penalties k (ReputationChange k' # es) = (if k' = k then 1 else 0) + penalties k es"
  by (simp_all add: penalties_def filter_empty_conv)

lemma kept_received:
  "kept_for (c_payload_id conn) (received_from conn (c_payload_id conn)) fb = received_from conn (p_payload_id fb)"
  by (simp add: received_from_def)

lemma handle_run:
  "let r = run (handle_step enc) (conn, st) is;
      r' = run (publish_step enc) st (forwarded (c_payload_id conn) (received_from conn (c_payload_id conn)) is) in
    snd (fst r) = fst r' \<and> published (snd r) = snd r' \<and>
    penalties AlreadySeenTransaction (snd r) = repeated (c_payload_id conn) (received_from conn (c_payload_id conn)) is \<and>
    penalties BadMessage (snd r) = 0 \<and>
    (bitmap_bounded conn \<longrightarrow> bitmap_bounded (fst (fst r)))"
proof (induction "is" arbitrary: conn st)
  case Nil
  then show ?case by (simp add: Let_def)
next
  case (Cons i "is")
  obtain now fb where i: "i = (now, fb)" by fastforce
  note step = handle_step_def [of enc "(conn, st)" "(now, fb)"] and unfolded = Let_def i snd_conv kept_received forwarded.simps repeated.simps
  show ?case
  proof (cases rule: handle_cases [where debug = False and enc = enc and now = now and conn = conn
        and st = st and fb = fb and ?'e = unit])
    case (bound conn')
    with Cons.IH [of conn' st] show ?thesis unfolding unfolded by (simp add: Let_def step)
  next
    case (duplicate conn')
    with Cons.IH [of conn' st] show ?thesis unfolding unfolded by (simp add: Let_def step)
  next
    case panic
    then show ?thesis by (simp add: panics_on_def)
  next
    case (forwarded conn')
    with Cons.IH [of conn' "fst (publish enc now st fb)"] show ?thesis
      unfolding unfolded by (simp add: Let_def step)
  qed
qed

text \<open>
  C17: What a peer's flashblocks do. Over any sequence of flashblocks, of any payloads in any order, the shared
  state and the effects are those of publishing the first message of each index in range since the peer turned to
  the payload; a repeated message costs the peer one penalty and nothing else, and the bitmap of received indices
  stays within 101 entries. The bitmap is that of one payload: a message of another payload, also one whose index
  is out of range, empties it, so that a flashblock repeated after such a message goes to the protocol again
  and costs nothing.
\<close>

theorem connection_filters_duplicates:
  assumes "bitmap_bounded conn"
    and "run (handle_step encode_msg) (conn, st) is = ((conn', st'), effects)"
  shows "(st', published effects) = run (publish_step encode_msg) st
      (forwarded (c_payload_id conn) (received_from conn (c_payload_id conn)) is) \<and>
    penalties AlreadySeenTransaction effects = repeated (c_payload_id conn) (received_from conn (c_payload_id conn)) is \<and>
    penalties BadMessage effects = 0 \<and> length (c_received conn') \<le> 101"
  using handle_run [of encode_msg conn st "is"] assms
  by (simp add: Let_def prod_eq_iff bitmap_bounded_def MAX_FLASHBLOCK_INDEX_def)

text \<open>A repetition is penalised; after a flashblock of another payload it is forwarded again.\<close>

theorem connection_filters_duplicates_witness:
  "penalties AlreadySeenTransaction (snd (run (handle_step probe_bytes) (new_connection, default_p2p_state)
     [(1, probe 7 0), (2, probe 7 0), (3, probe 8 1), (4, probe 7 0)])) = 1 \<and>
   published (snd (run (handle_step probe_bytes) (new_connection, default_p2p_state)
     [(1, probe 7 0), (2, probe 7 0), (3, probe 8 1), (4, probe 7 0)])) =
   snd (run (publish_step probe_bytes) default_p2p_state [(1, probe 7 0), (3, probe 8 1), (4, probe 7 0)])"
proof -
  let ?is = "[(1 :: i64, probe 7 0), (2, probe 7 0), (3, probe 8 1), (4, probe 7 0)]"
  have "bitmap_bounded new_connection" by (simp add: bitmap_bounded_def new_connection_def)
  moreover obtain conn st effects where run:
    "run (handle_step probe_bytes) (new_connection, default_p2p_state) ?is = ((conn, st), effects)" by (metis surj_pair)
  ultimately have "(st, published effects) = run (publish_step probe_bytes) default_p2p_state (forwarded 0 {} ?is) \<and>
    penalties AlreadySeenTransaction effects = repeated 0 {} ?is"
    using connection_filters_duplicates [of new_connection probe_bytes default_p2p_state ?is conn st effects]
    by (simp add: received_from_def new_connection_def del: run_Cons_fst run_Cons_snd forwarded.simps repeated.simps)
  then show ?thesis
    by (simp add: run prod_eq_iff MAX_FLASHBLOCK_INDEX_def Let_def del: run_Cons_fst run_Cons_snd)
qed

section \<open>The poll loop, step by step\<close>

lemma sent_publish:
  "sent_to_peers (snd (publish enc now st fb)) =
     (if unat (p_index fb) \<le> MAX_FLASHBLOCK_INDEX \<and> fits_frame enc (now, fb) \<and>
         cached (track_payload st fb) (unat (p_index fb)) = None
      then [PeerFlashblocksPayload (p_payload_id fb) (unat (p_index fb)) (enc (FlashblocksPayloadMsg fb))]
      else [])"
  by (cases rule: publish_cases [where enc = enc and now = now and st = st and fb = fb])
    (auto simp: fits_frame_def)

text \<open>A queue that holds at most an echo of what this peer has sent.\<close>

definition quiet :: "FlashblocksConnection \<Rightarrow> peer_queue \<Rightarrow> bool" where
  "quiet conn rx \<longleftrightarrow> rx = [] \<or>
     (\<exists>idx b. rx = [Ok (PeerFlashblocksPayload (c_payload_id conn) idx b)] \<and>
        idx \<in> received_from conn (c_payload_id conn))"

lemma quiet_take: "quiet conn rx \<Longrightarrow> take_peer_msg conn rx = (None, [])"
  by (auto simp: quiet_def received_from_def)

lemma handle_not_Err: "handle_flashblocks_payload_v1 debug enc now conn st fb \<noteq> Err e"
  by (simp add: handle_flashblocks_payload_v1_def Let_def case_prod_unfold)

lemma handle_quiet:
  assumes "handle_flashblocks_payload_v1 debug enc now conn st fb = (Ok (conn', st', es) :: ('e, _) result)"
  shows "quiet conn' (append_msgs [] (sent_to_peers (published es)))"
proof (cases rule: handle_cases [where debug = debug and enc = enc and now = now and conn = conn
      and st = st and fb = fb and ?'e = 'e])
  case (forwarded c)
  then have "c = conn'" "es = map Published (snd (publish enc now st fb))" using assms by simp_all
  moreover have "sent_to_peers (snd (publish enc now st fb)) = [] \<or>
      (\<exists>b. sent_to_peers (snd (publish enc now st fb)) =
        [PeerFlashblocksPayload (p_payload_id fb) (unat (p_index fb)) b])"
    by (simp add: sent_publish)
  ultimately show ?thesis using forwarded(5,6) by (auto simp: quiet_def append_msgs_def)
qed (use assms in \<open>simp_all add: quiet_def append_msgs_def\<close>)

lemma poll_quiet_Nil:
  assumes "quiet conn rx"
  shows "poll_next debug cod deliver closed armed conn st rx [] =
    Ok ((conn, st, [], []), [], if closed then Ready None else Pending (armed \<or> rx = []))"
  using quiet_take [OF assms] by (simp add: poll_next.simps)

lemma poll_quiet_Cons:
  assumes "quiet conn rx" and "decode cod buf = Ok (FlashblocksPayloadMsg fb, rest)"
    and "handle_flashblocks_payload_v1 debug (encode cod) now conn st fb = (Ok (conn', st', es) :: ('e, _) result)"
  shows "poll_next debug cod deliver closed armed conn st rx ((now, buf) # inbox) =
    bind_result (poll_next debug cod deliver closed (armed \<or> rx = []) conn' st'
        (deliver [] (sent_to_peers (published es))) inbox)
      (\<lambda>(final, later, res). Ok (final, es @ later, res) :: ('e, _) result)"
  using quiet_take [OF assms(1)] assms(2,3)
  by (subst poll_next.simps) (simp del: bind_result_eq_Ok)

lemma poll_quiet_bad:
  assumes "quiet conn rx" and "decode cod buf = Err e"
  shows "poll_next debug cod deliver closed armed conn st rx ((now, buf) # inbox) =
    Ok ((conn, st, [], inbox), [ReputationChange BadMessage], Ready None)"
  using quiet_take [OF assms(1)] assms(2) by (subst poll_next.simps) simp

lemma poll_quiet_panic:
  assumes "quiet conn rx"
    and "decode cod buf = Panic \<or> (\<exists>fb rest. decode cod buf = Ok (FlashblocksPayloadMsg fb, rest) \<and>
      handle_flashblocks_payload_v1 debug (encode cod) now conn st fb = (Panic :: ('e, _) result))"
  shows "poll_next debug cod deliver closed armed conn st rx ((now, buf) # inbox) = (Panic :: ('e, _) result)"
  using quiet_take [OF assms(1)] assms(2) by (subst poll_next.simps) auto

text \<open>A handled flashblock is sent on at most once, which the channel of the code takes into an empty queue.\<close>

lemma handle_sends_one:
  assumes "handle_flashblocks_payload_v1 debug enc now conn st fb = (Ok (conn', st', es) :: ('e, _) result)"
  shows "length (sent_to_peers (published es)) \<le> 1"
  using assms
  by (cases rule: handle_cases [where debug = debug and enc = enc and now = now and conn = conn and st = st and fb = fb and ?'e = 'e])
    (auto simp: sent_publish)

text \<open>A poll with a quiet queue never sends bytes to the peer.\<close>

lemma quiet_poll_sends_nothing:
  assumes "quiet conn rx"
    and "poll_next debug cod append_msgs closed armed conn st rx inbox = (Ok (final, es, res) :: ('e, _) result)"
  shows "res \<noteq> Ready (Some bytes)"
  using assms
proof (induction inbox arbitrary: armed conn st rx final es res)
  case Nil
  then show ?case by (auto simp: poll_quiet_Nil split: if_splits)
next
  case (Cons i inbox)
  obtain now buf where i: "i = (now, buf)" by fastforce
  show ?case
  proof (cases "decode cod buf")
    case (Ok d)
    then obtain fb rest where d: "decode cod buf = Ok (FlashblocksPayloadMsg fb, rest)"
      by (metis FlashblocksP2PMsg.exhaust surj_pair)
    show ?thesis
    proof (cases "handle_flashblocks_payload_v1 debug (encode cod) now conn st fb :: ('e, _) result")
      case (Ok r)
      then obtain conn' st' es' where
        r: "handle_flashblocks_payload_v1 debug (encode cod) now conn st fb = (Ok (conn', st', es') :: ('e, _) result)"
        by (metis prod_cases3)
      from Cons.prems(2) show ?thesis
        unfolding i poll_quiet_Cons [OF Cons.prems(1) d r]
        by (auto dest: Cons.IH [OF handle_quiet [OF r]])
    next
      case (Err e)
      then show ?thesis by (simp add: handle_not_Err)
    next
      case Panic
      with d have "poll_next debug cod append_msgs closed armed conn st rx ((now, buf) # inbox) =
          (Panic :: ('e, _) result)" by (intro poll_quiet_panic [OF Cons.prems(1)]) blast
      then show ?thesis using Cons.prems(2) unfolding i by simp
    qed
  next
    case (Err e)
    then show ?thesis using Cons.prems(2) unfolding i by (auto simp: poll_quiet_bad [OF Cons.prems(1)])
  next
    case Panic
    then have "poll_next debug cod append_msgs closed armed conn st rx ((now, buf) # inbox) =
        (Panic :: ('e, _) result)" by (intro poll_quiet_panic [OF Cons.prems(1)]) simp
    then show ?thesis using Cons.prems(2) unfolding i by simp
  qed
qed

text \<open>
  No echo. A poll that starts with an empty queue never sends anything back to the peer,
  whatever the peer's messages are: each flashblock the node takes from this peer and relays
  comes back on the connection's own queue and is dropped there.
\<close>

theorem no_echo:
  "(poll_next debug cod append_msgs closed armed conn state [] inbox :: ('e, _) result)
     \<noteq> Ok (final, effects, Ready (Some bytes))"
  using quiet_poll_sends_nothing [of conn "[]" debug cod closed armed state inbox final effects
      "Ready (Some bytes)" bytes, where ?'e = 'e]
  by (auto simp: quiet_def)

section \<open>Two nodes\<close>

text \<open>The bytes that go over the wire.\<close>

definition wire_bytes :: "PeerMsg \<Rightarrow> bytes" where
  "wire_bytes m = (case m of PeerFlashblocksPayload _ _ bytes \<Rightarrow> bytes)"

text \<open>
  The receiving node follows the sending one: both states deliver the same abstract map, and the
  connection has received exactly what the map holds.
\<close>

definition mirrors ::
  "('w, 'b) FlashblocksP2PState \<Rightarrow> FlashblocksConnection \<Rightarrow> ('w, 'b) FlashblocksP2PState \<Rightarrow> bool" where
  "mirrors sta conn stb \<longleftrightarrow>
     settled sta \<and> settled stb \<and> s_payload_id stb = s_payload_id sta \<and> cached stb = cached sta \<and>
     c_payload_id conn = s_payload_id sta \<and>
     (\<forall>i. i \<in> received_from conn (s_payload_id sta) \<longleftrightarrow> cached sta i \<noteq> None)"

lemma mirrors_received:
  assumes "mirrors sta conn stb"
  shows "i \<in> received_from conn (p_payload_id fb) \<longleftrightarrow> cached (track_payload sta fb) i \<noteq> None"
  using assms by (auto simp: mirrors_def cached_track received_from_def)

lemma mirrors_accepted:
  assumes "mirrors sta conn stb" and "fits_frame enc (now, fb)"
    and "unat (p_index fb) \<le> MAX_FLASHBLOCK_INDEX"
    and "cached (track_payload sta fb) (unat (p_index fb)) = None"
  shows "\<exists>conn'. (handle_flashblocks_payload_v1 False enc now' conn stb fb :: ('e, _) result) =
      Ok (conn', fst (publish enc now' stb fb), map Published (snd (publish enc now' stb fb))) \<and>
      mirrors (fst (publish enc now sta fb)) conn' (fst (publish enc now' stb fb))"
    and "streamed (snd (publish enc now' stb fb)) = streamed (snd (publish enc now sta fb))"
    and "sent_to_peers (snd (publish enc now' stb fb)) = sent_to_peers (snd (publish enc now sta fb))"
proof -
  have a: "settled sta" "settled stb" "s_payload_id stb = s_payload_id sta" "cached stb = cached sta"
    using assms(1) by (simp_all add: mirrors_def)
  have tracks: "cached (track_payload stb fb) = cached (track_payload sta fb)"
    by (simp add: fun_eq_iff cached_track a)
  have fits: "fits_frame enc (now', fb)" using assms(2) by (simp add: fits_frame_def)
  note acc = publish_accepted [OF a(1) assms(2-4)]
    publish_accepted [OF a(2) fits assms(3), unfolded tracks, OF assms(4)]
  have wf: "buffer_wf sta" "buffer_wf stb" using a(1,2) by (simp_all add: settled_def)
  have new: "unat (p_index fb) \<notin> received_from conn (p_payload_id fb)"
    using mirrors_received [OF assms(1)] assms(4) by simp
  show "\<exists>conn'. (handle_flashblocks_payload_v1 False enc now' conn stb fb :: ('e, _) result) =
      Ok (conn', fst (publish enc now' stb fb), map Published (snd (publish enc now' stb fb))) \<and>
      mirrors (fst (publish enc now sta fb)) conn' (fst (publish enc now' stb fb))"
  proof (cases rule: handle_cases [where debug = False and enc = enc and now = now' and conn = conn
        and st = stb and fb = fb and ?'e = 'e])
    case (forwarded conn')
    then have "mirrors (fst (publish enc now sta fb)) conn' (fst (publish enc now' stb fb))"
      using acc mirrors_received [OF assms(1), of _ fb]
      by (simp add: mirrors_def publish_payload_id wf)
    with forwarded show ?thesis by blast
  qed (use assms(3) new in \<open>simp_all add: panics_on_def\<close>)
  have "implements stb (s_payload_id sta, cached sta)" "implements sta (s_payload_id sta, cached sta)"
    using a by (simp_all add: implements_def)
  from implements_step [OF fits this(1)] implements_step [OF assms(2) this(2)]
  show "streamed (snd (publish enc now' stb fb)) = streamed (snd (publish enc now sta fb))"
    by (simp add: deliver_spec_def)
  show "sent_to_peers (snd (publish enc now' stb fb)) = sent_to_peers (snd (publish enc now sta fb))"
    by (simp add: sent_publish tracks fits_frame_def)
qed

lemma nodes_run:
  assumes "\<And>ms. length ms \<le> 1 \<Longrightarrow> deliver [] ms = append_msgs [] ms"
    and "rlp_codec cod valid"
    and "mirrors sta conn stb" and "quiet conn rx"
    and "\<And>i. i \<in> set is \<Longrightarrow> valid (FlashblocksPayloadMsg (snd i)) \<and> fits_frame (encode cod) i \<and>
      unat (p_index (snd i)) \<le> MAX_FLASHBLOCK_INDEX"
    and "map snd inbox =
      map wire_bytes (sent_to_peers (snd (run (publish_step (encode cod)) sta is)))"
  shows "\<exists>conn' stb' es armed'.
    (poll_next False cod deliver False armed conn stb rx inbox :: ('e, _) result) =
      Ok ((conn', stb', [], []), es, Pending armed') \<and>
    mirrors (fst (run (publish_step (encode cod)) sta is)) conn' stb' \<and>
    streamed (published es) = streamed (snd (run (publish_step (encode cod)) sta is)) \<and>
    sent_to_peers (published es) = sent_to_peers (snd (run (publish_step (encode cod)) sta is)) \<and>
    penalties AlreadySeenTransaction es = 0 \<and> penalties BadMessage es = 0 \<and>
    (armed \<or> rx = [] \<longrightarrow> armed')"
  using assms(3-)
proof (induction "is" arbitrary: sta conn stb rx armed inbox)
  case Nil
  then show ?case by (simp add: poll_quiet_Nil)
next
  case (Cons i "is")
  obtain now fb where i: "i = (now, fb)" by fastforce
  let ?enc = "encode cod" and ?idx = "unat (p_index fb)"
  have fb: "valid (FlashblocksPayloadMsg fb)" "fits_frame ?enc (now, fb)" "?idx \<le> MAX_FLASHBLOCK_INDEX"
    using Cons.prems(3) [of i] i by simp_all
  have rest: "\<And>i. i \<in> set is \<Longrightarrow> valid (FlashblocksPayloadMsg (snd i)) \<and> fits_frame ?enc i \<and>
      unat (p_index (snd i)) \<le> MAX_FLASHBLOCK_INDEX" using Cons.prems(3) by simp
  show ?case
  proof (cases "cached (track_payload sta fb) ?idx = None")
    case False
    then have "publish ?enc now sta fb = (track_payload sta fb, [])" by (simp add: publish_ignored)
    moreover have "track_payload sta fb = sta"
      using False by (auto simp: cached_track track_same split: if_splits)
    ultimately have pub: "publish ?enc now sta fb = (sta, [])" by simp
    show ?thesis
      using Cons.IH [OF Cons.prems(1,2) rest, of inbox armed] Cons.prems(4) by (simp add: i pub)
  next
    case True
    note acc = mirrors_accepted(1) [OF Cons.prems(1) fb(2,3) True, where ?'e = 'e]
      mirrors_accepted(2,3) [OF Cons.prems(1) fb(2,3) True]
    let ?sta = "fst (publish ?enc now sta fb)"
    have sent: "sent_to_peers (snd (publish ?enc now sta fb)) =
        [PeerFlashblocksPayload (p_payload_id fb) ?idx (?enc (FlashblocksPayloadMsg fb))]"
      using fb True by (simp add: sent_publish)
    then obtain now' inbox' where inbox: "inbox = (now', ?enc (FlashblocksPayloadMsg fb)) # inbox'"
      and inbox': "map snd inbox' =
        map wire_bytes (sent_to_peers (snd (run (publish_step ?enc) ?sta is)))"
      using Cons.prems(4) by (cases inbox) (auto simp: i wire_bytes_def)
    have dec: "decode cod (?enc (FlashblocksPayloadMsg fb)) = Ok (FlashblocksPayloadMsg fb, [])"
      by (rule rlp_codec.decode_encode_all [OF assms(2) fb(1)])
    let ?stb = "fst (publish ?enc now' stb fb)"
    let ?es = "map Published (snd (publish ?enc now' stb fb))"
    obtain conn' where handle:
      "(handle_flashblocks_payload_v1 False ?enc now' conn stb fb :: ('e, _) result) = Ok (conn', ?stb, ?es)"
      and mirrors: "mirrors ?sta conn' ?stb" using acc(1) by blast
    have own: "deliver [] (sent_to_peers (published ?es)) = append_msgs [] (sent_to_peers (published ?es))"
      by (rule assms(1) [OF handle_sends_one [OF handle]])
    note IH = Cons.IH [OF mirrors handle_quiet [OF handle] rest inbox', of "armed \<or> rx = []"]
    show ?thesis
      using IH acc(2,3) [of now']
      unfolding inbox poll_quiet_Cons [OF Cons.prems(2) dec handle] own by (fastforce simp: i)
  qed
qed

text \<open>
  C18: End to end. One node publishes any flashblocks in range, in any order and of any payloads;
  the bytes it sends to its peers arrive at a second node's connection. Polling that connection
  decodes them all, penalises nothing, sends nothing back, and streams at the second node exactly
  what the first one streamed.
\<close>

theorem peer_delivery_end_to_end:
  assumes "rlp_codec cod valid"
    and "\<And>i. i \<in> set is \<Longrightarrow> valid (FlashblocksPayloadMsg (snd i)) \<and> fits_frame (encode cod) i \<and>
      unat (p_index (snd i)) \<le> MAX_FLASHBLOCK_INDEX"
    and "run (publish_step (encode cod)) default_p2p_state is = (sender, effects)"
    and "map snd inbox = map wire_bytes (sent_to_peers effects)"
  shows "\<exists>conn receiver es.
    (poll_next False cod append_msgs False False new_connection default_p2p_state [] inbox :: ('e, _) result) =
      Ok ((conn, receiver, [], []), es, Pending True) \<and>
    s_payload_id receiver = s_payload_id sender \<and> cached receiver = cached sender \<and>
    streamed (published es) = streamed effects \<and>
    penalties AlreadySeenTransaction es = 0 \<and> penalties BadMessage es = 0"
proof -
  have "mirrors default_p2p_state new_connection default_p2p_state"
    by (simp add: mirrors_def new_connection_def received_from_def)
  from nodes_run [OF _ assms(1) this _ assms(2), where deliver = append_msgs and ?is = "is" and rx = "[]" and inbox = inbox and armed = False and ?'e = 'e] assms(3,4)
  show ?thesis by (auto simp: quiet_def mirrors_def)
qed

lemma wire_example_fits:
  assumes "base = None \<or> base = Some default_base"
  shows "msg_valid spec_delta_valid base_addressable spec_codecs (FlashblocksPayloadMsg (wire_example k base))"
    and "fits_frame (encode (msg_codec number_codec spec_codecs)) (now, wire_example k base)"
proof -
  note valid = wire_example_valid [OF assms, of k]
  then show ok: "msg_valid spec_delta_valid base_addressable spec_codecs
      (FlashblocksPayloadMsg (wire_example k base))" by simp
  have "header_length list_header n \<le> 9" if "n < 2 ^ 64" for n
    using spec.header.length_header [OF that] length_item_head [OF that, of 192]
    by (simp add: spec_codecs_def list_header_def)
  from this [of "fst (compute_payload_length spec_codecs (wire_example k base))"] valid(2)
  have "payload_length spec_codecs (wire_example k base) < 6000"
    unfolding payload_length_eq by (simp add: spec_codecs_def)
  then have "msg_length spec_codecs (FlashblocksPayloadMsg (wire_example k base)) < 7000"
    by simp
  then show "fits_frame (encode (msg_codec number_codec spec_codecs)) (now, wire_example k base)"
    using spec.msg_roundtrip(2) [OF ok]
    by (simp add: fits_frame_def msg_codec_def MAX_FRAME_def)
qed

theorem peer_delivery_end_to_end_witness:
  "\<exists>conn receiver es.
    (poll_next False (msg_codec number_codec spec_codecs) append_msgs False False new_connection
       default_p2p_state []
       (map (\<lambda>m. (0, wire_bytes m)) (sent_to_peers (snd
          (run (publish_step (encode (msg_codec number_codec spec_codecs))) default_p2p_state
             [(1, wire_example 1 None), (2, wire_example 0 None)])))) :: (unit, _) result) =
      Ok ((conn, receiver, [], []), es, Pending True)"
proof -
  let ?cod = "msg_codec number_codec spec_codecs"
  let ?is = "[(1 :: i64, wire_example 1 None), (2, wire_example 0 None)]"
  have inputs: "msg_valid spec_delta_valid base_addressable spec_codecs (FlashblocksPayloadMsg (snd i)) \<and>
      fits_frame (encode ?cod) i \<and> unat (p_index (snd i)) \<le> MAX_FLASHBLOCK_INDEX"
    if "i \<in> set ?is" for i
    using that wire_example_fits [of None] by (auto simp: wire_example_def [of _ None] MAX_FLASHBLOCK_INDEX_def)
  let ?inbox = "map (\<lambda>m. (0 :: i64, wire_bytes m))
    (sent_to_peers (snd (run (publish_step (encode ?cod)) default_p2p_state ?is)))"
  have "map snd ?inbox =
      map wire_bytes (sent_to_peers (snd (run (publish_step (encode ?cod)) default_p2p_state ?is)))"
    by (simp only: map_map comp_def snd_conv)
  from peer_delivery_end_to_end [where ?'e = unit and ?is = ?is,
      OF spec.message.rlp_codec_axioms inputs prod.collapse [symmetric] this]
  show ?thesis by blast
qed

section \<open>Misbehaving peers, and where the loop falls short\<close>

text \<open>
  Undecodable bytes. A message that does not decode costs the peer the reputation of a bad
  message and ends the connection's stream; neither the shared state nor the connection's
  bookkeeping changes, and the messages behind it are not looked at.
\<close>

theorem undecodable_message_ends_stream:
  assumes "take_peer_msg conn rx = (None, rx')" and "decode cod buf = Err error"
  shows "poll_next debug cod deliver closed armed conn state rx ((now, buf) # inbox) =
    Ok ((conn, state, rx', inbox), [ReputationChange BadMessage], Ready None)"
  using assms by (subst poll_next.simps) simp

lemma encode_one: "encode (number_codec :: u8 codec) 1 = [1]"
  by (simp add: number_codec_def string_codec_def string_encode_def convert_codec_def nat_bytes.simps)

theorem undecodable_message_ends_stream_witness:
  "(poll_next False (msg_codec number_codec spec_codecs) append_msgs False False new_connection
      default_p2p_state [] [(0, [1])] :: (unit, _) result) =
    Ok ((new_connection, default_p2p_state, [], []), [ReputationChange BadMessage], Ready None)"
proof (rule undecodable_message_ends_stream)
  show "decode (msg_codec number_codec spec_codecs) [1] = Err (CustomError ''unknown tag'')"
    using spec.tag.decode_encode [of 1 "[]"]
    by (simp add: msg_codec_def msg_decode_def encode_one)
qed simp

text \<open>
  The latency subtraction. A release build never panics in the handler; a debug build panics
  exactly on a new flashblock in range whose timestamp, which the peer chooses, makes the
  subtraction of two 64-bit integers overflow.
\<close>

theorem latency_overflow_panics:
  "handle_flashblocks_payload_v1 False encode_msg now conn state payload \<noteq> (Panic :: ('e, _) result) \<and>
   (handle_flashblocks_payload_v1 True encode_msg now conn state payload = (Panic :: ('e, _) result) \<longleftrightarrow>
      unat (p_index payload) \<le> 100 \<and>
      unat (p_index payload) \<notin> received_from conn (p_payload_id payload) \<and>
      (\<exists>ts. m_flashblock_timestamp (p_metadata payload) = Some ts \<and>
         (sint now - sint ts < - (2 ^ 63) \<or> 2 ^ 63 \<le> sint now - sint ts)))"
proof
  show "handle_flashblocks_payload_v1 False encode_msg now conn state payload \<noteq> (Panic :: ('e, _) result)"
    by (cases rule: handle_cases [where debug = False and enc = encode_msg and now = now and conn = conn
          and st = state and fb = payload and ?'e = 'e]) (simp_all add: panics_on_def)
  have iff: "panics_on True now payload \<longleftrightarrow>
      (\<exists>ts. m_flashblock_timestamp (p_metadata payload) = Some ts \<and>
         (sint now - sint ts < - (2 ^ 63) \<or> 2 ^ 63 \<le> sint now - sint ts))"
    unfolding panics_on_def latency_overflows_def by (simp only: not_le not_less de_Morgan_conj simp_thms)
  show "(handle_flashblocks_payload_v1 True encode_msg now conn state payload = (Panic :: ('e, _) result)) =
     (unat (p_index payload) \<le> 100 \<and>
      unat (p_index payload) \<notin> received_from conn (p_payload_id payload) \<and>
      (\<exists>ts. m_flashblock_timestamp (p_metadata payload) = Some ts \<and>
         (sint now - sint ts < - (2 ^ 63) \<or> 2 ^ 63 \<le> sint now - sint ts)))"
    unfolding iff [symmetric]
    by (cases rule: handle_cases [where debug = True and enc = encode_msg and now = now and conn = conn
          and st = state and fb = payload and ?'e = 'e]) (simp_all add: MAX_FLASHBLOCK_INDEX_def)
qed

end
