(* ===== verification/Limits.thy ===== *)
theory Limits
  imports Prelude
begin

text \<open>
  The limits of a flashblock, \<^verbatim>\<open>src/limits.rs\<close>: how a payload job's deadline and gas are divided
  over the flashblocks that still fit in.

  \<open>Limits\<close> is a type of the rblib library. The code reads its deadline and gas limit and replaces
  them: these four operations are the interface \<open>limits_api\<close>. A \<open>Duration\<close> is the number of its
  nanoseconds; \<open>as_millis\<close> divides, \<open>saturating_sub\<close> is the truncated subtraction of naturals.
\<close>

section \<open>The interface of the limits\<close>

type_synonym duration = nat

definition as_millis :: "duration \<Rightarrow> nat" where
  "as_millis d = d div 1000000"

record 'l limits_ops =
  lo_deadline :: "'l \<Rightarrow> duration option"
  lo_gas_limit :: "'l \<Rightarrow> u64"
  lo_with_deadline :: "'l \<Rightarrow> duration \<Rightarrow> 'l"
  lo_with_gas_limit :: "'l \<Rightarrow> u64 \<Rightarrow> 'l"

locale limits_api =
  fixes ops :: "'l limits_ops"
  assumes deadline_with_deadline: "lo_deadline ops (lo_with_deadline ops l d) = Some d"
    and deadline_with_gas_limit: "lo_deadline ops (lo_with_gas_limit ops l g) = lo_deadline ops l"
    and gas_limit_with_deadline: "lo_gas_limit ops (lo_with_deadline ops l d) = lo_gas_limit ops l"
    and gas_limit_with_gas_limit: "lo_gas_limit ops (lo_with_gas_limit ops l g) = g"

section \<open>\<open>FlashblockLimits\<close>\<close>

record FlashblockLimits =
  fl_interval :: duration

definition with_interval :: "duration \<Rightarrow> FlashblockLimits" where
  "with_interval interval = \<lparr>fl_interval = interval\<rparr>"

text \<open>
  \<open>create\<close>: the checkpoint is read by the time since its building started and its cumulative gas.
  The quotient of milliseconds is cast to \<open>u64\<close>. With \<open>checked\<close> (a build with overflow checks and
  the log level enabled) the percentages of the log line are evaluated with checked arithmetic.
\<close>

definition percent_overflows :: "u64 \<Rightarrow> bool" where
  "percent_overflows x \<longleftrightarrow> 2 ^ 64 \<le> unat x * 100"

definition limits_create ::
  "bool \<Rightarrow> 'l limits_ops \<Rightarrow> FlashblockLimits \<Rightarrow> duration \<Rightarrow> u64 \<Rightarrow> 'l \<Rightarrow> ('e, 'l) result" where
  "limits_create checked ops self elapsed cumulative_gas_used enclosing =
     bind_result (unwrap (lo_deadline ops enclosing)) (\<lambda>payload_deadline.
       let remaining_time = payload_deadline - elapsed
       in if as_millis (fl_interval self) = 0 then Panic
       else
         let remaining_blocks = (of_nat (as_millis remaining_time div as_millis (fl_interval self)) :: u64)
         in if remaining_blocks \<le> 1 then Ok (lo_with_deadline ops enclosing remaining_time)
         else
           let gas_used = cumulative_gas_used;
               remaining_gas = sat_sub (lo_gas_limit ops enclosing) gas_used
           in if remaining_gas = 0 then Ok (lo_with_deadline ops enclosing remaining_time)
           else
             let gas_per_block = remaining_gas div remaining_blocks;
                 next_block_gas_limit = sat_add gas_used gas_per_block
             in if checked \<and> list_ex percent_overflows
                     [gas_used, remaining_gas, next_block_gas_limit, gas_per_block]
             then Panic
             else Ok (lo_with_gas_limit ops
                       (lo_with_deadline ops enclosing (fl_interval self)) next_block_gas_limit))"

section \<open>What a flashblock may use\<close>

text \<open>The number of flashblocks the remaining time has room for, before the cast.\<close>

definition blocks_left :: "duration \<Rightarrow> duration \<Rightarrow> duration \<Rightarrow> nat" where
  "blocks_left deadline elapsed interval = as_millis (deadline - elapsed) div as_millis interval"

definition splits_job :: "'l limits_ops \<Rightarrow> FlashblockLimits \<Rightarrow> duration \<Rightarrow> duration \<Rightarrow> u64 \<Rightarrow> 'l \<Rightarrow> bool" where
  "splits_job ops self deadline elapsed gas_used enclosing \<longleftrightarrow>
     1 < blocks_left deadline elapsed (fl_interval self) \<and>
     unat gas_used < unat (lo_gas_limit ops enclosing)"

lemma limits_create_eq:
  assumes "lo_deadline ops enclosing = Some deadline" and "0 < as_millis (fl_interval self)"
    and "as_millis deadline < 2 ^ 64"
  shows "limits_create False ops self elapsed gas_used enclosing =
    (if splits_job ops self deadline elapsed gas_used enclosing
     then Ok (lo_with_gas_limit ops (lo_with_deadline ops enclosing (fl_interval self))
        (of_nat (unat gas_used + (unat (lo_gas_limit ops enclosing) - unat gas_used) div
           blocks_left deadline elapsed (fl_interval self))))
     else Ok (lo_with_deadline ops enclosing (deadline - elapsed)))"
proof -
  let ?n = "blocks_left deadline elapsed (fl_interval self)"
  let ?limit = "lo_gas_limit ops enclosing"
  have "?n \<le> as_millis deadline"
    unfolding blocks_left_def as_millis_def by (meson div_le_dividend div_le_mono diff_le_self le_trans)
  then have n: "unat (of_nat ?n :: u64) = ?n" using assms(3) by (simp add: unat_of_nat)
  have le1: "(of_nat ?n :: u64) \<le> 1 \<longleftrightarrow> ?n \<le> 1" by (simp add: word_le_nat_alt n)
  have "sat_sub ?limit gas_used = 0 \<longleftrightarrow> unat (sat_sub ?limit gas_used) = 0" by (simp add: unat_eq_0)
  then have gas0: "sat_sub ?limit gas_used = 0 \<longleftrightarrow> unat ?limit \<le> unat gas_used"
    by (simp add: unat_sat_sub)
  have quot: "(unat ?limit - unat gas_used) div ?n \<le> unat ?limit - unat gas_used" by (rule div_le_dividend)
  have "unat (sat_add gas_used (sat_sub ?limit gas_used div of_nat ?n)) =
      unat gas_used + (unat ?limit - unat gas_used) div ?n" if "unat gas_used < unat ?limit"
    unfolding unat_sat_add unat_div unat_sat_sub n
    by (rule min_absorb1) (use unat_u64_less [of ?limit] that quot in linarith)
  then have next_eq: "sat_add gas_used (sat_sub ?limit gas_used div of_nat ?n) =
      of_nat (unat gas_used + (unat ?limit - unat gas_used) div ?n)" if "unat gas_used < unat ?limit"
    using that by (metis of_nat_unat ucast_id)
  show ?thesis
    using assms(1,2) le1 gas0 next_eq
    by (auto simp: limits_create_def Let_def splits_job_def simp flip: blocks_left_def)
qed

text \<open>The record of the two limits the code reads, as an instance of the interface.\<close>

record plain_limits =
  pl_deadline :: "duration option"
  pl_gas_limit :: u64

definition plain_ops :: "plain_limits limits_ops" where
  "plain_ops = \<lparr>lo_deadline = pl_deadline, lo_gas_limit = pl_gas_limit,
     lo_with_deadline = (\<lambda>l d. l\<lparr>pl_deadline := Some d\<rparr>),
     lo_with_gas_limit = (\<lambda>l g. l\<lparr>pl_gas_limit := g\<rparr>)\<rparr>"

interpretation plain: limits_api plain_ops
  by unfold_locales (simp_all add: plain_ops_def)

context limits_api
begin

text \<open>The two bounds of a flashblock's limits, and when it gets a share of its own.\<close>

lemma created_limits:
  assumes "lo_deadline ops enclosing = Some deadline" and "0 < as_millis (fl_interval self)"
    and "as_millis deadline < 2 ^ 64"
    and "limits_create False ops self elapsed gas_used enclosing = Ok l"
  shows "\<exists>d. lo_deadline ops l = Some d \<and> as_millis d \<le> as_millis (deadline - elapsed)"
    and "unat (lo_gas_limit ops l) \<le> unat (lo_gas_limit ops enclosing)"
    and "splits_job ops self deadline elapsed gas_used enclosing \<Longrightarrow>
      lo_deadline ops l = Some (fl_interval self) \<and>
      unat (lo_gas_limit ops l) = unat gas_used + (unat (lo_gas_limit ops enclosing) - unat gas_used) div
        blocks_left deadline elapsed (fl_interval self)"
proof -
  let ?n = "blocks_left deadline elapsed (fl_interval self)" and ?limit = "lo_gas_limit ops enclosing"
  let ?g = "unat gas_used + (unat ?limit - unat gas_used) div ?n"
  note l = assms(4) [unfolded limits_create_eq [OF assms(1-3)]]
  have quot: "(unat ?limit - unat gas_used) div ?n \<le> unat ?limit - unat gas_used" by (rule div_le_dividend)
  have g: "?g \<le> unat ?limit" "unat (of_nat ?g :: u64) = ?g"
    if "splits_job ops self deadline elapsed gas_used enclosing"
  proof -
    show "?g \<le> unat ?limit" using that quot unfolding splits_job_def by linarith
    with unat_u64_less [of ?limit] show "unat (of_nat ?g :: u64) = ?g"
      unfolding unat_of_nat by (intro mod_less) simp
  qed
  have shared: "lo_deadline ops l = Some (fl_interval self)" "lo_gas_limit ops l = of_nat ?g"
    if "splits_job ops self deadline elapsed gas_used enclosing"
    using l that by (auto simp: deadline_with_deadline deadline_with_gas_limit gas_limit_with_gas_limit)
  have rest: "lo_deadline ops l = Some (deadline - elapsed)" "lo_gas_limit ops l = ?limit"
    if "\<not> splits_job ops self deadline elapsed gas_used enclosing"
    using l that by (auto simp: deadline_with_deadline gas_limit_with_deadline)
  show "splits_job ops self deadline elapsed gas_used enclosing \<Longrightarrow>
      lo_deadline ops l = Some (fl_interval self) \<and> unat (lo_gas_limit ops l) = ?g"
    using shared g(2) by simp
  show "unat (lo_gas_limit ops l) \<le> unat ?limit"
    using shared(2) rest(2) g by (cases "splits_job ops self deadline elapsed gas_used enclosing") simp_all
  have "as_millis (fl_interval self) \<le> as_millis (deadline - elapsed)"
    if "splits_job ops self deadline elapsed gas_used enclosing"
  proof (rule ccontr)
    assume "\<not> ?thesis"
    then have "?n = 0" by (simp add: blocks_left_def)
    with that show False by (simp add: splits_job_def)
  qed
  then show "\<exists>d. lo_deadline ops l = Some d \<and> as_millis d \<le> as_millis (deadline - elapsed)"
    using shared(1) rest(1) by (cases "splits_job ops self deadline elapsed gas_used enclosing") auto
qed

end

text \<open>
  C36: Bounds of a flashblock. The limits of a flashblock never exceed the job's: the gas limit is
  at most the enclosing one, the deadline at most the time left, to the millisecond. When there is
  time for several flashblocks and gas left, the flashblock gets the interval and an equal share
  of the gas left on top of what is used, computed without wrap-around.
\<close>

theorem flashblock_limits_bounded:
  assumes "limits_api ops"
    and "lo_deadline ops enclosing = Some deadline" and "0 < as_millis (fl_interval self)"
    and "as_millis deadline < 2 ^ 64"
    and "limits_create False ops self elapsed gas_used enclosing = Ok l"
  shows "(\<exists>d. lo_deadline ops l = Some d \<and> as_millis d \<le> as_millis (deadline - elapsed)) \<and>
    unat (lo_gas_limit ops l) \<le> unat (lo_gas_limit ops enclosing) \<and>
    (1 < blocks_left deadline elapsed (fl_interval self) \<and>
      unat gas_used < unat (lo_gas_limit ops enclosing) \<longrightarrow>
      lo_deadline ops l = Some (fl_interval self) \<and>
      unat (lo_gas_limit ops l) = unat gas_used + (unat (lo_gas_limit ops enclosing) - unat gas_used) div
        blocks_left deadline elapsed (fl_interval self))"
  using limits_api.created_limits [OF assms] by (simp add: splits_job_def)

theorem flashblock_limits_bounded_witness:
  "\<exists>l. (limits_create False plain_ops (with_interval 200000000) 1000000000 1000000
        \<lparr>pl_deadline = Some 2000000000, pl_gas_limit = 30000000\<rparr> :: (unit, _) result) = Ok l \<and>
     lo_deadline plain_ops l = Some 200000000 \<and> unat (lo_gas_limit plain_ops l) = 6800000"
proof -
  let ?job = "\<lparr>pl_deadline = Some 2000000000, pl_gas_limit = 30000000\<rparr>"
  let ?create = "limits_create False plain_ops (with_interval 200000000) 1000000000 1000000 ?job"
  have facts: "lo_deadline plain_ops ?job = Some 2000000000" "0 < as_millis (fl_interval (with_interval 200000000))"
    "as_millis 2000000000 < 2 ^ 64" "blocks_left 2000000000 1000000000 (fl_interval (with_interval 200000000)) = 5"
    by (simp_all add: plain_ops_def with_interval_def as_millis_def blocks_left_def)
  then have "\<exists>l. ?create = (Ok l :: (unit, _) result)"
    by (simp add: limits_create_eq)
  then obtain l where "?create = (Ok l :: (unit, _) result)" ..
  with flashblock_limits_bounded [OF plain.limits_api_axioms facts(1-3) this] facts(4) show ?thesis
    by (simp add: plain_ops_def with_interval_def)
qed

text \<open>
  When the limits panic. In a build without overflow checks the limits of a flashblock are
  computed for every job, except one without a deadline or with an interval below a millisecond,
  for which the code panics (\<open>expect\<close>, division by zero).
\<close>

theorem flashblock_limits_panic_iff:
  "limits_create False ops self elapsed gas_used enclosing = (Panic :: ('e, _) result) \<longleftrightarrow>
     lo_deadline ops enclosing = None \<or> fl_interval self < 1000000"
  by (cases "lo_deadline ops enclosing")
    (auto simp: limits_create_def Let_def as_millis_def)

end
