(* ===== verification/PayloadTxns.thy ===== *)
theory PayloadTxns
  imports Prelude
begin

text \<open>
  The wrapper of a transaction iterator that drops what was already observed,
  \<^verbatim>\<open>src/flashblocks/payload_txns.rs\<close>.

  The inner iterator is any implementation of reth's \<open>PayloadTransactions\<close>: a state with \<open>next\<close> and
  \<open>mark_invalid\<close>. An iterator may never end, and then the wrapper's loop may not return: \<open>None\<close> is
  the value of a call that does not return.
\<close>

section \<open>The wrapper\<close>

record 's BestPayloadTxns =
  bt_inner :: 's
  bt_prev :: "b256 set"
  bt_observed :: "b256 list"

type_synonym ('s, 't) next_fn = "'s \<Rightarrow> ('t option \<times> 's) option"

definition best_new :: "'s \<Rightarrow> 's BestPayloadTxns" where
  "best_new inner = \<lparr>bt_inner = inner, bt_prev = {}, bt_observed = []\<rparr>"

definition with_prev :: "'s BestPayloadTxns \<Rightarrow> b256 list \<Rightarrow> 's BestPayloadTxns" where
  "with_prev self prev = self\<lparr>bt_prev := bt_prev self \<union> set prev\<rparr>"

text \<open>\<open>take_observed\<close>; the order of a hash set's iterator is not determined, so the set stands for it.\<close>

definition take_observed :: "'s BestPayloadTxns \<Rightarrow> b256 set \<times> b256 list" where
  "take_observed self = (bt_prev self, bt_observed self)"

partial_function (option) guard_next ::
  "('s, 't) next_fn \<Rightarrow> ('t \<Rightarrow> b256) \<Rightarrow> 's BestPayloadTxns \<Rightarrow> ('t option \<times> 's BestPayloadTxns) option"
where
  "guard_next inner_next tx_hash self =
     Option.bind (inner_next (bt_inner self)) (\<lambda>(r, inner').
       case r of
         None \<Rightarrow> Some (None, self\<lparr>bt_inner := inner'\<rparr>)
       | Some n \<Rightarrow>
           (if tx_hash n \<notin> bt_prev self
            then Some (Some n, self\<lparr>bt_inner := inner', bt_observed := bt_observed self @ [tx_hash n]\<rparr>)
            else guard_next inner_next tx_hash (self\<lparr>bt_inner := inner'\<rparr>)))"

definition guard_mark_invalid ::
  "('s \<Rightarrow> address \<Rightarrow> u64 \<Rightarrow> 's) \<Rightarrow> 's BestPayloadTxns \<Rightarrow> address \<Rightarrow> u64 \<Rightarrow> 's BestPayloadTxns" where
  "guard_mark_invalid inner_mark self sender nonce =
     self\<lparr>bt_inner := inner_mark (bt_inner self) sender nonce\<rparr>"

section \<open>The interface of a finite iterator\<close>

text \<open>
  An iterator that ends: the transactions it still yields are a list, \<open>next\<close> takes its head, and
  marking a sender's transactions invalid only removes from it.
\<close>

locale payload_transactions =
  fixes nxt :: "('s, 't) next_fn" and mark :: "'s \<Rightarrow> address \<Rightarrow> u64 \<Rightarrow> 's"
    and remaining :: "'s \<Rightarrow> 't list"
  assumes next_end: "remaining s = [] \<Longrightarrow> \<exists>s'. nxt s = Some (None, s') \<and> remaining s' = []"
    and next_tx: "remaining s = x # xs \<Longrightarrow> \<exists>s'. nxt s = Some (Some x, s') \<and> remaining s' = xs"
    and mark_removes: "set (remaining (mark s sender nonce)) \<subseteq> set (remaining s)"
begin

definition new_only :: "('t \<Rightarrow> b256) \<Rightarrow> 's BestPayloadTxns \<Rightarrow> 't list" where
  "new_only tx_hash self = filter (\<lambda>t. tx_hash t \<notin> bt_prev self) (remaining (bt_inner self))"

lemma guard_end:
  assumes "new_only tx_hash self = []"
  shows "\<exists>inner'. guard_next nxt tx_hash self = Some (None, self\<lparr>bt_inner := inner'\<rparr>) \<and>
    remaining inner' = []"
  using assms
proof (induction "remaining (bt_inner self)" arbitrary: self)
  case Nil
  with next_end obtain inner' where "nxt (bt_inner self) = Some (None, inner')" "remaining inner' = []"
    by metis
  then show ?case by (subst guard_next.simps) (simp, blast)
next
  case (Cons x xs)
  then obtain inner' where step: "nxt (bt_inner self) = Some (Some x, inner')" "remaining inner' = xs"
    using next_tx by metis
  have old: "tx_hash x \<in> bt_prev self" "new_only tx_hash (self\<lparr>bt_inner := inner'\<rparr>) = []"
    using Cons.prems Cons.hyps(2) [symmetric] step(2) by (auto simp: new_only_def split: if_splits)
  from Cons.hyps(1) [of "self\<lparr>bt_inner := inner'\<rparr>"] step(2) old(2) show ?case
    by (subst guard_next.simps) (simp add: step(1) old(1))
qed

lemma guard_tx:
  assumes "new_only tx_hash self = y # ys"
  shows "\<exists>inner'. guard_next nxt tx_hash self =
      Some (Some y, self\<lparr>bt_inner := inner', bt_observed := bt_observed self @ [tx_hash y]\<rparr>) \<and>
    filter (\<lambda>t. tx_hash t \<notin> bt_prev self) (remaining inner') = ys"
  using assms
proof (induction "remaining (bt_inner self)" arbitrary: self)
  case Nil
  then show ?case by (simp add: new_only_def)
next
  case (Cons x xs)
  then obtain inner' where step: "nxt (bt_inner self) = Some (Some x, inner')" "remaining inner' = xs"
    using next_tx by metis
  show ?case
  proof (cases "tx_hash x \<in> bt_prev self")
    case True
    then have "new_only tx_hash (self\<lparr>bt_inner := inner'\<rparr>) = y # ys"
      using Cons.prems Cons.hyps(2) [symmetric] step(2) by (simp add: new_only_def)
    from Cons.hyps(1) [OF _ this] step(2) True show ?thesis
      by (subst guard_next.simps) (simp add: step(1))
  next
    case False
    then show ?thesis
      using Cons.prems Cons.hyps(2) [symmetric] step
      by (subst guard_next.simps) (simp add: new_only_def, blast)
  qed
qed

text \<open>The wrapper of such an iterator is again one: what it yields is what was not observed.\<close>

lemma guard_provides: "payload_transactions (guard_next nxt tx_hash) (guard_mark_invalid mark) (new_only tx_hash)"
proof
  fix self
  show "new_only tx_hash self = [] \<Longrightarrow>
      \<exists>s'. guard_next nxt tx_hash self = Some (None, s') \<and> new_only tx_hash s' = []"
    using guard_end [of tx_hash self] by (auto simp: new_only_def)
  show "new_only tx_hash self = y # ys \<Longrightarrow>
      \<exists>s'. guard_next nxt tx_hash self = Some (Some y, s') \<and> new_only tx_hash s' = ys" for y ys
    using guard_tx [of tx_hash self y ys] by (force simp: new_only_def)
  show "set (new_only tx_hash (guard_mark_invalid mark self sender nonce)) \<subseteq> set (new_only tx_hash self)"
    for sender nonce
    using mark_removes by (auto simp: new_only_def guard_mark_invalid_def)
qed

end

text \<open>A finite iterator over a list, and the wrapper over it.\<close>

definition list_next :: "('t list, 't) next_fn" where
  "list_next ts = Some (case ts of [] \<Rightarrow> (None, []) | t # rest \<Rightarrow> (Some t, rest))"

interpretation listed: payload_transactions list_next "\<lambda>ts _ _. ts" "\<lambda>ts. ts"
  by unfold_locales (auto simp: list_next_def)

interpretation guarded: payload_transactions "guard_next list_next tx_hash"
  "guard_mark_invalid (\<lambda>ts _ _. ts)" "listed.new_only tx_hash" for tx_hash
  by (rule listed.guard_provides)

section \<open>Draining\<close>

text \<open>\<open>while let Some(t) = next()\<close>: what the consumer of an iterator gets from it.\<close>

partial_function (option) drain :: "('s, 't) next_fn \<Rightarrow> 's \<Rightarrow> ('t list \<times> 's) option" where
  "drain nxt s =
     Option.bind (nxt s) (\<lambda>(r, s').
       case r of
         None \<Rightarrow> Some ([], s')
       | Some t \<Rightarrow> Option.bind (drain nxt s') (\<lambda>(ts, s''). Some (t # ts, s'')))"

lemma drain_guard:
  assumes "payload_transactions nxt mark remaining"
  shows "\<exists>inner'. drain (guard_next nxt tx_hash) self =
    Some (payload_transactions.new_only remaining tx_hash self,
      self\<lparr>bt_inner := inner', bt_observed := bt_observed self @
        map tx_hash (payload_transactions.new_only remaining tx_hash self)\<rparr>)"
proof (induction "payload_transactions.new_only remaining tx_hash self" arbitrary: self)
  case Nil
  with payload_transactions.guard_end [OF assms, of tx_hash self]
  show ?case by (subst drain.simps) auto
next
  case (Cons t ts)
  let ?new = "payload_transactions.new_only remaining tx_hash"
  from payload_transactions.guard_tx [OF assms, of tx_hash self t ts] Cons.hyps(2)
  obtain inner' where
    step: "guard_next nxt tx_hash self =
      Some (Some t, self\<lparr>bt_inner := inner', bt_observed := bt_observed self @ [tx_hash t]\<rparr>)"
    and ts: "filter (\<lambda>t. tx_hash t \<notin> bt_prev self) (remaining inner') = ts" by auto
  let ?self = "self\<lparr>bt_inner := inner', bt_observed := bt_observed self @ [tx_hash t]\<rparr>"
  have "?new ?self = ts"
    using ts by (simp add: payload_transactions.new_only_def [OF assms])
  with Cons.hyps(1) [of ?self] obtain inner'' where
    "drain (guard_next nxt tx_hash) ?self = Some (ts, ?self\<lparr>bt_inner := inner'',
       bt_observed := bt_observed ?self @ map tx_hash ts\<rparr>)" by auto
  then show ?case
    by (subst drain.simps) (simp add: step Cons.hyps(2) [symmetric], blast)
qed

text \<open>
  C35: Draining a wrapped iterator. Over any iterator that ends, draining the wrapper returns, and
  yields exactly the transactions whose hash was not observed before, in the inner order; their
  hashes are appended to the observed ones and the set of previous hashes is unchanged.
\<close>

theorem best_txns_drains_unseen:
  assumes "payload_transactions nxt mark remaining"
  shows "\<exists>inner'. drain (guard_next nxt tx_hash) self =
    (let ts = filter (\<lambda>t. tx_hash t \<notin> bt_prev self) (remaining (bt_inner self)) in
     Some (ts, self\<lparr>bt_inner := inner', bt_observed := bt_observed self @ map tx_hash ts\<rparr>))"
  using drain_guard [OF assms, of tx_hash self]
  by (simp add: payload_transactions.new_only_def [OF assms] Let_def)

theorem best_txns_drains_unseen_witness:
  "\<exists>inner'. drain (guard_next list_next id) (with_prev (best_new [1, 2, 3 :: b256]) [2]) =
     Some ([1, 3], (with_prev (best_new [1, 2, 3]) [2])\<lparr>bt_inner := inner', bt_observed := [1, 3]\<rparr>)"
  using best_txns_drains_unseen [OF listed.payload_transactions_axioms, of id
      "with_prev (best_new [1, 2, 3]) [2]"]
  by (simp add: with_prev_def best_new_def Let_def)

text \<open>
  Consecutive flashblocks. A second wrapper that starts from what the first one knows
  (\<open>take_observed\<close>) yields no transaction the first one yielded or skipped, whatever its iterator
  holds, and nothing else is dropped.
\<close>

theorem best_txns_chain_disjoint:
  assumes "payload_transactions nxt mark remaining"
    and "drain (guard_next nxt tx_hash) first_pass = Some (ts, after)"
    and "take_observed after = (prev, observed)" and "set seen = prev \<union> set observed"
    and "drain (guard_next nxt tx_hash) (with_prev (best_new inner) seen) = Some (ts', after')"
  shows "set (map tx_hash ts') \<inter> (bt_prev first_pass \<union> set (map tx_hash ts)) = {} \<and>
    (bt_observed first_pass = [] \<longrightarrow>
      ts' = filter (\<lambda>t. tx_hash t \<notin> bt_prev first_pass \<union> set (map tx_hash ts)) (remaining inner))"
proof -
  from drain_guard [OF assms(1), of tx_hash first_pass] assms(2,3)
  have seen: "prev = bt_prev first_pass" "observed = bt_observed first_pass @ map tx_hash ts"
    by (auto simp: take_observed_def)
  from drain_guard [OF assms(1), of tx_hash "with_prev (best_new inner) seen"] assms(5)
  have "ts' = filter (\<lambda>t. tx_hash t \<notin> set seen) (remaining inner)"
    by (auto simp: payload_transactions.new_only_def [OF assms(1)] with_prev_def best_new_def)
  then show ?thesis using assms(4) seen by auto
qed

theorem best_txns_chain_disjoint_witness:
  "\<exists>ts'. (\<exists>after'. drain (guard_next list_next id) (with_prev (best_new [2, 3, 4 :: b256]) [1, 2]) = Some (ts', after'))
     \<and> set (map id ts') \<inter> ({} \<union> set (map id [1, 2])) = {}"
proof -
  obtain i1 where d1: "drain (guard_next list_next id) (best_new [1, 2 :: b256]) =
      Some ([1, 2], (best_new [1, 2])\<lparr>bt_inner := i1, bt_observed := [1, 2]\<rparr>)"
    using drain_guard [OF listed.payload_transactions_axioms, of id "best_new [1, 2]"]
    by (auto simp: listed.new_only_def best_new_def)
  obtain ts' after' where d2: "drain (guard_next list_next id) (with_prev (best_new [2, 3, 4 :: b256]) [1, 2]) =
      Some (ts', after')"
    using drain_guard [OF listed.payload_transactions_axioms, of id "with_prev (best_new [2, 3, 4]) [1, 2]"] by blast
  from best_txns_chain_disjoint [OF listed.payload_transactions_axioms d1 _ _ d2, of "{}" "[1, 2]"] d2
  show ?thesis by (auto simp: take_observed_def best_new_def)
qed

end
