(* ===== verification/Reverts.thy ===== *)
theory Reverts
  imports Prelude
begin

text \<open>
  Merging the bookkeeping of several executions into that of one block, from
  \<^verbatim>\<open>src/step/publish_flashblocks.rs\<close>: \<open>flatten_reverts\<close> and \<open>merge_access_list\<close>.

  The types belong to revm and alloy; the program reads and writes their public fields. A hash map
  of slots is a map; the hash map from addresses, whose iteration order is not determined, is an
  association list in the order of insertion, and the properties read it by \<open>map_of\<close>.
\<close>

section \<open>Account reverts\<close>

datatype 'i AccountInfoRevert = DoNothing | DeleteIt | RevertTo 'i

record ('i, 'slot, 'st) AccountRevert =
  ar_account :: "'i AccountInfoRevert"
  ar_storage :: "u256 \<Rightarrow> 'slot option"
  ar_previous_status :: 'st
  ar_wipe_storage :: bool

type_synonym ('i, 'slot, 'st) transition = "(address \<times> ('i, 'slot, 'st) AccountRevert) list"
type_synonym ('i, 'slot, 'st) reverts = "('i, 'slot, 'st) transition list"

text \<open>The occupied entry: what the loop body does to the earlier revert of an account.\<close>

definition merge_revert ::
  "('i, 'slot, 'st) AccountRevert \<Rightarrow> ('i, 'slot, 'st) AccountRevert \<Rightarrow> ('i, 'slot, 'st) AccountRevert"
where
  "merge_revert entry acc_revert =
     (let entry = entry\<lparr>ar_wipe_storage := ar_wipe_storage entry \<or> ar_wipe_storage acc_revert\<rparr>;
          entry = entry\<lparr>ar_storage := ar_storage acc_revert ++ ar_storage entry\<rparr>
      in if ar_account entry = DoNothing \<and> ar_account acc_revert \<noteq> DoNothing
         then entry\<lparr>ar_account := ar_account acc_revert\<rparr>
         else entry)"

fun merge_entry ::
  "('i, 'slot, 'st) transition \<Rightarrow> address \<times> ('i, 'slot, 'st) AccountRevert \<Rightarrow> ('i, 'slot, 'st) transition"
where
  "merge_entry [] (addr, acc_revert) = [(addr, acc_revert)]"
| "merge_entry ((a, e) # per_account) (addr, acc_revert) =
     (if a = addr then (a, merge_revert e acc_revert) # per_account
      else (a, e) # merge_entry per_account (addr, acc_revert))"

definition flatten_reverts :: "('i, 'slot, 'st) reverts \<Rightarrow> ('i, 'slot, 'st) reverts" where
  "flatten_reverts rs = [foldl merge_entry [] (concat rs)]"

section \<open>The documented merge rules\<close>

text \<open>The reverts of an account, earliest first.\<close>

definition reverts_of :: "('i, 'slot, 'st) reverts \<Rightarrow> address \<Rightarrow> ('i, 'slot, 'st) AccountRevert list" where
  "reverts_of rs a = map snd (filter (\<lambda>(b, _). b = a) (concat rs))"

fun earliest_change :: "'i AccountInfoRevert list \<Rightarrow> 'i AccountInfoRevert" where
  "earliest_change [] = DoNothing"
| "earliest_change (DoNothing # xs) = earliest_change xs"
| "earliest_change (x # xs) = x"

fun earliest_value :: "'a option list \<Rightarrow> 'a option" where
  "earliest_value [] = None"
| "earliest_value (None # xs) = earliest_value xs"
| "earliest_value (Some x # xs) = Some x"

text \<open>The four rules of the comment: status, account info, slots, and the wipe flag.\<close>

definition merged :: "('i, 'slot, 'st) AccountRevert list \<Rightarrow> ('i, 'slot, 'st) AccountRevert option" where
  "merged rs =
     (case rs of
        [] \<Rightarrow> None
      | r # _ \<Rightarrow> Some \<lparr>ar_account = earliest_change (map ar_account rs),
                      ar_storage = (\<lambda>slot. earliest_value (map (\<lambda>r. ar_storage r slot) rs)),
                      ar_previous_status = ar_previous_status r,
                      ar_wipe_storage = list_ex ar_wipe_storage rs\<rparr>)"

lemma map_of_merge_entry:
  "map_of (merge_entry m (addr, r)) a =
     (if a = addr then Some (case map_of m a of None \<Rightarrow> r | Some e \<Rightarrow> merge_revert e r) else map_of m a)"
  by (induction m "(addr, r)" rule: merge_entry.induct) (auto split: option.splits)

lemma keys_merge_entry: "fst ` set (merge_entry m x) = insert (fst x) (fst ` set m)"
  by (induction m x rule: merge_entry.induct) auto

lemma distinct_merge_entry: "distinct (map fst m) \<Longrightarrow> distinct (map fst (merge_entry m x))"
  by (induction m x rule: merge_entry.induct) (auto simp: keys_merge_entry)

lemma distinct_fold_merge: "distinct (map fst m) \<Longrightarrow> distinct (map fst (foldl merge_entry m xs))"
  by (induction xs arbitrary: m) (simp_all add: distinct_merge_entry)

lemma earliest_change_append:
  "earliest_change (xs @ ys) = (if earliest_change xs = DoNothing then earliest_change ys else earliest_change xs)"
  by (induction xs rule: earliest_change.induct) simp_all

lemma earliest_value_append:
  "earliest_value (xs @ ys) = (case earliest_value xs of None \<Rightarrow> earliest_value ys | Some x \<Rightarrow> Some x)"
  by (induction xs rule: earliest_value.induct) simp_all

lemma earliest_change_single [simp]: "earliest_change [x] = x"
  by (cases x) simp_all

lemma earliest_value_single [simp]: "earliest_value [x] = x"
  by (cases x) simp_all

lemma merged_nonempty:
  "rs \<noteq> [] \<Longrightarrow> merged rs = Some \<lparr>ar_account = earliest_change (map ar_account rs),
     ar_storage = (\<lambda>slot. earliest_value (map (\<lambda>r. ar_storage r slot) rs)),
     ar_previous_status = ar_previous_status (hd rs), ar_wipe_storage = list_ex ar_wipe_storage rs\<rparr>"
  by (cases rs) (simp_all add: merged_def)

lemma merged_snoc:
  "merged (rs @ [r]) = Some (case merged rs of None \<Rightarrow> r | Some e \<Rightarrow> merge_revert e r)"
proof (cases "rs = []")
  case True
  then show ?thesis by (simp add: merged_def)
next
  case False
  then show ?thesis
    by (auto simp: merged_nonempty merge_revert_def Let_def earliest_change_append
        earliest_value_append map_add_def fun_eq_iff split: option.splits)
qed

lemma reverts_of_snoc_eq:
  "map snd (filter (\<lambda>(b, _). b = a) (xs @ [(addr, r)])) =
     map snd (filter (\<lambda>(b, _). b = a) xs) @ (if addr = a then [r] else [])"
  by simp

lemma map_of_fold_merge:
  "map_of (foldl merge_entry [] xs) a = merged (map snd (filter (\<lambda>(b, _). b = a) xs))"
proof (induction xs rule: rev_induct)
  case Nil
  then show ?case by (simp add: merged_def)
next
  case (snoc x xs)
  obtain addr r where x: "x = (addr, r)" by fastforce
  show ?case
    using snoc unfolding x foldl_append foldl.simps map_of_merge_entry reverts_of_snoc_eq
    by (cases "a = addr") (simp_all add: merged_snoc)
qed

text \<open>Merging into a map with the account absent appends, so a flattened transition is kept.\<close>

lemma merge_entry_fresh: "fst x \<notin> fst ` set m \<Longrightarrow> merge_entry m x = m @ [x]"
  by (induction m x rule: merge_entry.induct) auto

lemma fold_merge_distinct:
  "distinct (map fst (m @ xs)) \<Longrightarrow> foldl merge_entry m xs = m @ xs"
  by (induction xs arbitrary: m) (simp_all add: merge_entry_fresh)

text \<open>
  C34: Flattening merges by the documented rules. The result is one transition with one entry per
  account that was touched; the entry has the earliest status, the earliest account-info revert
  that is not \<open>DoNothing\<close>, per slot the earliest value, and the disjunction of the wipe flags.
\<close>

theorem flatten_reverts_merges:
  "\<exists>t. flatten_reverts rs = [t] \<and> distinct (map fst t) \<and>
     (\<forall>a. map_of t a = merged (reverts_of rs a))"
  using distinct_fold_merge [of "[]" "concat rs"]
  by (simp add: flatten_reverts_def map_of_fold_merge reverts_of_def)

text \<open>
  Flattening is incremental. Flattening the reverts of a published flashblock and then
  flattening again with those of the next flashblocks gives the same as flattening them all at
  once, however the transitions are grouped; in particular flattening twice changes nothing.
\<close>

theorem flatten_reverts_incremental:
  "flatten_reverts (flatten_reverts earlier @ later) = flatten_reverts (earlier @ later) \<and>
   flatten_reverts (flatten_reverts earlier) = flatten_reverts earlier"
proof -
  have "foldl merge_entry [] (foldl merge_entry [] (concat earlier)) =
      foldl merge_entry [] (concat earlier)"
    using fold_merge_distinct [of "[]" "foldl merge_entry [] (concat earlier)"]
      distinct_fold_merge [of "[]" "concat earlier"] by simp
  then show ?thesis by (simp add: flatten_reverts_def)
qed

section \<open>Merging access lists\<close>

text \<open>
  The changes of an account: five lists whose elements the program does not look at. The function
  is not called by the program at present.
\<close>

record 'c AccountChanges =
  ac_address :: address
  ac_storage_changes :: "'c list"
  ac_storage_reads :: "u256 list"
  ac_balance_changes :: "'c list"
  ac_nonce_changes :: "'c list"
  ac_code_changes :: "'c list"

definition extend_changes :: "'c AccountChanges \<Rightarrow> 'c AccountChanges \<Rightarrow> 'c AccountChanges" where
  "extend_changes old new = old\<lparr>
     ac_storage_changes := ac_storage_changes old @ ac_storage_changes new,
     ac_storage_reads := ac_storage_reads old @ ac_storage_reads new,
     ac_balance_changes := ac_balance_changes old @ ac_balance_changes new,
     ac_nonce_changes := ac_nonce_changes old @ ac_nonce_changes new,
     ac_code_changes := ac_code_changes old @ ac_code_changes new\<rparr>"

fun merge_account :: "'c AccountChanges list \<Rightarrow> 'c AccountChanges \<Rightarrow> 'c AccountChanges list" where
  "merge_account [] new = [new]"
| "merge_account (old # accs) new =
     (if ac_address old = ac_address new then extend_changes old new # accs
      else old # merge_account accs new)"

definition merge_access_list ::
  "'c AccountChanges list option \<Rightarrow> 'c AccountChanges list option \<Rightarrow> 'c AccountChanges list option"
where
  "merge_access_list block_access_list new_block_access_list =
     (case block_access_list of
        None \<Rightarrow> None
      | Some old \<Rightarrow>
         (case new_block_access_list of
            None \<Rightarrow> Some old
          | Some new \<Rightarrow> Some (foldl merge_account old new)))"

definition changes_at :: "('c AccountChanges \<Rightarrow> 'd list) \<Rightarrow> 'c AccountChanges list \<Rightarrow> address \<Rightarrow> 'd list" where
  "changes_at f accs a = concat (map f (filter (\<lambda>x. ac_address x = a) accs))"

lemma merge_account_addresses:
  "map ac_address (merge_account accs new) =
     map ac_address accs @ (if ac_address new \<in> ac_address ` set accs then [] else [ac_address new])"
  by (induction accs) (auto simp: extend_changes_def)

lemma changes_at_absent: "a \<notin> ac_address ` set accs \<Longrightarrow> changes_at f accs a = []"
  by (auto simp: changes_at_def filter_empty_conv)

lemma changes_at_merge:
  assumes "distinct (map ac_address accs)" and "\<And>old. f (extend_changes old new) = f old @ f new"
  shows "changes_at f (merge_account accs new) a =
    changes_at f accs a @ (if ac_address new = a then f new else [])"
  using assms(1)
proof (induction accs)
  case Nil
  then show ?case by (simp add: changes_at_def)
next
  case (Cons old accs)
  show ?case
  proof (cases "ac_address old = ac_address new")
    case True
    then have "filter (\<lambda>x. ac_address x = ac_address new) accs = []"
      using Cons.prems True by (auto simp: filter_empty_conv image_iff dest: sym)
    moreover have "ac_address (extend_changes old new) = ac_address old" by (simp add: extend_changes_def)
    ultimately show ?thesis using True assms(2) by (auto simp: changes_at_def)
  next
    case False
    then show ?thesis using Cons by (auto simp: changes_at_def)
  qed
qed

lemma changes_at_merge_all:
  assumes "\<And>old new. f (extend_changes old new) = f old @ f new"
    and "distinct (map ac_address accs)"
  shows "changes_at f (foldl merge_account accs news) a = changes_at f accs a @ changes_at f news a \<and>
    distinct (map ac_address (foldl merge_account accs news))"
  using assms(2)
proof (induction news arbitrary: accs)
  case Nil
  then show ?case by (simp add: changes_at_def)
next
  case (Cons new news)
  have "distinct (map ac_address (merge_account accs new))"
    using Cons.prems by (auto simp: merge_account_addresses)
  from Cons.IH [OF this] changes_at_merge [where f = f and new = new, OF Cons.prems assms(1)]
  show ?case by (simp add: changes_at_def)
qed

text \<open>
  Merging access lists. When the earlier list has each address once, so does the merged list,
  and for every address each kind of change is the earlier list's changes followed by the newer's.
  A missing earlier list makes the result missing even when there is a newer one.
\<close>

theorem merge_access_list_concatenates:
  assumes "distinct (map ac_address old)"
  shows "\<exists>l. merge_access_list (Some old) (Some new) = Some l \<and> distinct (map ac_address l) \<and>
    (\<forall>a. changes_at ac_storage_changes l a = changes_at ac_storage_changes old a @ changes_at ac_storage_changes new a
       \<and> changes_at ac_storage_reads l a = changes_at ac_storage_reads old a @ changes_at ac_storage_reads new a
       \<and> changes_at ac_balance_changes l a = changes_at ac_balance_changes old a @ changes_at ac_balance_changes new a
       \<and> changes_at ac_nonce_changes l a = changes_at ac_nonce_changes old a @ changes_at ac_nonce_changes new a
       \<and> changes_at ac_code_changes l a = changes_at ac_code_changes old a @ changes_at ac_code_changes new a)
    \<and> merge_access_list None (Some new) = None"
proof -
  note all = changes_at_merge_all [OF _ assms, of _ new]
  have fields: "ac_storage_changes (extend_changes o' n) = ac_storage_changes o' @ ac_storage_changes n"
    "ac_storage_reads (extend_changes o' n) = ac_storage_reads o' @ ac_storage_reads n"
    "ac_balance_changes (extend_changes o' n) = ac_balance_changes o' @ ac_balance_changes n"
    "ac_nonce_changes (extend_changes o' n) = ac_nonce_changes o' @ ac_nonce_changes n"
    "ac_code_changes (extend_changes o' n) = ac_code_changes o' @ ac_code_changes n"
    for o' n :: "'a AccountChanges" by (simp_all add: extend_changes_def)
  note at = all [of ac_storage_changes, OF fields(1)] all [of ac_storage_reads, OF fields(2)]
    all [of ac_balance_changes, OF fields(3)] all [of ac_nonce_changes, OF fields(4)]
    all [of ac_code_changes, OF fields(5)]
  show ?thesis
    unfolding merge_access_list_def option.case
    by (intro exI [of _ "foldl merge_account old new"] conjI allI refl at [THEN conjunct1] at(1) [THEN conjunct2])
qed

definition changes_example :: "address \<Rightarrow> nat list \<Rightarrow> nat AccountChanges" where
  "changes_example a cs = \<lparr>ac_address = a, ac_storage_changes = cs, ac_storage_reads = [],
     ac_balance_changes = cs, ac_nonce_changes = [], ac_code_changes = []\<rparr>"

theorem merge_access_list_concatenates_witness:
  "\<exists>l. merge_access_list (Some [changes_example 1 [1], changes_example 2 [2]])
       (Some [changes_example 2 [3]]) = Some l \<and>
     changes_at ac_balance_changes l 2 = [2, 3]"
proof -
  have "distinct (map ac_address [changes_example 1 [1], changes_example 2 [2]])"
    by (simp add: changes_example_def)
  from merge_access_list_concatenates [OF this, of "[changes_example 2 [3]]"]
  obtain l where l: "merge_access_list (Some [changes_example 1 [1], changes_example 2 [2]])
      (Some [changes_example 2 [3]]) = Some l"
    "changes_at ac_balance_changes l 2 =
      changes_at ac_balance_changes [changes_example 1 [1], changes_example 2 [2]] 2
      @ changes_at ac_balance_changes [changes_example 2 [3]] 2" by blast
  then show ?thesis by (auto simp: changes_at_def changes_example_def)
qed

end
