(* ===== verification/Execution.thy ===== *)
theory Execution
  imports Blocks Reverts
begin

text \<open>
  What the program reads of an execution: results, receipts, the executed block of a built
  payload, the hard forks, and the checkpoints of a payload job. The EVM, the state database, the
  trie, the hash functions and the checkpoint chain of rblib are not part of the program: they are
  the operations of the records here, parameters of the definitions that use them.
\<close>

section \<open>Transactions, results and receipts\<close>

datatype OpTxType = Legacy | Eip2930 | Eip1559 | Eip7702 | Deposit

text \<open>
  The transaction operations the program calls: its type, whether it is a deposit, the sender it
  was recovered with, its hash, its encoding, and the tip per gas over a base fee.
\<close>

record 'tx tx_ops =
  tx_type :: "'tx \<Rightarrow> OpTxType"
  tx_signer :: "'tx \<Rightarrow> address"
  tx_hash :: "'tx \<Rightarrow> b256"
  tx_encoded :: "'tx \<Rightarrow> bytes"
  tx_effective_tip_per_gas :: "'tx \<Rightarrow> u64 \<Rightarrow> u128 option"

definition is_deposit :: "'tx tx_ops \<Rightarrow> 'tx \<Rightarrow> bool" where
  "is_deposit ops tx \<longleftrightarrow> tx_type ops tx = Deposit"

record 'log ExecutionResult =
  er_success :: bool
  er_gas_used :: u64
  er_logs :: "'log list"

record 'log Receipt =
  rc_status :: bool
  rc_cumulative_gas_used :: u64
  rc_logs :: "'log list"

datatype 'log OpReceipt =
    ReceiptLegacy "'log Receipt"
  | ReceiptEip2930 "'log Receipt"
  | ReceiptEip1559 "'log Receipt"
  | ReceiptEip7702 "'log Receipt"
  | ReceiptDeposit (rd_inner: "'log Receipt") (rd_nonce: "u64 option") (rd_version: "u64 option")

fun receipt_inner :: "'log OpReceipt \<Rightarrow> 'log Receipt" where
  "receipt_inner (ReceiptLegacy r) = r"
| "receipt_inner (ReceiptEip2930 r) = r"
| "receipt_inner (ReceiptEip1559 r) = r"
| "receipt_inner (ReceiptEip7702 r) = r"
| "receipt_inner (ReceiptDeposit r _ _) = r"

definition receipt_logs :: "'log OpReceipt list \<Rightarrow> 'log list" where
  "receipt_logs rs = concat (map (\<lambda>r. rc_logs (receipt_inner r)) rs)"

section \<open>Hard forks, hashing and state\<close>

record hardforks =
  hf_canyon :: "u64 \<Rightarrow> bool"
  hf_ecotone :: "u64 \<Rightarrow> bool"
  hf_isthmus :: "u64 \<Rightarrow> bool"
  hf_jovian :: "u64 \<Rightarrow> bool"

record ('tx, 'b, 'log) hashing =
  hs_transactions_root :: "'tx list \<Rightarrow> b256"
  hs_receipts_root :: "'log OpReceipt list \<Rightarrow> u64 \<Rightarrow> b256"
  hs_logs_bloom :: "'log list \<Rightarrow> bloom"
  hs_access_list_hash :: "'b \<Rightarrow> b256"
  hs_header_hash :: "Header \<Rightarrow> b256"
  hs_empty_ommer_root_hash :: b256
  hs_empty_withdrawals :: b256
  hs_empty_requests_hash :: b256
  hs_beacon_nonce :: u64

text \<open>The state provider, over bundles \<open>'u\<close>, hashed states \<open>'h\<close> and trie updates \<open>'t\<close>.\<close>

record ('e, 'u, 'h, 't) state_provider =
  sp_withdrawals_root :: "'u \<Rightarrow> ('e, b256) result"
  sp_hashed_post_state :: "'u \<Rightarrow> 'h"
  sp_state_root_with_updates :: "'h \<Rightarrow> ('e, b256 \<times> 't) result"
  sp_account_nonce :: "address \<Rightarrow> ('e, u64 option) result"

text \<open>
  The bundle of revm: the empty bundle, extension by a later bundle, and its list of transitions,
  which the program replaces by the flattened one.
\<close>

record ('u, 'i, 'slot, 'st) bundle_ops =
  bu_default :: 'u
  bu_extend :: "'u \<Rightarrow> 'u \<Rightarrow> 'u"
  bu_reverts :: "'u \<Rightarrow> ('i, 'slot, 'st) reverts"
  bu_set_reverts :: "'u \<Rightarrow> ('i, 'slot, 'st) reverts \<Rightarrow> 'u"

definition flatten_bundle :: "('u, 'i, 'slot, 'st) bundle_ops \<Rightarrow> 'u \<Rightarrow> 'u" where
  "flatten_bundle ops u = bu_set_reverts ops u (flatten_reverts (bu_reverts ops u))"

section \<open>Executed blocks\<close>

record ('tx, 'w, 'b, 'log, 'u, 'h, 't) executed_block =
  xb_recovered :: "('tx, 'w, 'b) Block \<times> address list"
  xb_bundle :: 'u
  xb_receipts :: "'log OpReceipt list list"
  xb_first_block :: u64
  xb_hashed_state :: 'h
  xb_trie_updates :: 't

type_synonym ('tx, 'w, 'b, 'log, 'u, 'h, 't) built_payload =
  "('tx, 'w, 'b, ('tx, 'w, 'b, 'log, 'u, 'h, 't) executed_block) OpBuiltPayload"

section \<open>Fork-dependent header fields\<close>

text \<open>
  The two chains of conditions that both payload builders have: the withdrawals root with the
  requests hash, and the two blob gas fields.
\<close>

definition withdrawals_fields ::
  "hardforks \<Rightarrow> ('tx, 'b, 'log) hashing \<Rightarrow> ('e, 'u, 'h, 't) state_provider \<Rightarrow> u64 \<Rightarrow> 'u \<Rightarrow>
     ('e, b256 option \<times> b256 option) result" where
  "withdrawals_fields forks hs provider timestamp bundle =
     (if hf_isthmus forks timestamp then
        bind_result (sp_withdrawals_root provider bundle)
          (\<lambda>root. Ok (Some root, Some (hs_empty_requests_hash hs)))
      else if hf_canyon forks timestamp then Ok (Some (hs_empty_withdrawals hs), None)
      else Ok (None, None))"

definition blob_gas_fields :: "hardforks \<Rightarrow> u64 \<Rightarrow> u64 \<Rightarrow> u64 option \<times> u64 option" where
  "blob_gas_fields forks timestamp da_footprint =
     (if hf_jovian forks timestamp then (Some 0, Some da_footprint)
      else if hf_ecotone forks timestamp then (Some 0, Some 0)
      else (None, None))"

section \<open>Receipts\<close>

text \<open>\<open>build_receipt\<close> of the flashblock builder, with the deposit nonce given.\<close>

definition build_receipt ::
  "'tx tx_ops \<Rightarrow> hardforks \<Rightarrow> u64 \<Rightarrow> 'tx \<Rightarrow> 'log ExecutionResult \<Rightarrow> u64 \<Rightarrow> u64 option \<Rightarrow>
     ('e, 'log OpReceipt) result" where
  "build_receipt ops forks timestamp tx result cumulative_gas_used deposit_nonce =
     (let receipt = \<lparr>rc_status = er_success result, rc_cumulative_gas_used = cumulative_gas_used,
                     rc_logs = er_logs result\<rparr>
      in case tx_type ops tx of
           Deposit \<Rightarrow>
             Ok (ReceiptDeposit receipt deposit_nonce (if hf_canyon forks timestamp then Some 1 else None))
         | Legacy \<Rightarrow> Ok (ReceiptLegacy receipt)
         | Eip2930 \<Rightarrow> Ok (ReceiptEip2930 receipt)
         | Eip1559 \<Rightarrow> Ok (ReceiptEip1559 receipt)
         | Eip7702 \<Rightarrow> Ok (ReceiptEip7702 receipt))"

text \<open>
  The totals that both builders keep while they go over the executed transactions, and one
  transaction's step: gas, the tip of a transaction that is not a deposit, and the receipt. The
  \<open>u64\<close> sum of gas and the \<open>U256\<close> sum of fees wrap; a missing tip panics (\<open>expect\<close>).
\<close>

record 'log totals =
  tot_receipts :: "'log OpReceipt list"
  tot_fees :: u256
  tot_gas :: u64

definition miner_fee_of :: "'tx tx_ops \<Rightarrow> u64 \<Rightarrow> 'tx \<Rightarrow> u64 \<Rightarrow> u256 \<Rightarrow> ('e, u256) result" where
  "miner_fee_of ops base_fee tx gas_used total_fees =
     (if is_deposit ops tx then Ok total_fees
      else bind_result (unwrap (tx_effective_tip_per_gas ops tx base_fee))
             (\<lambda>miner_fee. Ok (total_fees + ucast miner_fee * ucast gas_used)))"

text \<open>The last receipt's cumulative gas is the total, and the sums are those of the results.\<close>

fun tips :: "'tx tx_ops \<Rightarrow> u64 \<Rightarrow> ('tx \<times> 'log ExecutionResult) list \<Rightarrow> u256" where
  "tips ops base_fee [] = 0"
| "tips ops base_fee ((tx, res) # txs) =
     (if is_deposit ops tx then 0
      else ucast (unwrap_or (tx_effective_tip_per_gas ops tx base_fee) 0) * ucast (er_gas_used res))
     + tips ops base_fee txs"

definition gas_sum :: "('tx \<times> 'log ExecutionResult) list \<Rightarrow> u64" where
  "gas_sum txs = sum_list (map (\<lambda>(_, res). er_gas_used res) txs)"

end
