(* ===== verification/Platform.thy ===== *)
theory Platform
  imports Execution "HOL-Library.Sublist"
begin

text \<open>
  The platform glue: \<^verbatim>\<open>src/context.rs\<close> (the context of a checkpoint), \<^verbatim>\<open>src/platform.rs\<close> (the
  final payload of a job and the transactions handed to the vanilla builder) and the argument
  check of \<^verbatim>\<open>src/config.rs\<close>. The checkpoints of rblib appear as what the program reads of them: the
  context of the latest barrier, the transactions of the history, the attributes' transactions.
\<close>

section \<open>The context of a checkpoint\<close>

record ('tx, 'w, 'b, 'x) WorldContext =
  wc_maybe_built_payload :: "('tx, 'w, 'b, 'x) OpBuiltPayload option"

definition default_context :: "('tx, 'w, 'b, 'x) WorldContext" where
  "default_context = \<lparr>wc_maybe_built_payload = None\<rparr>"

definition new_context :: "('tx, 'w, 'b, 'x) OpBuiltPayload \<Rightarrow> ('tx, 'w, 'b, 'x) WorldContext" where
  "new_context op_built_payload = \<lparr>wc_maybe_built_payload = Some op_built_payload\<rparr>"

text \<open>\<open>PartialEq\<close>: two contexts are equal when their blocks have the same hash.\<close>

definition context_eq ::
  "('tx, 'w, 'b, 'x) WorldContext \<Rightarrow> ('tx, 'w, 'b, 'x) WorldContext \<Rightarrow> bool" where
  "context_eq self other =
     (case (wc_maybe_built_payload self, wc_maybe_built_payload other) of
        (None, Some _) \<Rightarrow> False
      | (Some _, None) \<Rightarrow> False
      | (None, None) \<Rightarrow> True
      | (Some one, Some other) \<Rightarrow> bp_hash one = bp_hash other)"

text \<open>
  The equality of contexts is an equivalence, as \<open>Eq\<close> demands, and on contexts with a payload
  it is the equality of the block hashes.
\<close>

theorem context_eq_equivalence:
  "equivp (context_eq :: ('tx, 'w, 'b, 'x) WorldContext \<Rightarrow> _) \<and>
   (context_eq (new_context p) (new_context q) \<longleftrightarrow> bp_hash p = bp_hash q) \<and>
   \<not> context_eq default_context (new_context p)"
proof -
  have "equivp (context_eq :: ('tx, 'w, 'b, 'x) WorldContext \<Rightarrow> _)"
    by (rule equivpI; unfold reflp_def symp_def transp_def context_eq_def)
      (auto split: option.splits)
  then show ?thesis by (simp add: context_eq_def new_context_def default_context_def)
qed

section \<open>Transactions for the vanilla builder\<close>

text \<open>
  \<open>extract_external_txs\<close>: the loop counts the positions at which the history and the sequencer
  transactions agree, and drops that many transactions.
\<close>

fun matching_positions :: "'h list \<Rightarrow> ('tx \<Rightarrow> 'h) \<Rightarrow> 'tx list \<Rightarrow> nat \<Rightarrow> nat \<Rightarrow> nat" where
  "matching_positions [] hash_of transactions ix prefix_len = prefix_len"
| "matching_positions (sequencer_tx # rest) hash_of transactions ix prefix_len =
     matching_positions rest hash_of transactions (Suc ix)
       (if (case get transactions ix of None \<Rightarrow> False | Some tx \<Rightarrow> hash_of tx = sequencer_tx)
        then prefix_len + 1 else prefix_len)"

definition extract_external_txs ::
  "('tx \<Rightarrow> b256) \<Rightarrow> (bytes \<times> 'tx) list \<Rightarrow> 'tx list \<Rightarrow> 'tx list" where
  "extract_external_txs hash_of attribute_txs transactions =
     (let sequencer_txs = map (\<lambda>tx. hash_of (snd tx)) attribute_txs;
          prefix_len = matching_positions sequencer_txs hash_of transactions 0 0
      in drop prefix_len transactions)"

text \<open>
  The vanilla builder of reth is a parameter. It gets the pool transactions, each with the length
  of its encoding; an aborted or cancelled outcome is \<open>unreachable!\<close>.
\<close>

datatype 'p BuildOutcomeKind = Better 'p | Freeze 'p | Aborted | Cancelled

definition op_build_payload ::
  "(('tx \<times> nat) list \<Rightarrow> ('e, 'p BuildOutcomeKind) result) \<Rightarrow> 'tx tx_ops \<Rightarrow>
     (bytes \<times> 'tx) list \<Rightarrow> 'tx list \<Rightarrow> ('e, 'p) result" where
  "op_build_payload op_builder ops attribute_txs history =
     (let transactions = extract_external_txs (tx_hash ops) attribute_txs history in
      bind_result (op_builder (map (\<lambda>tx. (tx, length (tx_encoded ops tx))) transactions))
        (\<lambda>build_outcome.
           case build_outcome of
             Better payload \<Rightarrow> Ok payload
           | Freeze payload \<Rightarrow> Ok payload
           | Aborted \<Rightarrow> Panic
           | Cancelled \<Rightarrow> Panic))"

text \<open>
  \<open>Platform::build_payload\<close>: the payload of the latest barrier when there is one, the vanilla
  builder otherwise. The barrier is given by its context, if there is a barrier.
\<close>

definition build_payload ::
  "(('tx \<times> nat) list \<Rightarrow> ('e, ('tx, 'w, 'b, 'x) OpBuiltPayload BuildOutcomeKind) result) \<Rightarrow>
     'tx tx_ops \<Rightarrow> (bytes \<times> 'tx) list \<Rightarrow> ('tx, 'w, 'b, 'x) WorldContext option \<Rightarrow> 'tx list \<Rightarrow>
     ('e, ('tx, 'w, 'b, 'x) OpBuiltPayload) result" where
  "build_payload op_builder ops attribute_txs latest_barrier history =
     (case latest_barrier of
        Some barrier \<Rightarrow>
          (case wc_maybe_built_payload barrier of
             Some built_payload \<Rightarrow> Ok built_payload
           | None \<Rightarrow> op_build_payload op_builder ops attribute_txs history)
      | None \<Rightarrow> op_build_payload op_builder ops attribute_txs history)"

lemma matching_positions_prefix:
  "matching_positions (map hash_of pre) hash_of (skipped @ pre @ rest) (length skipped) n = n + length pre"
proof (induction pre arbitrary: skipped n)
  case Nil
  then show ?case by simp
next
  case (Cons tx pre)
  from Cons [of "skipped @ [tx]" "n + 1"] show ?case by (simp add: get_def)
qed

lemma matching_positions_disjoint:
  assumes "\<And>i. i < length seqs \<Longrightarrow> ix + i < length txs \<Longrightarrow> hash_of (txs ! (ix + i)) \<noteq> seqs ! i"
  shows "matching_positions seqs hash_of txs ix n = n"
  using assms
proof (induction seqs arbitrary: ix)
  case Nil
  then show ?case by simp
next
  case (Cons q qs)
  have "hash_of (txs ! ix) \<noteq> q" if "ix < length txs" using Cons.prems [of 0] that by simp
  moreover have "hash_of (txs ! (Suc ix + i)) \<noteq> qs ! i" if "i < length qs" "Suc ix + i < length txs" for i
    using Cons.prems [of "Suc i"] that by simp
  ultimately show ?case using Cons.IH [of "Suc ix"] by (simp add: get_def)
qed

text \<open>
  The transactions for the vanilla builder. When the history starts with the sequencer
  transactions they are removed and the others kept in order; when it contains them at no position
  of their own it is passed on whole.
\<close>

theorem external_txs_of_history:
  "extract_external_txs hash_of attribute_txs (map snd attribute_txs @ external) = external \<and>
   ((\<forall>i < length attribute_txs. i < length history \<longrightarrow>
       hash_of (history ! i) \<noteq> hash_of (snd (attribute_txs ! i))) \<longrightarrow>
     extract_external_txs hash_of attribute_txs history = history)"
  using matching_positions_prefix [of hash_of "map snd attribute_txs" "[]" external 0]
    matching_positions_disjoint [of "map (\<lambda>tx. hash_of (snd tx)) attribute_txs" 0 history hash_of 0]
  by (simp add: extract_external_txs_def Let_def comp_def)

theorem external_txs_of_history_witness:
  "extract_external_txs id [([1], 10 :: b256), ([2], 20)] [30, 40] = [30, 40]"
proof -
  have "\<forall>i < length [([1 :: u8], 10 :: b256), ([2], 20)]. i < length [30 :: b256, 40] \<longrightarrow>
      id ([30, 40] ! i) \<noteq> id (snd ([([1 :: u8], 10 :: b256), ([2], 20)] ! i))"
    by (auto simp: less_Suc_eq)
  then show ?thesis using external_txs_of_history by blast
qed

text \<open>
  C38: A partial match drops the wrong transactions. The loop does not stop at the first position
  that differs: when the history starts with another transaction and then has the second
  sequencer transaction at its position, the count is one, the foreign transaction is dropped and
  the sequencer transaction is handed to the builder, which adds it a second time.
\<close>

theorem partial_match_drops_external_tx:
  assumes "hash_of x \<noteq> hash_of a"
  shows "extract_external_txs hash_of [(ea, a), (eb, b)] (x # b # rest) = b # rest"
  using assms by (simp add: extract_external_txs_def get_def)

theorem partial_match_drops_external_tx_witness:
  "extract_external_txs id [([], 10 :: b256), ([], 20)] [30, 20, 40] = [20, 40]"
  by (rule partial_match_drops_external_tx) simp

text \<open>
  The final payload of a job. A job that has published a flashblock returns the payload of its
  latest barrier, whatever was added to the history since and without calling the vanilla
  builder; without one the vanilla builder decides, and it gets the external transactions.
\<close>

theorem build_payload_returns_published:
  "build_payload op_builder ops attribute_txs (Some (new_context p)) history = Ok p \<and>
   build_payload op_builder ops attribute_txs (Some default_context) (map snd attribute_txs @ external) =
     build_payload op_builder ops attribute_txs None (map snd attribute_txs @ external) \<and>
   build_payload op_builder ops attribute_txs None (map snd attribute_txs @ external) =
     bind_result (op_builder (map (\<lambda>tx. (tx, length (tx_encoded ops tx))) external))
       (\<lambda>out. case out of Better q \<Rightarrow> Ok q | Freeze q \<Rightarrow> Ok q | Aborted \<Rightarrow> Panic | Cancelled \<Rightarrow> Panic)"
  using matching_positions_prefix [of "tx_hash ops" "map snd attribute_txs" "[]" external 0]
  by (simp add: build_payload_def new_context_def default_context_def op_build_payload_def Let_def
      extract_external_txs_def comp_def)

section \<open>What the platform takes from the one of Optimism\<close>

text \<open>The EVM configuration and the environment of the next block are those of the platform of rblib, parameters here.\<close>

definition evm_config :: "('spec \<Rightarrow> 'evm) \<Rightarrow> 'spec \<Rightarrow> 'evm" where
  "evm_config optimism chainspec = optimism chainspec"

definition next_block_environment_context ::
  "('spec \<Rightarrow> 'header \<Rightarrow> 'attributes \<Rightarrow> ('e, 'env) result) \<Rightarrow> 'spec \<Rightarrow> 'header \<Rightarrow> 'attributes \<Rightarrow> ('e, 'env) result" where
  "next_block_environment_context optimism chainspec parent attributes = optimism chainspec parent attributes"

section \<open>Arguments\<close>

text \<open>
  \<open>WorldChainArgs::into_config\<close>. The rollup arguments are reth's; the record has the fields that the
  program reads. The flashblocks arguments are the defaults the command line gives them.
\<close>

record RollupArgs =
  ra_sequencer :: "string option"
  ra_sequencer_headers :: "string list"
  ra_disable_txpool_gossip :: bool
  ra_compute_pending_block :: bool
  ra_discovery_v4 :: bool
  ra_enable_tx_conditional :: bool
  ra_min_suggested_priority_fee :: u64
  ra_historical_rpc :: "string option"

record FlashblocksArgs =
  fa_enabled :: bool
  fa_flashblocks_interval :: u64
  fa_recommit_interval :: u64

record 'peer WorldChainArgs =
  wa_rollup :: RollupArgs
  wa_flashblocks :: "FlashblocksArgs option"
  wa_tx_peers :: "'peer list option"

definition into_config :: "'peer WorldChainArgs \<Rightarrow> 'peer WorldChainArgs" where
  "into_config self =
     (case wa_tx_peers self of
        Some peers \<Rightarrow> if ra_disable_txpool_gossip (wa_rollup self) then self\<lparr>wa_tx_peers := None\<rparr> else self
      | None \<Rightarrow> self)"

text \<open>
  The configuration never restricts the propagation of transactions to peers while gossip is
  disabled; nothing else of the arguments changes, and configuring twice is configuring once.
\<close>

theorem into_config_consistent:
  "\<not> (ra_disable_txpool_gossip (wa_rollup (into_config args)) \<and> wa_tx_peers (into_config args) \<noteq> None) \<and>
   wa_flashblocks (into_config args) = wa_flashblocks args \<and>
   wa_rollup (into_config args) = wa_rollup args \<and>
   into_config (into_config args) = into_config args"
  by (cases "wa_tx_peers args") (simp_all add: into_config_def)

end
