(* ===== verification/BuildPayload.thy ===== *)
theory BuildPayload
  imports Execution Platform
begin

text \<open>
  Building the payload of a published flashblock, from \<^verbatim>\<open>src/step/publish_flashblocks.rs\<close>:
  \<open>build_op_built_payload\<close> with \<open>extract_previous_state\<close>, \<open>unpublished_payload\<close> and \<open>build_receipt\<close>.

  The chain of checkpoints belongs to rblib. A checkpoint is what the program reads of it; the
  operations on a payload (its history, the part since the last barrier, the context of the latest
  barrier, placing a barrier) are the record \<open>chain_ops\<close>, and the laws the program relies on the
  locale \<open>checkpoint_chain\<close>.
\<close>

section \<open>Checkpoints and the block under construction\<close>

text \<open>\<open>cp_prev\<close> is the account nonce as the previous checkpoint has it, if there is one.\<close>

record ('e, 'tx, 'log, 'u) checkpoint =
  cp_state :: "'u option"
  cp_transactions :: "'tx list"
  cp_results :: "'log ExecutionResult list option"
  cp_prev :: "(address \<Rightarrow> ('e, u64 option) result) option"

record ('p, 'c, 'k, 'b) chain_ops =
  ch_history :: "'p \<Rightarrow> 'c list"
  ch_history_staging :: "'p \<Rightarrow> 'c list"
  ch_latest_barrier :: "'p \<Rightarrow> 'k option"
  ch_barrier_with_context :: "'p \<Rightarrow> 'k \<Rightarrow> 'p"
  ch_cumulative_da_footprint :: "'p \<Rightarrow> u64 option"
  ch_alloy_bal :: "'p \<Rightarrow> 'b"

record ('tx, 'w, 'u) block_ctx =
  bc_attributes :: "('tx, 'w) OpPayloadBuilderAttributes"
  bc_parent_hash :: b256
  bc_parent_gas_limit :: u64
  bc_coinbase :: address
  bc_number :: u64
  bc_timestamp :: u64
  bc_base_fee :: u64
  bc_base_bundle_state :: 'u
  bc_env_beneficiary :: address
  bc_env_prevrandao :: "b256 option"
  bc_env_number :: u256
  bc_env_gas_limit :: u64
  bc_env_difficulty :: u256
  bc_extra_data :: bytes
  bc_parent_beacon_block_root :: "b256 option"

definition bc_payload_id :: "('tx, 'w, 'u) block_ctx \<Rightarrow> payload_id" where
  "bc_payload_id blk = ea_id (oa_payload_attributes (bc_attributes blk))"

text \<open>The environment of a build: the parameters the program takes from its libraries.\<close>

record ('e, 'tx, 'b, 'log, 'u, 'i, 'slot, 'st, 'h, 't) build_env =
  be_tx :: "'tx tx_ops"
  be_forks :: hardforks
  be_hashing :: "('tx, 'b, 'log) hashing"
  be_bundle :: "('u, 'i, 'slot, 'st) bundle_ops"
  be_provider :: "('e, 'u, 'h, 't) state_provider"
  be_default_bal :: 'b

section \<open>The receipt of a transaction\<close>

text \<open>\<open>build_receipt\<close> of the publishing step: the nonce of a deposit's sender is looked up.\<close>

definition deposit_nonce_at ::
  "('e, 'u, 'h, 't) state_provider \<Rightarrow> ('e, 'tx, 'log, 'u) checkpoint \<Rightarrow> address \<Rightarrow>
     ('e, u64 option) result" where
  "deposit_nonce_at provider checkpoint signer =
     (case cp_prev checkpoint of
        Some prev_checkpoint \<Rightarrow> prev_checkpoint signer
      | None \<Rightarrow> sp_account_nonce provider signer)"

definition build_receipt_at ::
  "'tx tx_ops \<Rightarrow> hardforks \<Rightarrow> ('e, 'u, 'h, 't) state_provider \<Rightarrow> u64 \<Rightarrow>
     ('e, 'tx, 'log, 'u) checkpoint \<Rightarrow> 'tx \<Rightarrow> 'log ExecutionResult \<Rightarrow> u64 \<Rightarrow>
     ('e, 'log OpReceipt) result" where
  "build_receipt_at ops forks provider timestamp checkpoint tx result cumulative_gas_used =
     (let receipt = \<lparr>rc_status = er_success result, rc_cumulative_gas_used = cumulative_gas_used,
                     rc_logs = er_logs result\<rparr>
      in case tx_type ops tx of
           Deposit \<Rightarrow>
             bind_result (deposit_nonce_at provider checkpoint (tx_signer ops tx)) (\<lambda>deposit_nonce.
               Ok (ReceiptDeposit receipt deposit_nonce
                     (if hf_canyon forks timestamp then Some 1 else None)))
         | Legacy \<Rightarrow> Ok (ReceiptLegacy receipt)
         | Eip2930 \<Rightarrow> Ok (ReceiptEip2930 receipt)
         | Eip1559 \<Rightarrow> Ok (ReceiptEip1559 receipt)
         | Eip7702 \<Rightarrow> Ok (ReceiptEip7702 receipt))"

section \<open>Accumulating a span of checkpoints\<close>

text \<open>
  The inner loop over the enumerated transactions of a checkpoint. A checkpoint without a result
  is passed over; a result list that is too short panics (\<open>results()[i]\<close>).
\<close>

fun add_transactions ::
  "('e, 'tx, 'b, 'log, 'u, 'i, 'slot, 'st, 'h, 't) build_env \<Rightarrow> u64 \<Rightarrow> u64 \<Rightarrow>
     ('e, 'tx, 'log, 'u) checkpoint \<Rightarrow> nat \<Rightarrow> 'tx list \<Rightarrow> 'log totals \<Rightarrow> ('e, 'log totals) result"
where
  "add_transactions env timestamp base_fee checkpoint i [] acc = Ok acc"
| "add_transactions env timestamp base_fee checkpoint i (tx # txs) acc =
     (case cp_results checkpoint of
        None \<Rightarrow> add_transactions env timestamp base_fee checkpoint (Suc i) txs acc
      | Some results \<Rightarrow>
          bind_result (unwrap (get results i)) (\<lambda>result.
          let gas_used = er_gas_used result;
              cumulative_gas_used = tot_gas acc + gas_used
          in bind_result (miner_fee_of (be_tx env) base_fee tx gas_used (tot_fees acc)) (\<lambda>total_fees.
             bind_result (build_receipt_at (be_tx env) (be_forks env) (be_provider env) timestamp
                            checkpoint tx result cumulative_gas_used) (\<lambda>receipt.
             add_transactions env timestamp base_fee checkpoint (Suc i) txs
               \<lparr>tot_receipts = tot_receipts acc @ [receipt], tot_fees = total_fees,
                tot_gas = cumulative_gas_used\<rparr>))))"

fun add_checkpoints ::
  "('e, 'tx, 'b, 'log, 'u, 'i, 'slot, 'st, 'h, 't) build_env \<Rightarrow> u64 \<Rightarrow> u64 \<Rightarrow>
     ('e, 'tx, 'log, 'u) checkpoint list \<Rightarrow> 'u \<Rightarrow> 'log totals \<Rightarrow> ('e, 'u \<times> 'log totals) result"
where
  "add_checkpoints env timestamp base_fee [] bundle_state acc = Ok (bundle_state, acc)"
| "add_checkpoints env timestamp base_fee (checkpoint # span) bundle_state acc =
     (case cp_state checkpoint of
        None \<Rightarrow> add_checkpoints env timestamp base_fee span bundle_state acc
      | Some checkpoint_bundle_state \<Rightarrow>
          bind_result (add_transactions env timestamp base_fee checkpoint 0 (cp_transactions checkpoint) acc)
            (\<lambda>acc'. add_checkpoints env timestamp base_fee span
                      (bu_extend (be_bundle env) bundle_state checkpoint_bundle_state) acc'))"

section \<open>The state of the previous flashblock\<close>

definition fresh_totals :: "'log totals" where
  "fresh_totals = \<lparr>tot_receipts = [], tot_fees = 0, tot_gas = 0\<rparr>"

text \<open>
  \<open>extract_previous_state\<close>: bundle, totals and access list of the latest barrier's payload, or
  fresh ones. A payload without an executed block, or one with no receipts, panics; a debug build
  asserts that there is exactly one list of receipts.
\<close>

definition extract_previous_state ::
  "bool \<Rightarrow> ('e, 'tx, 'b, 'log, 'u, 'i, 'slot, 'st, 'h, 't) build_env \<Rightarrow>
     ('p, ('e, 'tx, 'log, 'u) checkpoint,
       ('tx, 'w, 'b, ('tx, 'w, 'b, 'log, 'u, 'h, 't) executed_block) WorldContext, 'b) chain_ops \<Rightarrow>
     ('tx, 'w, 'u) block_ctx \<Rightarrow> 'p \<Rightarrow> ('e, 'u \<times> 'log totals \<times> 'b option) result" where
  "extract_previous_state debug env chain blk payload =
     (case ch_latest_barrier chain payload of
        None \<Rightarrow> Ok (bc_base_bundle_state blk, fresh_totals, Some (be_default_bal env))
      | Some barrier \<Rightarrow>
         (case wc_maybe_built_payload barrier of
            None \<Rightarrow> Ok (bc_base_bundle_state blk, fresh_totals, Some (be_default_bal env))
          | Some op_built_payload \<Rightarrow>
              bind_result (unwrap (bp_executed_block op_built_payload)) (\<lambda>executed_block.
              if debug \<and> length (xb_receipts executed_block) \<noteq> 1 then Panic
              else bind_result (unwrap (first (xb_receipts executed_block))) (\<lambda>receipts.
                Ok (xb_bundle executed_block,
                    \<lparr>tot_receipts = receipts, tot_fees = bp_fees op_built_payload,
                     tot_gas = h_gas_used (bk_header (bp_block op_built_payload))\<rparr>,
                    bb_block_access_list (bk_body (bp_block op_built_payload)))))))"

text \<open>\<open>unpublished_payload\<close>: the whole history for the first flashblock, else the staging part.\<close>

definition unpublished_payload :: "('p, 'c, 'k, 'b) chain_ops \<Rightarrow> u64 \<Rightarrow> 'p \<Rightarrow> 'c list" where
  "unpublished_payload chain block_number payload =
     (if block_number = 0 then ch_history chain payload else ch_history_staging chain payload)"

definition span_transactions :: "('e, 'tx, 'log, 'u) checkpoint list \<Rightarrow> 'tx list" where
  "span_transactions span = concat (map cp_transactions span)"

section \<open>The built payload\<close>

definition saturating_to_u64 :: "u256 \<Rightarrow> u64" where
  "saturating_to_u64 x = (if unat x < 2 ^ 64 then ucast x else - 1)"

text \<open>The header of the block, from line 410 of the source on.\<close>

definition published_header ::
  "('tx, 'b, 'log) hashing \<Rightarrow> ('tx, 'w, 'u) block_ctx \<Rightarrow> 'tx list \<Rightarrow> 'log totals \<Rightarrow> b256 \<Rightarrow>
     b256 option \<times> b256 option \<Rightarrow> u64 option \<times> u64 option \<Rightarrow> 'b option \<Rightarrow> Header" where
  "published_header hs blk txs acc state_root withdrawals blob_gas block_access_list =
     \<lparr>h_parent_hash = bc_parent_hash blk,
      h_ommers_hash = hs_empty_ommer_root_hash hs,
      h_beneficiary = bc_env_beneficiary blk,
      h_state_root = state_root,
      h_transactions_root = hs_transactions_root hs txs,
      h_receipts_root = hs_receipts_root hs (tot_receipts acc) (bc_timestamp blk),
      h_withdrawals_root = fst withdrawals,
      h_logs_bloom = hs_logs_bloom hs (receipt_logs (tot_receipts acc)),
      h_timestamp = bc_timestamp blk,
      h_mix_hash = unwrap_or (bc_env_prevrandao blk) 0,
      h_nonce = hs_beacon_nonce hs,
      h_base_fee_per_gas = Some (bc_base_fee blk),
      h_number = saturating_to_u64 (bc_env_number blk),
      h_gas_limit = bc_env_gas_limit blk,
      h_difficulty = bc_env_difficulty blk,
      h_gas_used = tot_gas acc,
      h_extra_data = bc_extra_data blk,
      h_parent_beacon_block_root = bc_parent_beacon_block_root blk,
      h_blob_gas_used = snd blob_gas,
      h_excess_blob_gas = fst blob_gas,
      h_requests_hash = snd withdrawals,
      h_block_access_list_hash = map_option (hs_access_list_hash hs) block_access_list\<rparr>"

text \<open>
  \<open>build_op_built_payload\<close>. The access list of the previous flashblock is read and logged, and the
  payload's own list is used.
\<close>

definition build_op_built_payload ::
  "bool \<Rightarrow> ('e, 'tx, 'b, 'log, 'u, 'i, 'slot, 'st, 'h, 't) build_env \<Rightarrow>
     ('p, ('e, 'tx, 'log, 'u) checkpoint,
       ('tx, 'w, 'b, ('tx, 'w, 'b, 'log, 'u, 'h, 't) executed_block) WorldContext, 'b) chain_ops \<Rightarrow>
     ('tx, 'w, 'u) block_ctx \<Rightarrow> u64 \<Rightarrow> 'p \<Rightarrow>
     ('e, ('tx, 'w, 'b, 'log, 'u, 'h, 't) built_payload) result" where
  "build_op_built_payload debug env chain blk block_number payload =
     (let timestamp = bc_timestamp blk; hs = be_hashing env; provider = be_provider env in
      bind_result (extract_previous_state debug env chain blk payload) (\<lambda>(bundle_state, acc, _).
      let this_block_span = unpublished_payload chain block_number payload in
      bind_result (add_checkpoints env timestamp (bc_base_fee blk) this_block_span bundle_state acc)
        (\<lambda>(bundle_state, acc).
      let txs = span_transactions (ch_history chain payload);
          bundle_state = flatten_bundle (be_bundle env) bundle_state in
      bind_result (withdrawals_fields (be_forks env) hs provider timestamp bundle_state) (\<lambda>withdrawals.
      let blob_gas = blob_gas_fields (be_forks env) timestamp
            (unwrap_or (ch_cumulative_da_footprint chain payload) 0);
          block_access_list = Some (ch_alloy_bal chain payload);
          hashed_state = sp_hashed_post_state provider bundle_state in
      bind_result (sp_state_root_with_updates provider hashed_state) (\<lambda>(state_root, trie_updates).
      let header = published_header hs blk txs acc state_root withdrawals blob_gas block_access_list;
          blck = \<lparr>bk_header = header,
                  bk_body = \<lparr>bb_transactions = txs, bb_ommers = [], bb_withdrawals = Some [],
                             bb_block_access_list = block_access_list\<rparr>\<rparr>;
          senders = map (tx_signer (be_tx env)) txs;
          executed = \<lparr>xb_recovered = (blck, senders), xb_bundle = bundle_state,
                      xb_receipts = [tot_receipts acc], xb_first_block = bc_number blk,
                      xb_hashed_state = hashed_state, xb_trie_updates = trie_updates\<rparr>
      in Ok \<lparr>bp_id = bc_payload_id blk, bp_block = blck, bp_hash = hs_header_hash hs header,
             bp_fees = tot_fees acc, bp_executed_block = Some executed\<rparr>)))))"

section \<open>What the totals are\<close>

text \<open>The executed transactions of a checkpoint with their results, and of a span.\<close>

definition executed_of :: "('e, 'tx, 'log, 'u) checkpoint \<Rightarrow> ('tx \<times> 'log ExecutionResult) list" where
  "executed_of cp =
     (case (cp_state cp, cp_results cp) of
        (Some _, Some results) \<Rightarrow> zip (cp_transactions cp) results
      | _ \<Rightarrow> [])"

definition executed_span ::
  "('e, 'tx, 'log, 'u) checkpoint list \<Rightarrow> ('tx \<times> 'log ExecutionResult) list" where
  "executed_span span = concat (map executed_of span)"

fun running_gas :: "u64 \<Rightarrow> ('tx \<times> 'log ExecutionResult) list \<Rightarrow> u64 list" where
  "running_gas g [] = []"
| "running_gas g ((tx, res) # txs) = (g + er_gas_used res) # running_gas (g + er_gas_used res) txs"

fun receipt_type :: "'log OpReceipt \<Rightarrow> OpTxType" where
  "receipt_type (ReceiptLegacy r) = Legacy"
| "receipt_type (ReceiptEip2930 r) = Eip2930"
| "receipt_type (ReceiptEip1559 r) = Eip1559"
| "receipt_type (ReceiptEip7702 r) = Eip7702"
| "receipt_type (ReceiptDeposit r n v) = Deposit"

definition receipt_of :: "'tx tx_ops \<Rightarrow> 'tx \<times> 'log ExecutionResult \<Rightarrow> 'log OpReceipt \<Rightarrow> bool" where
  "receipt_of ops x r \<longleftrightarrow> receipt_type r = tx_type ops (fst x) \<and>
     rc_status (receipt_inner r) = er_success (snd x) \<and> rc_logs (receipt_inner r) = er_logs (snd x)"

text \<open>One total follows from another by executing transactions.\<close>

definition totals_after ::
  "'tx tx_ops \<Rightarrow> u64 \<Rightarrow> ('tx \<times> 'log ExecutionResult) list \<Rightarrow> 'log totals \<Rightarrow> 'log totals \<Rightarrow> bool" where
  "totals_after ops base_fee xs acc acc' \<longleftrightarrow>
     tot_gas acc' = tot_gas acc + gas_sum xs \<and> tot_fees acc' = tot_fees acc + tips ops base_fee xs \<and>
     (\<exists>rs. tot_receipts acc' = tot_receipts acc @ rs \<and> list_all2 (receipt_of ops) xs rs \<and>
        map (\<lambda>r. rc_cumulative_gas_used (receipt_inner r)) rs = running_gas (tot_gas acc) xs)"

lemma gas_sum_append: "gas_sum (xs @ ys) = gas_sum xs + gas_sum ys"
  by (simp add: gas_sum_def)

lemma tips_append: "tips ops base_fee (xs @ ys) = tips ops base_fee xs + tips ops base_fee ys"
  by (induction ops base_fee xs rule: tips.induct) (simp_all add: add.assoc)

lemma running_gas_append:
  "running_gas g (xs @ ys) = running_gas g xs @ running_gas (g + gas_sum xs) ys"
  by (induction g xs rule: running_gas.induct) (simp_all add: gas_sum_def add.assoc)

lemma totals_after_refl: "totals_after ops base_fee [] acc acc"
  by (simp add: totals_after_def gas_sum_def)

lemma totals_after_trans:
  assumes "totals_after ops base_fee xs acc acc'" and "totals_after ops base_fee ys acc' acc''"
  shows "totals_after ops base_fee (xs @ ys) acc acc''"
proof -
  obtain rs rs' where
    "tot_receipts acc' = tot_receipts acc @ rs" "list_all2 (receipt_of ops) xs rs"
    "map (\<lambda>r. rc_cumulative_gas_used (receipt_inner r)) rs = running_gas (tot_gas acc) xs"
    "tot_receipts acc'' = tot_receipts acc' @ rs'" "list_all2 (receipt_of ops) ys rs'"
    "map (\<lambda>r. rc_cumulative_gas_used (receipt_inner r)) rs' = running_gas (tot_gas acc') ys"
    "tot_gas acc' = tot_gas acc + gas_sum xs"
    using assms by (auto simp: totals_after_def)
  then show ?thesis using assms
    by (auto simp: totals_after_def gas_sum_append tips_append running_gas_append add.assoc
        intro!: exI [of _ "rs @ rs'"] list_all2_appendI)
qed

lemma build_receipt_at_Ok:
  assumes "build_receipt_at ops forks provider timestamp cp tx res gas = Ok r"
  shows "receipt_of ops (tx, res) r" and "rc_cumulative_gas_used (receipt_inner r) = gas"
  using assms by (auto simp: build_receipt_at_def Let_def receipt_of_def split: OpTxType.splits)

lemma miner_fee_of_Ok:
  assumes "miner_fee_of ops base_fee tx (er_gas_used res) fees = Ok fees'"
  shows "fees' = fees + tips ops base_fee [(tx, res)]"
  using assms by (auto simp: miner_fee_of_def unwrap_def split: if_splits option.splits)

lemma totals_after_single:
  assumes "receipt_of ops (tx, res) r" and "rc_cumulative_gas_used (receipt_inner r) = tot_gas acc + er_gas_used res"
    and "fees = tot_fees acc + tips ops base_fee [(tx, res)]"
  shows "totals_after ops base_fee [(tx, res)] acc
    \<lparr>tot_receipts = tot_receipts acc @ [r], tot_fees = fees, tot_gas = tot_gas acc + er_gas_used res\<rparr>"
  using assms by (simp add: totals_after_def gas_sum_def)

lemma add_transactions_totals:
  fixes env :: "('e, 'tx, 'b, 'log, 'u, 'i, 'slot, 'st, 'h, 't) build_env"
  assumes "add_transactions env timestamp base_fee cp i txs acc = Ok acc'"
  shows "totals_after (be_tx env) base_fee
    (case cp_results cp of None \<Rightarrow> [] | Some results \<Rightarrow> zip txs (drop i results)) acc acc'"
  using assms
proof (induction txs arbitrary: i acc)
  case Nil
  then show ?case by (auto simp: totals_after_refl split: option.split)
next
  case (Cons tx txs)
  show ?case
  proof (cases "cp_results cp")
    case None
    with Cons show ?thesis by auto
  next
    case (Some results)
    from Cons.prems Some obtain res fees r where
      res: "get results i = Some res"
      and fees: "miner_fee_of (be_tx env) base_fee tx (er_gas_used res) (tot_fees acc) = (Ok fees :: ('e, _) result)"
      and r: "build_receipt_at (be_tx env) (be_forks env) (be_provider env) timestamp cp tx res
        (tot_gas acc + er_gas_used res) = (Ok r :: ('e, _) result)"
      and rest: "add_transactions env timestamp base_fee cp (Suc i) txs
        \<lparr>tot_receipts = tot_receipts acc @ [r], tot_fees = fees, tot_gas = tot_gas acc + er_gas_used res\<rparr> = Ok acc'"
      by (auto simp: Let_def unwrap_def split: option.splits)
    have "zip (tx # txs) (drop i results) = [(tx, res)] @ zip txs (drop (Suc i) results)"
      using res by (auto simp: Cons_nth_drop_Suc [symmetric])
    moreover have "totals_after (be_tx env) base_fee [(tx, res)] acc
        \<lparr>tot_receipts = tot_receipts acc @ [r], tot_fees = fees, tot_gas = tot_gas acc + er_gas_used res\<rparr>"
      by (rule totals_after_single [OF build_receipt_at_Ok [OF r] miner_fee_of_Ok [OF fees]])
    ultimately show ?thesis
      using totals_after_trans Cons.IH [OF rest] Some by fastforce
  qed
qed

lemma add_checkpoints_totals:
  assumes "add_checkpoints env timestamp base_fee span bnd acc = Ok (bnd', acc')"
  shows "totals_after (be_tx env) base_fee (executed_span span) acc acc'"
  using assms
proof (induction span arbitrary: bnd acc)
  case Nil
  then show ?case by (simp add: executed_span_def totals_after_refl)
next
  case (Cons cp span)
  show ?case
  proof (cases "cp_state cp")
    case None
    with Cons show ?thesis by (simp add: executed_span_def executed_of_def)
  next
    case (Some state)
    with Cons.prems obtain acc1 where
      "add_transactions env timestamp base_fee cp 0 (cp_transactions cp) acc = Ok acc1"
      and rest: "add_checkpoints env timestamp base_fee span
        (bu_extend (be_bundle env) bnd state) acc1 = Ok (bnd', acc')" by auto
    from add_transactions_totals [OF this(1)]
    have "totals_after (be_tx env) base_fee (executed_of cp) acc acc1"
      by (auto simp: executed_of_def Some split: option.splits)
    from totals_after_trans [OF this Cons.IH [OF rest]]
    show ?thesis by (simp add: executed_span_def)
  qed
qed

text \<open>The totals do not depend on the bundle, and a span can be accumulated in pieces.\<close>

lemma add_checkpoints_bundle:
  "add_checkpoints env timestamp base_fee span bnd acc = Ok (b, acc') \<Longrightarrow>
     \<exists>b'. add_checkpoints env timestamp base_fee span bnd' acc = Ok (b', acc')"
proof (induction span arbitrary: bnd bnd' acc)
  case Nil
  then show ?case by simp
next
  case (Cons cp span)
  then show ?case by (cases "cp_state cp") auto
qed

lemma add_checkpoints_append:
  "add_checkpoints env timestamp base_fee (xs @ ys) bnd acc =
     bind_result (add_checkpoints env timestamp base_fee xs bnd acc)
       (\<lambda>(bnd', acc'). add_checkpoints env timestamp base_fee ys bnd' acc')"
proof (induction xs arbitrary: bnd acc)
  case Nil
  then show ?case by simp
next
  case (Cons cp xs)
  show ?case
    by (cases "cp_state cp"; cases "add_transactions env timestamp base_fee cp 0 (cp_transactions cp) acc")
      (simp_all add: Cons)
qed

section \<open>The built payload and its parts\<close>

text \<open>What a consistent payload is: block, header, fees and executed block carry the same totals.\<close>

definition carries ::
  "('e, 'tx, 'b, 'log, 'u, 'i, 'slot, 'st, 'h, 't) build_env \<Rightarrow> payload_id \<Rightarrow> u64 \<Rightarrow>
     'log totals \<Rightarrow> 'tx list \<Rightarrow> ('tx, 'w, 'b, 'log, 'u, 'h, 't) built_payload \<Rightarrow> bool" where
  "carries env pid timestamp acc txs bp \<longleftrightarrow>
     (let header = bk_header (bp_block bp); hs = be_hashing env in
      bp_id bp = pid \<and> bp_fees bp = tot_fees acc \<and> h_gas_used header = tot_gas acc \<and>
      bp_hash bp = hs_header_hash hs header \<and> block_txs (bp_block bp) = txs \<and>
      h_transactions_root header = hs_transactions_root hs txs \<and>
      h_receipts_root header = hs_receipts_root hs (tot_receipts acc) timestamp \<and>
      h_logs_bloom header = hs_logs_bloom hs (receipt_logs (tot_receipts acc)) \<and>
      h_block_access_list_hash header =
        map_option (hs_access_list_hash hs) (bb_block_access_list (bk_body (bp_block bp))) \<and>
      (\<exists>x. bp_executed_block bp = Some x \<and> xb_receipts x = [tot_receipts acc] \<and>
         xb_recovered x = (bp_block bp, map (tx_signer (be_tx env)) txs) \<and>
         xb_hashed_state x = sp_hashed_post_state (be_provider env) (xb_bundle x) \<and>
         sp_state_root_with_updates (be_provider env) (xb_hashed_state x) =
           Ok (h_state_root header, xb_trie_updates x)))"

lemma build_facts:
  assumes "build_op_built_payload debug env chain blk n payload = Ok bp"
  obtains b0 acc0 bal b acc where
    "extract_previous_state debug env chain blk payload = Ok (b0, acc0, bal)"
    "add_checkpoints env (bc_timestamp blk) (bc_base_fee blk) (unpublished_payload chain n payload) b0 acc0
       = Ok (b, acc)"
    "carries env (bc_payload_id blk) (bc_timestamp blk) acc (span_transactions (ch_history chain payload)) bp"
    "h_gas_limit (bk_header (bp_block bp)) = bc_env_gas_limit blk"
  using assms
  by (auto simp: build_op_built_payload_def Let_def carries_def published_header_def split: prod.splits)

lemma extract_fresh:
  assumes "ch_latest_barrier chain payload = None \<or>
    (\<exists>k. ch_latest_barrier chain payload = Some k \<and> wc_maybe_built_payload k = None)"
  shows "extract_previous_state debug env chain blk payload =
    Ok (bc_base_bundle_state blk, fresh_totals, Some (be_default_bal env))"
  using assms by (auto simp: extract_previous_state_def)

lemma extract_carried:
  assumes "carries env pid timestamp acc txs bp" and "ch_latest_barrier chain payload = Some (new_context bp)"
  shows "\<exists>b bal. extract_previous_state debug env chain blk payload = Ok (b, acc, bal)"
proof -
  obtain x where "bp_executed_block bp = Some x" "xb_receipts x = [tot_receipts acc]"
    and "bp_fees bp = tot_fees acc" "h_gas_used (bk_header (bp_block bp)) = tot_gas acc"
    using assms(1) by (auto simp: carries_def Let_def)
  then have "extract_previous_state debug env chain blk payload =
      Ok (xb_bundle x, acc, bb_block_access_list (bk_body (bp_block bp)))"
    using assms(2) by (cases acc) (simp add: extract_previous_state_def new_context_def)
  then show ?thesis by blast
qed

text \<open>
  C33: The payload of a first flashblock. When no payload was built before, because the history has no barrier or,
  as behind the prologue of Optimism, only a barrier that carries no payload, a built payload has the id and all the transactions of the history; its gas is the sum of the results' gas, its fees the
  sum of tips times gas over the transactions that are not deposits, and the executed block has
  one receipt per executed transaction, of the transaction's type, with its status and logs and
  the running gas; roots, bloom and hash in the header are those of these parts.
\<close>

theorem first_payload_totals:
  assumes "build_op_built_payload debug env chain blk 0 payload = Ok bp"
    and "\<And>k. ch_latest_barrier chain payload = Some k \<Longrightarrow> wc_maybe_built_payload k = None"
  shows "\<exists>receipts. carries env (bc_payload_id blk) (bc_timestamp blk)
      \<lparr>tot_receipts = receipts, tot_fees = tips (be_tx env) (bc_base_fee blk) (executed_span (ch_history chain payload)),
       tot_gas = gas_sum (executed_span (ch_history chain payload))\<rparr>
      (span_transactions (ch_history chain payload)) bp \<and>
    list_all2 (receipt_of (be_tx env)) (executed_span (ch_history chain payload)) receipts \<and>
    map (\<lambda>r. rc_cumulative_gas_used (receipt_inner r)) receipts =
      running_gas 0 (executed_span (ch_history chain payload))"
proof -
  obtain b0 acc0 bal b acc where
    prev: "extract_previous_state debug env chain blk payload = Ok (b0, acc0, bal)"
    and add: "add_checkpoints env (bc_timestamp blk) (bc_base_fee blk) (unpublished_payload chain 0 payload)
      b0 acc0 = Ok (b, acc)"
    and carries: "carries env (bc_payload_id blk) (bc_timestamp blk) acc (span_transactions (ch_history chain payload)) bp"
    using assms(1) by (rule build_facts)
  have "acc0 = fresh_totals" using prev assms(2) by (cases "ch_latest_barrier chain payload") (simp_all add: extract_fresh)
  with add_checkpoints_totals [OF add]
  have "totals_after (be_tx env) (bc_base_fee blk) (executed_span (ch_history chain payload)) fresh_totals acc"
    by (simp add: unpublished_payload_def)
  then obtain rs where "acc = \<lparr>tot_receipts = rs,
      tot_fees = tips (be_tx env) (bc_base_fee blk) (executed_span (ch_history chain payload)),
      tot_gas = gas_sum (executed_span (ch_history chain payload))\<rparr>"
    and "list_all2 (receipt_of (be_tx env)) (executed_span (ch_history chain payload)) rs"
    and "map (\<lambda>r. rc_cumulative_gas_used (receipt_inner r)) rs =
      running_gas 0 (executed_span (ch_history chain payload))"
    by (cases acc) (auto simp: totals_after_def fresh_totals_def)
  with carries show ?thesis by blast
qed

section \<open>A job of several flashblocks\<close>

text \<open>
  The laws of the checkpoint chain. \<open>grow\<close> stands for what the other steps of the pipeline do:
  they append checkpoints. A barrier is a checkpoint without state and transactions.
\<close>

locale checkpoint_chain =
  fixes chain :: "('p, ('e, 'tx, 'log, 'u) checkpoint,
      ('tx, 'w, 'b, ('tx, 'w, 'b, 'log, 'u, 'h, 't) executed_block) WorldContext, 'b) chain_ops"
    and grow :: "'p \<Rightarrow> ('e, 'tx, 'log, 'u) checkpoint list \<Rightarrow> 'p"
    and barrier_cp :: "('e, 'tx, 'log, 'u) checkpoint"
  assumes barrier_empty: "cp_state barrier_cp = None" "cp_transactions barrier_cp = []"
    and history_extend: "ch_history chain (grow p cps) = ch_history chain p @ cps"
    and staging_extend: "ch_history_staging chain (grow p cps) = ch_history_staging chain p @ cps"
    and barrier_extend: "ch_latest_barrier chain (grow p cps) = ch_latest_barrier chain p"
    and history_barrier: "ch_history chain (ch_barrier_with_context chain p k) = ch_history chain p @ [barrier_cp]"
    and staging_barrier: "ch_history_staging chain (ch_barrier_with_context chain p k) = []"
    and barrier_barrier: "ch_latest_barrier chain (ch_barrier_with_context chain p k) = Some k"

text \<open>
  The flashblocks of a job: each span of new checkpoints is built with the job's counter and frozen
  behind a barrier with the built payload. The result is the payloads in their order.
\<close>

fun job_payloads ::
  "('p \<Rightarrow> ('e, 'tx, 'log, 'u) checkpoint list \<Rightarrow> 'p) \<Rightarrow> bool \<Rightarrow>
     ('e, 'tx, 'b, 'log, 'u, 'i, 'slot, 'st, 'h, 't) build_env \<Rightarrow>
     ('p, ('e, 'tx, 'log, 'u) checkpoint,
       ('tx, 'w, 'b, ('tx, 'w, 'b, 'log, 'u, 'h, 't) executed_block) WorldContext, 'b) chain_ops \<Rightarrow>
     ('tx, 'w, 'u) block_ctx \<Rightarrow> u64 \<Rightarrow> 'p \<Rightarrow> ('e, 'tx, 'log, 'u) checkpoint list list \<Rightarrow>
     ('e, ('tx, 'w, 'b, 'log, 'u, 'h, 't) built_payload list) result" where
  "job_payloads grow debug env chain blk n p [] = Ok []"
| "job_payloads grow debug env chain blk n p (span # spans) =
     bind_result (build_op_built_payload debug env chain blk n (grow p span)) (\<lambda>bp.
     bind_result (job_payloads grow debug env chain blk (n + 1)
                    (ch_barrier_with_context chain (grow p span) (new_context bp)) spans) (\<lambda>bps.
     Ok (bp # bps)))"

lemma executed_span_append: "executed_span (xs @ ys) = executed_span xs @ executed_span ys"
  by (simp add: executed_span_def)

lemma span_transactions_append:
  "span_transactions (xs @ ys) = span_transactions xs @ span_transactions ys"
  by (simp add: span_transactions_def)

context checkpoint_chain
begin

text \<open>After the first flashblock: the totals of each payload continue those of the one before.\<close>

lemma later_payloads:
  assumes "carries env (bc_payload_id blk) (bc_timestamp blk) acc txs bp"
    and "ch_latest_barrier chain p = Some (new_context bp)" and "ch_history_staging chain p = []"
    and "span_transactions (ch_history chain p) = txs"
    and "add_checkpoints env (bc_timestamp blk) (bc_base_fee blk) (concat spans) b acc = Ok (b', acc')"
    and "job_payloads grow debug env chain blk n p spans = Ok bps"
    and "unat n + length spans < 2 ^ 64" and "n \<noteq> 0"
  shows "carries env (bc_payload_id blk) (bc_timestamp blk) acc' (txs @ span_transactions (concat spans)) (last (bp # bps))"
  using assms
proof (induction spans arbitrary: acc txs bp p b n bps)
  case Nil
  then show ?case by (simp add: span_transactions_def)
next
  case (Cons span spans)
  let ?p = "grow p span"
  from Cons.prems(6) obtain bp1 bps1 where
    build: "build_op_built_payload debug env chain blk n ?p = Ok bp1"
    and job: "job_payloads grow debug env chain blk (n + 1)
      (ch_barrier_with_context chain ?p (new_context bp1)) spans = Ok bps1"
    and bps: "bps = bp1 # bps1" by auto
  obtain b0 acc0 bal b1 acc1 where
    prev: "extract_previous_state debug env chain blk ?p = Ok (b0, acc0, bal)"
    and add: "add_checkpoints env (bc_timestamp blk) (bc_base_fee blk) (unpublished_payload chain n ?p)
      b0 acc0 = Ok (b1, acc1)"
    and carries: "carries env (bc_payload_id blk) (bc_timestamp blk) acc1 (span_transactions (ch_history chain ?p)) bp1"
    using build by (rule build_facts)
  have "ch_latest_barrier chain ?p = Some (new_context bp)" using Cons.prems(2) by (simp add: barrier_extend)
  with prev extract_carried [where chain = chain and payload = ?p and debug = debug and blk = blk, OF Cons.prems(1)] have "acc0 = acc" by auto
  moreover have "unpublished_payload chain n ?p = span"
    using Cons.prems(3,8) by (simp add: unpublished_payload_def staging_extend)
  ultimately have add': "add_checkpoints env (bc_timestamp blk) (bc_base_fee blk) span b0 acc = Ok (b1, acc1)"
    using add by simp
  from add_checkpoints_bundle [OF this, of b] obtain b2 where
    "add_checkpoints env (bc_timestamp blk) (bc_base_fee blk) span b acc = Ok (b2, acc1)" ..
  with Cons.prems(5) have rest:
    "add_checkpoints env (bc_timestamp blk) (bc_base_fee blk) (concat spans) b2 acc1 = Ok (b', acc')"
    by (simp add: add_checkpoints_append)
  have next_n: "unat (n + 1) = unat n + 1"
    using Cons.prems(7) by (subst unat_plus_if_size) (simp add: word_size)
  have "carries env (bc_payload_id blk) (bc_timestamp blk) acc' ((txs @ span_transactions span) @ span_transactions (concat spans)) (last (bp1 # bps1))"
  proof (rule Cons.IH [OF _ _ _ _ rest job])
    show "carries env (bc_payload_id blk) (bc_timestamp blk) acc1 (txs @ span_transactions span) bp1"
      using carries Cons.prems(4) by (simp add: history_extend span_transactions_append)
    show "span_transactions (ch_history chain (ch_barrier_with_context chain ?p (new_context bp1))) =
        txs @ span_transactions span"
      using Cons.prems(4) barrier_empty(2)
      by (simp add: history_extend history_barrier span_transactions_append)
        (simp add: span_transactions_def)
    show "unat (n + 1) + length spans < 2 ^ 64" using Cons.prems(7) next_n by simp
    show "n + 1 \<noteq> 0" using next_n by (metis add_is_0 unat_0 zero_neq_one)
  qed (simp_all add: barrier_barrier staging_barrier)
  then show ?case by (simp add: bps span_transactions_append)
qed

end


section \<open>A chain of checkpoints as a list\<close>

text \<open>The history, the part since the last barrier, and the context of that barrier.\<close>

type_synonym ('e, 'tx, 'log, 'u, 'k) list_payload =
  "('e, 'tx, 'log, 'u) checkpoint list \<times> ('e, 'tx, 'log, 'u) checkpoint list \<times> 'k option"

definition list_barrier :: "('e, 'tx, 'log, 'u) checkpoint" where
  "list_barrier = \<lparr>cp_state = None, cp_transactions = [], cp_results = None, cp_prev = None\<rparr>"

definition list_grow ::
  "('e, 'tx, 'log, 'u, 'k) list_payload \<Rightarrow> ('e, 'tx, 'log, 'u) checkpoint list \<Rightarrow>
     ('e, 'tx, 'log, 'u, 'k) list_payload" where
  "list_grow p cps = (fst p @ cps, fst (snd p) @ cps, snd (snd p))"

definition list_chain ::
  "'b \<Rightarrow> (('e, 'tx, 'log, 'u, 'k) list_payload, ('e, 'tx, 'log, 'u) checkpoint, 'k, 'b) chain_ops" where
  "list_chain bal = \<lparr>ch_history = fst, ch_history_staging = (\<lambda>p. fst (snd p)),
     ch_latest_barrier = (\<lambda>p. snd (snd p)),
     ch_barrier_with_context = (\<lambda>p k. (fst p @ [list_barrier], [], Some k)),
     ch_cumulative_da_footprint = (\<lambda>_. None), ch_alloy_bal = (\<lambda>_. bal)\<rparr>"

interpretation listed_chain: checkpoint_chain "list_chain bal" list_grow list_barrier for bal
  by unfold_locales (simp_all add: list_chain_def list_grow_def list_barrier_def)

text \<open>A small job: transaction 0 is a deposit, the others tip 2 per gas.\<close>

definition example_tx :: "nat tx_ops" where
  "example_tx = \<lparr>tx_type = (\<lambda>t. if t = 0 then Deposit else Eip1559), tx_signer = of_nat,
     tx_hash = of_nat, tx_encoded = (\<lambda>t. [of_nat t]), tx_effective_tip_per_gas = (\<lambda>_ _. Some 2)\<rparr>"

definition example_env :: "'b \<Rightarrow> ('e, nat, 'b, nat, nat, unit, unit, unit, nat, unit) build_env" where
  "example_env bal = \<lparr>be_tx = example_tx,
     be_forks = \<lparr>hf_canyon = (\<lambda>_. True), hf_ecotone = (\<lambda>_. True), hf_isthmus = (\<lambda>_. False),
       hf_jovian = (\<lambda>_. False)\<rparr>,
     be_hashing = \<lparr>hs_transactions_root = (\<lambda>txs. of_nat (length txs)),
       hs_receipts_root = (\<lambda>rs _. of_nat (length rs)), hs_logs_bloom = (\<lambda>ls. of_nat (length ls)),
       hs_access_list_hash = (\<lambda>_. 0), hs_header_hash = h_state_root, hs_empty_ommer_root_hash = 0,
       hs_empty_withdrawals = 0, hs_empty_requests_hash = 0, hs_beacon_nonce = 0\<rparr>,
     be_bundle = \<lparr>bu_default = 0, bu_extend = (+), bu_reverts = (\<lambda>_. []), bu_set_reverts = (\<lambda>u _. u)\<rparr>,
     be_provider = \<lparr>sp_withdrawals_root = (\<lambda>_. Ok 0), sp_hashed_post_state = (\<lambda>u. u),
       sp_state_root_with_updates = (\<lambda>h. Ok (of_nat h, ())), sp_account_nonce = (\<lambda>_. Ok None)\<rparr>,
     be_default_bal = bal\<rparr>"

definition example_block :: "(nat, unit, nat) block_ctx" where
  "example_block = \<lparr>bc_attributes = \<lparr>oa_payload_attributes = \<lparr>ea_id = 7, ea_parent = 0, ea_timestamp = 5,
       ea_suggested_fee_recipient = 0, ea_prev_randao = 0, ea_withdrawals = [], ea_parent_beacon_block_root = None\<rparr>,
       oa_no_tx_pool = False, oa_transactions = [], oa_gas_limit = None, oa_eip_1559_params = None,
       oa_min_base_fee = None\<rparr>,
     bc_parent_hash = 1, bc_parent_gas_limit = 30000000, bc_coinbase = 2, bc_number = 9, bc_timestamp = 5,
     bc_base_fee = 3, bc_base_bundle_state = 0, bc_env_beneficiary = 2, bc_env_prevrandao = None,
     bc_env_number = 9, bc_env_gas_limit = 30000000, bc_env_difficulty = 0, bc_extra_data = [],
     bc_parent_beacon_block_root = None\<rparr>"

definition example_cp :: "nat \<Rightarrow> u64 \<Rightarrow> (unit, nat, nat, nat) checkpoint" where
  "example_cp t gas = \<lparr>cp_state = Some 1, cp_transactions = [t],
     cp_results = Some [\<lparr>er_success = True, er_gas_used = gas, er_logs = [t]\<rparr>], cp_prev = None\<rparr>"

type_synonym example_payload = "(unit, nat, nat, nat,
  (nat, unit, unit, (nat, unit, unit, nat, nat, nat, unit) executed_block) WorldContext) list_payload"

definition example_start :: example_payload where
  "example_start = ([], [], None)"

lemmas example_simps = example_env_def example_tx_def example_block_def example_cp_def example_start_def
  list_chain_def list_grow_def list_barrier_def build_op_built_payload_def extract_previous_state_def
  unpublished_payload_def flatten_bundle_def withdrawals_fields_def blob_gas_fields_def
  published_header_def fresh_totals_def miner_fee_of_def is_deposit_def build_receipt_at_def
  deposit_nonce_at_def span_transactions_def new_context_def default_context_def

text \<open>The history behind a prologue: the deposit, a barrier without a payload, and a transaction of the step.\<close>

definition behind_prologue :: example_payload where
  "behind_prologue = list_grow (ch_barrier_with_context (list_chain ())
     (list_grow example_start [example_cp 0 100]) default_context) [example_cp 4 21000]"

theorem first_payload_totals_witness:
  "\<exists>bp. build_op_built_payload True (example_env ()) (list_chain ()) example_block 0 behind_prologue = Ok bp \<and>
     ch_latest_barrier (list_chain ()) behind_prologue = Some default_context \<and>
     h_gas_used (bk_header (bp_block bp)) = 21100 \<and> bp_fees bp = 42000"
proof -
  let ?p = behind_prologue
  note example_simps = example_simps behind_prologue_def
  have "\<exists>bp. build_op_built_payload True (example_env ()) (list_chain ()) example_block 0 ?p = Ok bp"
    by (simp add: example_simps Let_def get_def)
  then obtain bp where bp: "build_op_built_payload True (example_env ()) (list_chain ()) example_block 0 ?p = Ok bp" ..
  have span: "executed_span (ch_history (list_chain ()) ?p) =
      [(0, \<lparr>er_success = True, er_gas_used = 100, er_logs = [0]\<rparr>),
       (4, \<lparr>er_success = True, er_gas_used = 21000, er_logs = [4]\<rparr>)]"
    by (simp add: executed_span_def executed_of_def example_simps)
  have barrier: "ch_latest_barrier (list_chain ()) ?p = Some default_context" by (simp add: example_simps)
  have "wc_maybe_built_payload k = None" if "ch_latest_barrier (list_chain ()) ?p = Some k" for k
    using that unfolding barrier by (auto simp: default_context_def)
  from first_payload_totals [OF bp this] bp barrier show ?thesis
    unfolding span by (auto simp: carries_def Let_def gas_sum_def is_deposit_def example_simps)
qed


end
