(* ===== verification/BlockBuilder.thy ===== *)
theory BlockBuilder
  imports BuildPayload
begin

text \<open>
  The thin wrappers around reth's block building: \<^verbatim>\<open>src/flashblocks/block_executor.rs\<close> (an executor
  that starts from the totals of earlier flashblocks), \<^verbatim>\<open>src/flashblocks/block_builder.rs\<close> (which
  flattens the reverts when it finishes a block), \<^verbatim>\<open>src/flashblocks/block_assembler.rs\<close> and
  \<^verbatim>\<open>src/flashblocks/ctx.rs\<close>. The inner executor, assembler and state database are reth's: their
  operations are the record \<open>inner_ops\<close>.
\<close>

section \<open>The executor\<close>

text \<open>
  What the wrapper touches of the inner executor: its receipts, its gas counter, and the bundle of
  the database under its EVM. \<open>'x\<close> is the rest of it.
\<close>

record ('log, 'u, 'x) FlashblocksBlockExecutor =
  ex_receipts :: "'log OpReceipt list"
  ex_gas_used :: u64
  ex_bundle_state :: 'u
  ex_rest :: 'x

record ('e, 'tx, 'log, 'u, 'x, 'f, 'out, 'res, 'hook) inner_ops =
  in_new :: "'u \<Rightarrow> 'x"
  in_apply_pre_execution_changes ::
    "('log, 'u, 'x) FlashblocksBlockExecutor \<Rightarrow> ('e, ('log, 'u, 'x) FlashblocksBlockExecutor) result"
  in_execute_transaction ::
    "'tx \<Rightarrow> 'f \<Rightarrow> ('log, 'u, 'x) FlashblocksBlockExecutor \<Rightarrow>
       ('e, u64 option \<times> ('log, 'u, 'x) FlashblocksBlockExecutor) result"
  in_execute_without_commit ::
    "'tx \<Rightarrow> ('log, 'u, 'x) FlashblocksBlockExecutor \<Rightarrow> ('e, 'res \<times> ('log, 'u, 'x) FlashblocksBlockExecutor) result"
  in_commit_transaction ::
    "'res \<Rightarrow> 'tx \<Rightarrow> ('log, 'u, 'x) FlashblocksBlockExecutor \<Rightarrow>
       ('e, u64 \<times> ('log, 'u, 'x) FlashblocksBlockExecutor) result"
  in_set_state_hook :: "'hook option \<Rightarrow> ('log, 'u, 'x) FlashblocksBlockExecutor \<Rightarrow> ('log, 'u, 'x) FlashblocksBlockExecutor"
  in_finish ::
    "('log, 'u, 'x) FlashblocksBlockExecutor \<Rightarrow> ('e, 'u \<times> 'out) result"
  in_merge_transitions :: "'u \<Rightarrow> 'u"

definition executor_new ::
  "('e, 'tx, 'log, 'u, 'x, 'f, 'out, 'res, 'hook) inner_ops \<Rightarrow> 'u \<Rightarrow> ('log, 'u, 'x) FlashblocksBlockExecutor" where
  "executor_new ops db_bundle =
     \<lparr>ex_receipts = [], ex_gas_used = 0, ex_bundle_state = db_bundle, ex_rest = in_new ops db_bundle\<rparr>"

definition with_bundle_prestate ::
  "('u, 'i, 'slot, 'st) bundle_ops \<Rightarrow> 'u \<Rightarrow> ('log, 'u, 'x) FlashblocksBlockExecutor \<Rightarrow>
     ('log, 'u, 'x) FlashblocksBlockExecutor" where
  "with_bundle_prestate bundles pre_state self =
     self\<lparr>ex_bundle_state := bu_extend bundles (ex_bundle_state self) pre_state\<rparr>"

definition with_receipts ::
  "'log OpReceipt list \<Rightarrow> ('log, 'u, 'x) FlashblocksBlockExecutor \<Rightarrow> ('log, 'u, 'x) FlashblocksBlockExecutor"
where
  "with_receipts receipts self = self\<lparr>ex_receipts := ex_receipts self @ receipts\<rparr>"

definition with_gas_used ::
  "u64 \<Rightarrow> ('log, 'u, 'x) FlashblocksBlockExecutor \<Rightarrow> ('log, 'u, 'x) FlashblocksBlockExecutor" where
  "with_gas_used gas_used self = self\<lparr>ex_gas_used := ex_gas_used self + gas_used\<rparr>"

text \<open>The methods of \<open>BlockExecutor\<close> are those of the inner executor.\<close>

definition executor_apply_pre_execution_changes ::
  "('e, 'tx, 'log, 'u, 'x, 'f, 'out, 'res, 'hook) inner_ops \<Rightarrow> ('log, 'u, 'x) FlashblocksBlockExecutor \<Rightarrow> ('e, ('log, 'u, 'x) FlashblocksBlockExecutor) result" where
  "executor_apply_pre_execution_changes ops self = in_apply_pre_execution_changes ops self"

definition execute_transaction_with_commit_condition ::
  "('e, 'tx, 'log, 'u, 'x, 'f, 'out, 'res, 'hook) inner_ops \<Rightarrow> 'tx \<Rightarrow> 'f \<Rightarrow> ('log, 'u, 'x) FlashblocksBlockExecutor \<Rightarrow>
     ('e, u64 option \<times> ('log, 'u, 'x) FlashblocksBlockExecutor) result" where
  "execute_transaction_with_commit_condition ops tx f self = in_execute_transaction ops tx f self"

definition execute_transaction_without_commit ::
  "('e, 'tx, 'log, 'u, 'x, 'f, 'out, 'res, 'hook) inner_ops \<Rightarrow> 'tx \<Rightarrow> ('log, 'u, 'x) FlashblocksBlockExecutor \<Rightarrow>
     ('e, 'res \<times> ('log, 'u, 'x) FlashblocksBlockExecutor) result" where
  "execute_transaction_without_commit ops tx self = in_execute_without_commit ops tx self"

definition commit_transaction ::
  "('e, 'tx, 'log, 'u, 'x, 'f, 'out, 'res, 'hook) inner_ops \<Rightarrow> 'res \<Rightarrow> 'tx \<Rightarrow> ('log, 'u, 'x) FlashblocksBlockExecutor \<Rightarrow>
     ('e, u64 \<times> ('log, 'u, 'x) FlashblocksBlockExecutor) result" where
  "commit_transaction ops result_and_state tx self = in_commit_transaction ops result_and_state tx self"

definition set_state_hook ::
  "('e, 'tx, 'log, 'u, 'x, 'f, 'out, 'res, 'hook) inner_ops \<Rightarrow> 'hook option \<Rightarrow> ('log, 'u, 'x) FlashblocksBlockExecutor \<Rightarrow> ('log, 'u, 'x) FlashblocksBlockExecutor" where
  "set_state_hook ops hook self = in_set_state_hook ops hook self"

definition executor_finish ::
  "('e, 'tx, 'log, 'u, 'x, 'f, 'out, 'res, 'hook) inner_ops \<Rightarrow> ('log, 'u, 'x) FlashblocksBlockExecutor \<Rightarrow> ('e, 'u \<times> 'out) result" where
  "executor_finish ops self = in_finish ops self"

lemmas executor_methods = executor_apply_pre_execution_changes_def execute_transaction_with_commit_condition_def
  execute_transaction_without_commit_def commit_transaction_def set_state_hook_def executor_finish_def

text \<open>The factory: the pre-state it was given, if any, goes into every executor it creates.\<close>

record 'u FlashblocksBlockExecutorFactory =
  ef_pre_state :: "'u option"

definition factory_new :: "'u FlashblocksBlockExecutorFactory" where
  "factory_new = \<lparr>ef_pre_state = None\<rparr>"

definition set_pre_state :: "'u \<Rightarrow> 'u FlashblocksBlockExecutorFactory \<Rightarrow> 'u FlashblocksBlockExecutorFactory" where
  "set_pre_state pre_state self = self\<lparr>ef_pre_state := Some pre_state\<rparr>"

definition take_bundle :: "'u FlashblocksBlockExecutorFactory \<Rightarrow> 'u option \<times> 'u FlashblocksBlockExecutorFactory" where
  "take_bundle self = (ef_pre_state self, self\<lparr>ef_pre_state := None\<rparr>)"

definition create_executor ::
  "('e, 'tx, 'log, 'u, 'x, 'f, 'out, 'res, 'hook) inner_ops \<Rightarrow> ('u, 'i, 'slot, 'st) bundle_ops \<Rightarrow>
     'u FlashblocksBlockExecutorFactory \<Rightarrow> 'u \<Rightarrow> ('log, 'u, 'x) FlashblocksBlockExecutor" where
  "create_executor ops bundles self db_bundle =
     (case ef_pre_state self of
        Some pre_state \<Rightarrow> with_bundle_prestate bundles pre_state (executor_new ops db_bundle)
      | None \<Rightarrow> executor_new ops db_bundle)"

section \<open>The block builder\<close>

record ('tx, 'log, 'u, 'x, 'ctx) FlashblocksBlockBuilder =
  bb_ctx :: 'ctx
  bb_executor :: "('log, 'u, 'x) FlashblocksBlockExecutor"
  bb_txs :: "'tx list"

definition block_builder_new ::
  "'ctx \<Rightarrow> ('log, 'u, 'x) FlashblocksBlockExecutor \<Rightarrow> 'tx list \<Rightarrow>
     ('tx, 'log, 'u, 'x, 'ctx) FlashblocksBlockBuilder" where
  "block_builder_new ctx executor transactions =
     \<lparr>bb_ctx = ctx, bb_executor = executor, bb_txs = transactions\<rparr>"

definition apply_pre_execution_changes ::
  "('e, 'tx, 'log, 'u, 'x, 'f, 'out, 'res, 'hook) inner_ops \<Rightarrow> ('tx, 'log, 'u, 'x, 'ctx) FlashblocksBlockBuilder \<Rightarrow>
     ('e, ('tx, 'log, 'u, 'x, 'ctx) FlashblocksBlockBuilder) result" where
  "apply_pre_execution_changes ops self =
     bind_result (executor_apply_pre_execution_changes ops (bb_executor self))
       (\<lambda>executor. Ok (self\<lparr>bb_executor := executor\<rparr>))"

text \<open>
  The transactions of the builder are executed by reth's \<open>BasicBlockBuilder\<close>, the parameter \<open>basic\<close>; the
  executor can be had at any time, and at the end.
\<close>

definition builder_execute_transaction ::
  "('tx \<Rightarrow> 'f \<Rightarrow> ('tx, 'log, 'u, 'x, 'ctx) FlashblocksBlockBuilder \<Rightarrow>
       ('e, u64 option \<times> ('tx, 'log, 'u, 'x, 'ctx) FlashblocksBlockBuilder) result) \<Rightarrow>
     'tx \<Rightarrow> 'f \<Rightarrow> ('tx, 'log, 'u, 'x, 'ctx) FlashblocksBlockBuilder \<Rightarrow>
     ('e, u64 option \<times> ('tx, 'log, 'u, 'x, 'ctx) FlashblocksBlockBuilder) result" where
  "builder_execute_transaction basic tx f self = basic tx f self"

definition into_executor ::
  "('tx, 'log, 'u, 'x, 'ctx) FlashblocksBlockBuilder \<Rightarrow> ('log, 'u, 'x) FlashblocksBlockExecutor" where
  "into_executor self = bb_executor self"

text \<open>
  The outcome of \<open>finish\<close>: execution result, hashed state, trie updates and the block with its
  senders. The assembler gets what the code passes to it: the context, the transactions, the
  result, the flattened bundle and the state root.
\<close>

record ('tx, 'w, 'b, 'out, 'h, 't) BlockBuilderOutcome =
  bo_execution_result :: 'out
  bo_hashed_state :: 'h
  bo_trie_updates :: 't
  bo_block :: "('tx, 'w, 'b) Block \<times> address list"

definition block_builder_finish ::
  "('e, 'tx, 'log, 'u, 'x, 'f, 'out, 'res, 'hook) inner_ops \<Rightarrow> 'tx tx_ops \<Rightarrow> ('u, 'i, 'slot, 'st) bundle_ops \<Rightarrow>
     ('e, 'u, 'h, 't) state_provider \<Rightarrow>
     ('ctx \<Rightarrow> 'tx list \<Rightarrow> 'out \<Rightarrow> 'u \<Rightarrow> b256 \<Rightarrow> ('e, ('tx, 'w, 'b) Block) result) \<Rightarrow>
     ('tx, 'log, 'u, 'x, 'ctx) FlashblocksBlockBuilder \<Rightarrow>
     ('e, ('tx, 'w, 'b, 'out, 'h, 't) BlockBuilderOutcome) result" where
  "block_builder_finish ops txops bundles state assemble_block self =
     bind_result (executor_finish ops (bb_executor self)) (\<lambda>(bundle_state, res).
     let bundle_state = in_merge_transitions ops bundle_state;
         bundle_state = flatten_bundle bundles bundle_state;
         hashed_state = sp_hashed_post_state state bundle_state in
     bind_result (sp_state_root_with_updates state hashed_state) (\<lambda>(state_root, trie_updates).
     let transactions = bb_txs self; senders = map (tx_signer txops) transactions in
     bind_result (assemble_block (bb_ctx self) transactions res bundle_state state_root) (\<lambda>blck.
     Ok \<lparr>bo_execution_result = res, bo_hashed_state = hashed_state, bo_trie_updates = trie_updates,
         bo_block = (blck, senders)\<rparr>)))"

section \<open>The assembler\<close>

text \<open>\<open>FlashblocksBlockAssembler\<close> is reth's assembler for the chain: its constructor and its operation.\<close>

record ('spec, 'a) FlashblocksBlockAssembler =
  ba_inner :: 'a

definition assembler_new :: "('spec \<Rightarrow> 'a) \<Rightarrow> 'spec \<Rightarrow> ('spec, 'a) FlashblocksBlockAssembler" where
  "assembler_new op_new chain_spec = \<lparr>ba_inner = op_new chain_spec\<rparr>"

definition assembler_assemble_block ::
  "('a \<Rightarrow> 'input \<Rightarrow> ('e, 'blk) result) \<Rightarrow> ('spec, 'a) FlashblocksBlockAssembler \<Rightarrow> 'input \<Rightarrow> ('e, 'blk) result" where
  "assembler_assemble_block op_assemble self input = op_assemble (ba_inner self) input"

definition assembler_clone :: "('a \<Rightarrow> 'a) \<Rightarrow> ('spec, 'a) FlashblocksBlockAssembler \<Rightarrow> ('spec, 'a) FlashblocksBlockAssembler" where
  "assembler_clone op_clone self = \<lparr>ba_inner = op_clone (ba_inner self)\<rparr>"

section \<open>Properties\<close>

text \<open>
  An executor created for a later flashblock starts from the earlier ones: its receipts and
  gas are the given ones, its bundle the database's extended by the pre-state; a factory whose
  bundle was taken creates executors without a pre-state.
\<close>

theorem executor_starts_from_prestate:
  "let ex = with_gas_used gas (with_receipts receipts
        (create_executor ops bundles (set_pre_state pre factory_new) db_bundle)) in
     ex_receipts ex = receipts \<and> ex_gas_used ex = gas \<and>
     ex_bundle_state ex = bu_extend bundles db_bundle pre \<and>
     fst (take_bundle (set_pre_state pre factory_new)) = Some pre \<and>
     create_executor ops bundles (snd (take_bundle (set_pre_state pre factory_new))) db_bundle =
       executor_new ops db_bundle"
  by (simp add: Let_def with_gas_used_def with_receipts_def create_executor_def set_pre_state_def
      with_bundle_prestate_def executor_new_def take_bundle_def)

text \<open>
  Finishing a block leaves one transition of reverts. Given the read-back law of the bundle,
  a finished block is assembled over a bundle whose reverts are the flattened reverts of the
  merged transitions, its state root is that bundle's, and its senders are the signers of its
  transactions.
\<close>

theorem finish_flattens_reverts:
  assumes "block_builder_finish ops txops bundles state assemble_block self = Ok outcome"
    and "\<And>u rs. bu_reverts bundles (bu_set_reverts bundles u rs) = rs"
  shows "\<exists>merged_bundle final res root.
    in_finish ops (bb_executor self) = Ok (merged_bundle, res) \<and>
    bu_reverts bundles final = flatten_reverts (bu_reverts bundles (in_merge_transitions ops merged_bundle)) \<and>
    length (bu_reverts bundles final) = 1 \<and>
    sp_state_root_with_updates state (sp_hashed_post_state state final) = Ok (root, bo_trie_updates outcome) \<and>
    assemble_block (bb_ctx self) (bb_txs self) res final root = Ok (fst (bo_block outcome)) \<and>
    snd (bo_block outcome) = map (tx_signer txops) (bb_txs self)"
proof -
  obtain mb res root updates blck where
    finish: "in_finish ops (bb_executor self) = Ok (mb, res)"
    and root: "sp_state_root_with_updates state (sp_hashed_post_state state
      (flatten_bundle bundles (in_merge_transitions ops mb))) = Ok (root, updates)"
    and blck: "assemble_block (bb_ctx self) (bb_txs self) res
      (flatten_bundle bundles (in_merge_transitions ops mb)) root = Ok blck"
    and outcome: "bo_trie_updates outcome = updates" "bo_block outcome = (blck, map (tx_signer txops) (bb_txs self))"
    using assms(1) by (auto simp: block_builder_finish_def executor_methods Let_def split: prod.splits)
  have "bu_reverts bundles (flatten_bundle bundles u) = flatten_reverts (bu_reverts bundles u)" for u
    by (simp add: flatten_bundle_def assms(2))
  with finish root blck outcome show ?thesis
    by (intro exI [of _ mb] exI [of _ "flatten_bundle bundles (in_merge_transitions ops mb)"]
        exI [of _ res] exI [of _ root]) (simp add: flatten_reverts_def)
qed

text \<open>Operations that succeed at once, over bundles that are their reverts.\<close>

definition trivial_ops :: "(unit, nat, unit, (unit, unit, unit) reverts, unit, unit, unit, unit, unit) inner_ops" where
  "trivial_ops = \<lparr>in_new = (\<lambda>_. ()), in_apply_pre_execution_changes = Ok,
     in_execute_transaction = (\<lambda>_ _ ex. Ok (Some 1, ex)),
     in_execute_without_commit = (\<lambda>_ ex. Ok ((), ex)), in_commit_transaction = (\<lambda>_ _ ex. Ok (1, ex)),
     in_set_state_hook = (\<lambda>_ ex. ex),
     in_finish = (\<lambda>ex. Ok (ex_bundle_state ex, ())), in_merge_transitions = (\<lambda>u. u @ u)\<rparr>"

definition revert_bundles :: "((unit, unit, unit) reverts, unit, unit, unit) bundle_ops" where
  "revert_bundles = \<lparr>bu_default = [], bu_extend = (@), bu_reverts = (\<lambda>u. u), bu_set_reverts = (\<lambda>_ rs. rs)\<rparr>"

definition trivial_provider :: "(unit, (unit, unit, unit) reverts, nat, unit) state_provider" where
  "trivial_provider = \<lparr>sp_withdrawals_root = (\<lambda>_. Ok 0), sp_hashed_post_state = length,
     sp_state_root_with_updates = (\<lambda>h. Ok (of_nat h, ())), sp_account_nonce = (\<lambda>_. Ok None)\<rparr>"

definition example_assemble :: "unit \<Rightarrow> nat list \<Rightarrow> unit \<Rightarrow> (unit, unit, unit) reverts \<Rightarrow> b256 \<Rightarrow>
    (unit, (nat, unit, unit) Block) result" where
  "example_assemble _ txs _ _ root = Ok
     \<lparr>bk_header = published_header (be_hashing (example_env () ::
        (unit, nat, unit, nat, nat, unit, unit, unit, nat, unit) build_env)) example_block txs fresh_totals root
        (None, None) (None, None) None,
      bk_body = \<lparr>bb_transactions = txs, bb_ommers = [], bb_withdrawals = None, bb_block_access_list = None\<rparr>\<rparr>"

theorem finish_flattens_reverts_witness:
  "\<exists>outcome. block_builder_finish trivial_ops example_tx revert_bundles trivial_provider example_assemble
      (block_builder_new () (executor_new trivial_ops [[], []]) [4, 5]) = Ok outcome \<and>
     snd (bo_block outcome) = [4, 5]"
proof -
  let ?self = "block_builder_new () (executor_new trivial_ops [[], []]) [4, 5]"
  have "\<exists>outcome. block_builder_finish trivial_ops example_tx revert_bundles trivial_provider
      example_assemble ?self = Ok outcome"
    by (simp add: block_builder_finish_def executor_methods trivial_ops_def executor_new_def block_builder_new_def
        trivial_provider_def example_assemble_def Let_def)
  then obtain outcome where ok: "block_builder_finish trivial_ops example_tx revert_bundles trivial_provider
      example_assemble ?self = Ok outcome" ..
  have "bu_reverts revert_bundles (bu_set_reverts revert_bundles u rs) = rs" for u rs
    by (simp add: revert_bundles_def)
  from finish_flattens_reverts [OF ok this] ok show ?thesis
    by (auto simp: block_builder_new_def example_tx_def)
qed

end
