(* ===== verification/FlashblockBuilder.thy ===== *)
theory FlashblockBuilder
  imports BlockBuilder
begin

text \<open>
  The builder a node runs on a received flashblock, \<^verbatim>\<open>src/flashblocks/builder.rs\<close>: it starts from
  the committed payload, executes the flashblock's transactions independently of each other with
  the help of the access list, merges the results in order and assembles the block.

  The EVM, the state database, the access lists and the context builders are parameters: the
  record \<open>exec_ops\<close>. What the code does between them is the model.
\<close>

section \<open>Parameters\<close>

datatype 'e builder_error = MissingPayload | TxRecoveryFailed | Library 'e

text \<open>The state of the access list in the database, and the database itself with the rest of it.\<close>

record 'bal BalState =
  bs_bal_builder :: "'bal option"
  bs_bal :: "'bal option"
  bs_bal_index :: u64

record ('bal, 's) revm_state =
  rs_bal_state :: "'bal BalState"
  rs_inner :: 's

record evm_env =
  ev_beneficiary :: address
  ev_prevrandao :: "b256 option"
  ev_basefee :: u64
  ev_difficulty :: u256

record ('tx, 'w) builder_ctx =
  cx_attributes :: "('tx, 'w) OpPayloadBuilderAttributes"
  cx_parent_hash :: b256
  cx_parent_number :: u64
  cx_parent_gas_limit :: u64

text \<open>
  An access list is a list of accounts \<open>'acc\<close>; decoded it is a map from addresses, kept in its
  order, to account info and storage (\<open>'inf\<close>, \<open>'sto\<close>), which can be extended.
\<close>

record ('inf, 'sto) AccountBal =
  ab_account_info :: 'inf
  ab_storage :: 'sto

type_synonym ('inf, 'sto) bal = "(address \<times> ('inf, 'sto) AccountBal) list"

record NextBlockAttributes =
  nb_timestamp :: u64
  nb_suggested_fee_recipient :: address
  nb_prev_randao :: b256
  nb_gas_limit :: u64
  nb_parent_beacon_block_root :: "b256 option"
  nb_extra_data :: bytes

record ('e, 'tx, 'w, 'log, 'u, 's, 'acc, 'inf, 'sto, 'x, 'ctx) exec_ops =
  xo_recover :: "'tx \<Rightarrow> 'tx option"
  xo_account_from_alloy :: "'acc \<Rightarrow> (address \<times> ('inf, 'sto) AccountBal) option"
  xo_extend_info :: "'inf \<Rightarrow> 'inf \<Rightarrow> 'inf"
  xo_extend_storage :: "'sto \<Rightarrow> 'sto \<Rightarrow> 'sto"
  xo_bal_into_alloy :: "('inf, 'sto) bal \<Rightarrow> 'acc list"
  xo_new_state :: "'u \<Rightarrow> 's"
  xo_holocene :: "u64 \<Rightarrow> bool"
  xo_holocene_extra_data :: "('tx, 'w) OpPayloadBuilderAttributes \<Rightarrow> ('e builder_error, bytes) result"
  xo_next_evm_env :: "NextBlockAttributes \<Rightarrow> ('e builder_error, evm_env) result"
  xo_context_for_next_block :: "NextBlockAttributes \<Rightarrow> ('e builder_error, 'ctx) result"
  xo_executor :: "('inf, 'sto) bal BalState \<Rightarrow> 's \<Rightarrow> evm_env \<Rightarrow> 'ctx \<Rightarrow> ('log, 'u, 'x) FlashblocksBlockExecutor"
  xo_pre_execution ::
    "('tx, 'log, 'u, 'x, 'ctx) FlashblocksBlockBuilder \<Rightarrow> (('inf, 'sto) bal, 's) revm_state \<Rightarrow>
       ('e builder_error, (('inf, 'sto) bal, 's) revm_state) result"
  xo_transact ::
    "'u \<Rightarrow> ('inf, 'sto) bal BalState \<Rightarrow> evm_env \<Rightarrow> 'tx \<Rightarrow>
       ('e builder_error, 'log ExecutionResult \<times> 'u \<times> ('inf, 'sto) bal option) result"
  xo_nonce :: "(('inf, 'sto) bal, 's) revm_state \<Rightarrow> address \<Rightarrow> ('e builder_error, u64 option) result"

section \<open>The committed payload\<close>

record ('tx, 'log, 'u, 'acc) prepared =
  pr_bundle :: 'u
  pr_receipts :: "'log OpReceipt list"
  pr_transactions :: "'tx list"
  pr_gas_used :: "u64 option"
  pr_fees :: u256
  pr_previous_bal :: "'acc list option"
  pr_offset :: u64

definition recover_all ::
  "('tx \<Rightarrow> 'tx option) \<Rightarrow> 'tx list \<Rightarrow> ('e builder_error, 'tx list) result" where
  "recover_all recover txs = collect_results (map (\<lambda>tx. ok_or (recover tx) TxRecoveryFailed) txs)"

text \<open>Step 1 of \<open>build\<close>: what the committed payload brings, or a fresh start.\<close>

definition prepare ::
  "('e, 'tx, 'w, 'log, 'u, 's, 'acc, 'inf, 'sto, 'x, 'ctx) exec_ops \<Rightarrow> ('u, 'i, 'slot, 'st) bundle_ops \<Rightarrow>
     ('tx, 'w, 'acc list, 'log, 'u, 'h, 't) built_payload option \<Rightarrow>
     ('e builder_error, ('tx, 'log, 'u, 'acc) prepared) result" where
  "prepare ops bundles committed_payload =
     (case committed_payload of
        Some payload \<Rightarrow>
          bind_result (ok_or (bp_executed_block payload) MissingPayload) (\<lambda>execution_result.
          let receipts = concat (xb_receipts execution_result);
              transactions_offset = of_nat (length (block_txs (bp_block payload)) + 1) in
          bind_result (recover_all (xo_recover ops) (block_txs (bp_block payload))) (\<lambda>transactions.
          Ok \<lparr>pr_bundle = xb_bundle execution_result, pr_receipts = receipts,
              pr_transactions = transactions,
              pr_gas_used = Some (h_gas_used (bk_header (bp_block payload))),
              pr_fees = bp_fees payload,
              pr_previous_bal = bb_block_access_list (bk_body (bp_block payload)),
              pr_offset = transactions_offset\<rparr>))
      | None \<Rightarrow>
          Ok \<lparr>pr_bundle = bu_default bundles, pr_receipts = [], pr_transactions = [],
              pr_gas_used = None, pr_fees = 0, pr_previous_bal = Some [], pr_offset = 0\<rparr>)"

section \<open>Access lists\<close>

text \<open>Decoding an access list: an account that cannot be decoded panics (\<open>expect\<close>).\<close>

definition bal_from_alloy ::
  "('e, 'tx, 'w, 'log, 'u, 's, 'acc, 'inf, 'sto, 'x, 'ctx) exec_ops \<Rightarrow> 'acc list \<Rightarrow>
     ('er, ('inf, 'sto) bal) result" where
  "bal_from_alloy ops accs = collect_results (map (\<lambda>a. unwrap (xo_account_from_alloy ops a)) accs)"

text \<open>The initial state of the access list in the database.\<close>

definition initial_bal_state ::
  "('e, 'tx, 'w, 'log, 'u, 's, 'acc, 'inf, 'sto, 'x, 'ctx) exec_ops \<Rightarrow> 'acc list option \<Rightarrow>
     'acc list option \<Rightarrow> u64 \<Rightarrow> ('er, ('inf, 'sto) bal BalState) result" where
  "initial_bal_state ops previous_bal bal transactions_offset =
     bind_result (case previous_bal of None \<Rightarrow> Ok [] | Some accs \<Rightarrow> bal_from_alloy ops accs) (\<lambda>bal_builder.
       case bal of
         None \<Rightarrow> Ok \<lparr>bs_bal_builder = None, bs_bal = None, bs_bal_index = 0\<rparr>
       | Some accs \<Rightarrow>
           bind_result (bal_from_alloy ops accs) (\<lambda>b.
           Ok \<lparr>bs_bal_builder = Some bal_builder, bs_bal = Some b, bs_bal_index = transactions_offset\<rparr>))"

text \<open>Merging a transaction's access list into the final one: \<open>and_modify\<close> or \<open>or_insert\<close>.\<close>

definition extend_account ::
  "('e, 'tx, 'w, 'log, 'u, 's, 'acc, 'inf, 'sto, 'x, 'ctx) exec_ops \<Rightarrow> ('inf, 'sto) AccountBal \<Rightarrow>
     ('inf, 'sto) AccountBal \<Rightarrow> ('inf, 'sto) AccountBal" where
  "extend_account ops old new =
     \<lparr>ab_account_info = xo_extend_info ops (ab_account_info old) (ab_account_info new),
      ab_storage = xo_extend_storage ops (ab_storage old) (ab_storage new)\<rparr>"

fun merge_bal_account ::
  "('e, 'tx, 'w, 'log, 'u, 's, 'acc, 'inf, 'sto, 'x, 'ctx) exec_ops \<Rightarrow> ('inf, 'sto) bal \<Rightarrow>
     address \<times> ('inf, 'sto) AccountBal \<Rightarrow> ('inf, 'sto) bal" where
  "merge_bal_account ops [] (addr, acc_bal) = [(addr, acc_bal)]"
| "merge_bal_account ops ((a, account_bal) # accounts) (addr, acc_bal) =
     (if a = addr then (a, extend_account ops account_bal acc_bal) # accounts
      else (a, account_bal) # merge_bal_account ops accounts (addr, acc_bal))"

definition merge_bal ::
  "('e, 'tx, 'w, 'log, 'u, 's, 'acc, 'inf, 'sto, 'x, 'ctx) exec_ops \<Rightarrow> ('inf, 'sto) bal \<Rightarrow>
     ('inf, 'sto) bal \<Rightarrow> ('inf, 'sto) bal" where
  "merge_bal ops final_bal parallel_bal = foldl (merge_bal_account ops) final_bal parallel_bal"

section \<open>The block builder and the indices\<close>

text \<open>\<open>Self::block_builder\<close>: environment, executor with the earlier receipts and gas, builder.\<close>

definition block_builder ::
  "('e, 'tx, 'w, 'log, 'u, 's, 'acc, 'inf, 'sto, 'x, 'ctx) exec_ops \<Rightarrow>
     (('inf, 'sto) bal, 's) revm_state \<Rightarrow> 'tx list \<Rightarrow> 'log OpReceipt list \<Rightarrow> u64 option \<Rightarrow>
     ('tx, 'w) builder_ctx \<Rightarrow> ('e builder_error, ('tx, 'log, 'u, 'x, 'ctx) FlashblocksBlockBuilder) result"
where
  "block_builder ops db transactions receipts cumulative_gas_used ctx =
     (let attrs = oa_payload_attributes (cx_attributes ctx) in
      bind_result (if xo_holocene ops (ea_timestamp attrs)
                   then xo_holocene_extra_data ops (cx_attributes ctx) else Ok []) (\<lambda>extra_data.
      let attributes = \<lparr>nb_timestamp = ea_timestamp attrs,
            nb_suggested_fee_recipient = ea_suggested_fee_recipient attrs,
            nb_prev_randao = ea_prev_randao attrs,
            nb_gas_limit = unwrap_or (oa_gas_limit (cx_attributes ctx)) (cx_parent_gas_limit ctx),
            nb_parent_beacon_block_root = ea_parent_beacon_block_root attrs,
            nb_extra_data = extra_data\<rparr> in
      bind_result (xo_next_evm_env ops attributes) (\<lambda>env.
      bind_result (xo_context_for_next_block ops attributes) (\<lambda>execution_ctx.
      let executor = with_receipts receipts (xo_executor ops (rs_bal_state db) (rs_inner db) env execution_ctx);
          executor = (case cumulative_gas_used of Some gas \<Rightarrow> with_gas_used gas executor | None \<Rightarrow> executor)
      in Ok (block_builder_new execution_ctx executor transactions)))))"

text \<open>\<open>enumerate\<close> with the offset, on \<open>u64\<close>.\<close>

definition index_txs :: "u64 \<Rightarrow> 'tx list \<Rightarrow> (u64 \<times> 'tx) list" where
  "index_txs transactions_offset txs =
     map (\<lambda>(idx, tx). (of_nat idx + transactions_offset, tx)) (zip [0..<length txs] txs)"

section \<open>Executing and merging\<close>

record ('tx, 'log, 'u, 'inf, 'sto) ParallelResult =
  pl_index :: u64
  pl_bundle_state :: 'u
  pl_exec_result :: "'log ExecutionResult"
  pl_tx :: 'tx
  pl_bal :: "('inf, 'sto) bal option"

text \<open>
  The closure of the parallel iterator: a fresh database state over the committed bundle, with the
  access list at the transaction's index. The iterations share nothing, so their order does not
  matter; the collected result is an error when one of them fails.
\<close>

definition execute_one ::
  "('e, 'tx, 'w, 'log, 'u, 's, 'acc, 'inf, 'sto, 'x, 'ctx) exec_ops \<Rightarrow> 'u \<Rightarrow> ('inf, 'sto) bal BalState \<Rightarrow>
     evm_env \<Rightarrow> u64 \<times> 'tx \<Rightarrow> ('e builder_error, ('tx, 'log, 'u, 'inf, 'sto) ParallelResult) result" where
  "execute_one ops bnd bal_state env x =
     (let idx = fst x; tx = snd x in
      bind_result (xo_transact ops bnd (bal_state\<lparr>bs_bal_index := idx\<rparr>) env tx)
        (\<lambda>(exec_result, bundle_state, bal).
          Ok \<lparr>pl_index = idx, pl_bundle_state = bundle_state, pl_exec_result = exec_result,
              pl_tx = tx, pl_bal = bal\<rparr>))"

definition execute_all ::
  "('e, 'tx, 'w, 'log, 'u, 's, 'acc, 'inf, 'sto, 'x, 'ctx) exec_ops \<Rightarrow> 'u \<Rightarrow> ('inf, 'sto) bal BalState \<Rightarrow>
     evm_env \<Rightarrow> (u64 \<times> 'tx) list \<Rightarrow>
     ('e builder_error, ('tx, 'log, 'u, 'inf, 'sto) ParallelResult list) result" where
  "execute_all ops bnd bal_state env indexed =
     bind_result (collect_results (map (execute_one ops bnd bal_state env) indexed))
       (\<lambda>parallel_results. Ok (sort_key (\<lambda>r. unat (pl_index r)) parallel_results))"

text \<open>The loop over the sorted results.\<close>

definition merge_result ::
  "('e, 'tx, 'w, 'log, 'u, 's, 'acc, 'inf, 'sto, 'x, 'ctx) exec_ops \<Rightarrow> 'tx tx_ops \<Rightarrow> hardforks \<Rightarrow>
     ('u, 'i, 'slot, 'st) bundle_ops \<Rightarrow> u64 \<Rightarrow> u64 \<Rightarrow> (('inf, 'sto) bal, 's) revm_state \<Rightarrow>
     ('tx, 'log, 'u, 'inf, 'sto) ParallelResult \<Rightarrow> ('inf, 'sto) bal \<times> 'u \<times> 'log totals \<Rightarrow>
     ('e builder_error, ('inf, 'sto) bal \<times> 'u \<times> 'log totals) result" where
  "merge_result ops txops forks bundles timestamp basefee state parallel_result parts =
     (case parts of (final_bal, bnd, acc) \<Rightarrow>
      let final_bal = merge_bal ops final_bal (unwrap_or (pl_bal parallel_result) []);
          bnd = bu_extend bundles bnd (pl_bundle_state parallel_result);
          tx = pl_tx parallel_result;
          gas_used_by_tx = er_gas_used (pl_exec_result parallel_result);
          cumulative_gas_used = tot_gas acc + gas_used_by_tx in
      bind_result (if is_deposit txops tx
                   then xo_nonce ops (state\<lparr>rs_bal_state := (rs_bal_state state)
                          \<lparr>bs_bal_index := pl_index parallel_result\<rparr>\<rparr>) (tx_signer txops tx)
                   else Ok None) (\<lambda>deposit_nonce.
      bind_result (miner_fee_of txops basefee tx gas_used_by_tx (tot_fees acc)) (\<lambda>fees.
      bind_result (build_receipt txops forks timestamp tx (pl_exec_result parallel_result)
                     cumulative_gas_used deposit_nonce) (\<lambda>receipt.
      Ok (final_bal, bnd, \<lparr>tot_receipts = tot_receipts acc @ [receipt], tot_fees = fees,
                            tot_gas = cumulative_gas_used\<rparr>)))))"

fun merge_results ::
  "('e, 'tx, 'w, 'log, 'u, 's, 'acc, 'inf, 'sto, 'x, 'ctx) exec_ops \<Rightarrow> 'tx tx_ops \<Rightarrow> hardforks \<Rightarrow>
     ('u, 'i, 'slot, 'st) bundle_ops \<Rightarrow> u64 \<Rightarrow> u64 \<Rightarrow> (('inf, 'sto) bal, 's) revm_state \<Rightarrow>
     ('tx, 'log, 'u, 'inf, 'sto) ParallelResult list \<Rightarrow> ('inf, 'sto) bal \<times> 'u \<times> 'log totals \<Rightarrow>
     ('e builder_error, ('inf, 'sto) bal \<times> 'u \<times> 'log totals) result" where
  "merge_results ops txops forks bundles timestamp basefee state [] parts = Ok parts"
| "merge_results ops txops forks bundles timestamp basefee state (r # rs) parts =
     bind_result (merge_result ops txops forks bundles timestamp basefee state r parts)
       (\<lambda>parts. merge_results ops txops forks bundles timestamp basefee state rs parts)"

section \<open>The built block\<close>

text \<open>The header, from line 453 of the source on: the gas limit is that of the attributes, or 0.\<close>

definition follower_header ::
  "('tx, 'acc list, 'log) hashing \<Rightarrow> ('tx, 'w) builder_ctx \<Rightarrow> evm_env \<Rightarrow> bytes \<Rightarrow> 'tx list \<Rightarrow>
     'log totals \<Rightarrow> b256 \<Rightarrow> b256 option \<times> b256 option \<Rightarrow> u64 option \<times> u64 option \<Rightarrow> 'acc list \<Rightarrow>
     Header" where
  "follower_header hs ctx env extra_data txs acc state_root withdrawals blob_gas alloy_bal =
     \<lparr>h_parent_hash = cx_parent_hash ctx,
      h_ommers_hash = hs_empty_ommer_root_hash hs,
      h_beneficiary = ev_beneficiary env,
      h_state_root = state_root,
      h_transactions_root = hs_transactions_root hs txs,
      h_receipts_root = hs_receipts_root hs (tot_receipts acc)
        (ea_timestamp (oa_payload_attributes (cx_attributes ctx))),
      h_withdrawals_root = fst withdrawals,
      h_logs_bloom = hs_logs_bloom hs (receipt_logs (tot_receipts acc)),
      h_timestamp = ea_timestamp (oa_payload_attributes (cx_attributes ctx)),
      h_mix_hash = unwrap_or (ev_prevrandao env) 0,
      h_nonce = hs_beacon_nonce hs,
      h_base_fee_per_gas = Some (ev_basefee env),
      h_number = cx_parent_number ctx + 1,
      h_gas_limit = unwrap_or (oa_gas_limit (cx_attributes ctx)) 0,
      h_difficulty = ev_difficulty env,
      h_gas_used = tot_gas acc,
      h_extra_data = extra_data,
      h_parent_beacon_block_root = ea_parent_beacon_block_root (oa_payload_attributes (cx_attributes ctx)),
      h_blob_gas_used = snd blob_gas,
      h_excess_blob_gas = fst blob_gas,
      h_requests_hash = snd withdrawals,
      h_block_access_list_hash = Some (hs_access_list_hash hs alloy_bal)\<rparr>"

text \<open>Roots, header and block of the merged results.\<close>

definition assemble_payload ::
  "('e builder_error, 'tx, 'acc list, 'log, 'u, 'i, 'slot, 'st, 'h, 't) build_env \<Rightarrow>
     ('tx, 'w) builder_ctx \<Rightarrow> evm_env \<Rightarrow> bytes \<Rightarrow> 'tx list \<Rightarrow> 'acc list \<Rightarrow> 'u \<Rightarrow> 'log totals \<Rightarrow>
     ('e builder_error, ('tx, 'w, 'acc list, 'log, 'u, 'h, 't) built_payload) result" where
  "assemble_payload benv ctx env extra_data transactions alloy_bal bnd acc =
     (let hs = be_hashing benv; provider = be_provider benv;
          timestamp = ea_timestamp (oa_payload_attributes (cx_attributes ctx));
          bnd = flatten_bundle (be_bundle benv) bnd in
      bind_result (withdrawals_fields (be_forks benv) hs provider timestamp bnd) (\<lambda>withdrawals.
      let blob_gas = blob_gas_fields (be_forks benv) timestamp 0;
          hashed_state = sp_hashed_post_state provider bnd in
      bind_result (sp_state_root_with_updates provider hashed_state) (\<lambda>(state_root, trie_updates).
      let header = follower_header hs ctx env extra_data transactions acc state_root withdrawals blob_gas alloy_bal;
          blck = \<lparr>bk_header = header,
                  bk_body = \<lparr>bb_transactions = transactions, bb_ommers = [], bb_withdrawals = Some [],
                             bb_block_access_list = Some alloy_bal\<rparr>\<rparr>;
          senders = map (tx_signer (be_tx benv)) transactions;
          executed = \<lparr>xb_recovered = (blck, senders), xb_bundle = bnd, xb_receipts = [tot_receipts acc],
                      xb_first_block = cx_parent_number ctx + 1, xb_hashed_state = hashed_state,
                      xb_trie_updates = trie_updates\<rparr>
      in Ok \<lparr>bp_id = ea_id (oa_payload_attributes (cx_attributes ctx)), bp_block = blck,
             bp_hash = hs_header_hash hs header, bp_fees = tot_fees acc,
             bp_executed_block = Some executed\<rparr>)))"

text \<open>
  \<open>FlashblockBuilder::build\<close>. The remaining gas limit and the executor behind the block builder
  are computed and not used further; the pre-execution changes go into the shared state of the
  access list.
\<close>

definition build ::
  "('e, 'tx, 'w, 'log, 'u, 's, 'acc, 'inf, 'sto, 'x, 'ctx) exec_ops \<Rightarrow>
     ('e builder_error, 'tx, 'acc list, 'log, 'u, 'i, 'slot, 'st, 'h, 't) build_env \<Rightarrow>
     ('tx, 'w) builder_ctx \<Rightarrow> ('tx, 'w, 'acc list, 'log, 'u, 'h, 't) built_payload option \<Rightarrow>
     'acc list option \<Rightarrow> evm_env \<Rightarrow> bytes \<Rightarrow>
     ('e builder_error, ('tx, 'w, 'acc list, 'log, 'u, 'h, 't) built_payload BuildOutcomeKind) result"
where
  "build ops benv ctx committed_payload bal env extra_data =
     bind_result (prepare ops (be_bundle benv) committed_payload) (\<lambda>pr.
     bind_result (initial_bal_state ops (pr_previous_bal pr) bal (pr_offset pr)) (\<lambda>bal_state.
     let state = \<lparr>rs_bal_state = bal_state, rs_inner = xo_new_state ops (pr_bundle pr)\<rparr> in
     bind_result (block_builder ops state (pr_transactions pr) (pr_receipts pr) (pr_gas_used pr) ctx) (\<lambda>builder.
     bind_result (if pr_offset pr = 0
                  then bind_result (xo_pre_execution ops builder state) (\<lambda>state. Ok (state, pr_offset pr + 1))
                  else Ok (state, pr_offset pr)) (\<lambda>(state, transactions_offset).
     let bal_state_cloned = rs_bal_state state in
     bind_result (recover_all (xo_recover ops) (map snd (oa_transactions (cx_attributes ctx)))) (\<lambda>attributes_txs.
     bind_result (execute_all ops (pr_bundle pr) bal_state_cloned env
                    (index_txs transactions_offset attributes_txs)) (\<lambda>parallel_results.
     bind_result (merge_results ops (be_tx benv) (be_forks benv) (be_bundle benv)
                    (ea_timestamp (oa_payload_attributes (cx_attributes ctx))) (ev_basefee env) state
                    parallel_results
                    ([], pr_bundle pr, \<lparr>tot_receipts = pr_receipts pr, tot_fees = pr_fees pr,
                                        tot_gas = unwrap_or (pr_gas_used pr) 0\<rparr>))
       (\<lambda>(final_bal, bnd, acc).
     bind_result (assemble_payload benv ctx env extra_data (pr_transactions pr @ attributes_txs)
                    (xo_bal_into_alloy ops final_bal) bnd acc) (\<lambda>payload.
     if oa_no_tx_pool (cx_attributes ctx) then Ok (Freeze payload) else Ok (Better payload)))))))))"

section \<open>Indices and order of the merged results\<close>

lemma index_txs_snd [simp]: "map snd (index_txs off txs) = txs"
  by (simp add: index_txs_def comp_def case_prod_unfold)

lemma length_index_txs [simp]: "length (index_txs off txs) = length txs"
  by (simp add: index_txs_def)

lemma index_txs_nth:
  assumes "unat off + length txs < 2 ^ 64" and "i < length txs"
  shows "snd (index_txs off txs ! i) = txs ! i" and "unat (fst (index_txs off txs ! i)) = i + unat off"
proof -
  have i: "unat (of_nat i :: u64) = i" using assms by (simp add: unat_of_nat)
  show "snd (index_txs off txs ! i) = txs ! i" using assms(2) by (simp add: index_txs_def)
  show "unat (fst (index_txs off txs ! i)) = i + unat off"
    using assms i by (simp add: index_txs_def) (simp add: unat_plus_if_size word_size i)
qed

lemma execute_one_Ok:
  assumes "execute_one ops bnd bal_state env x = Ok r"
  shows "pl_index r = fst x" and "pl_tx r = snd x"
    and "\<exists>b a. xo_transact ops bnd (bal_state\<lparr>bs_bal_index := fst x\<rparr>) env (snd x) = Ok (pl_exec_result r, b, a)"
  using assms by (auto simp: execute_one_def Let_def)

text \<open>The results come out of the sort as they went in: the indices increase with the position.\<close>

lemma execute_all_in_order:
  assumes "execute_all ops bnd bal_state env (index_txs off txs) = Ok rs"
    and "unat off + length txs < 2 ^ 64"
  shows "list_all2 (\<lambda>x r. execute_one ops bnd bal_state env x = Ok r) (index_txs off txs) rs"
    and "map pl_tx rs = txs"
proof -
  obtain rs0 where rs0: "collect_results (map (execute_one ops bnd bal_state env) (index_txs off txs)) = Ok rs0"
    and rs: "rs = sort_key (\<lambda>r. unat (pl_index r)) rs0"
    using assms(1) by (auto simp: execute_all_def)
  from rs0 have map_eq: "map (execute_one ops bnd bal_state env) (index_txs off txs) = map Ok rs0"
    by (simp add: collect_results_eq_Ok)
  have len: "length rs0 = length txs" using arg_cong [OF map_eq, of length] by simp
  have each: "execute_one ops bnd bal_state env (index_txs off txs ! i) = Ok (rs0 ! i)" if "i < length txs" for i
    using arg_cong [OF map_eq, of "\<lambda>l. l ! i"] that len by simp
  have "unat (pl_index (rs0 ! i)) = i + unat off" if "i < length txs" for i
    using execute_one_Ok(1) [OF each [OF that]] index_txs_nth(2) [OF assms(2) that] by simp
  then have "sorted (map (\<lambda>r. unat (pl_index r)) rs0)"
    by (simp add: sorted_iff_nth_mono len)
  then have same: "rs = rs0" unfolding rs by (rule sort_key_id_if_sorted)
  show "list_all2 (\<lambda>x r. execute_one ops bnd bal_state env x = Ok r) (index_txs off txs) rs"
    unfolding same by (simp add: list_all2_conv_all_nth len each)
  show "map pl_tx rs = txs"
    unfolding same using len execute_one_Ok(2) [OF each] index_txs_nth(1) [OF assms(2)]
    by (intro nth_equalityI) simp_all
qed

lemma build_receipt_Ok:
  assumes "build_receipt ops forks timestamp tx res gas nonce = Ok r"
  shows "receipt_of ops (tx, res) r" and "rc_cumulative_gas_used (receipt_inner r) = gas"
  using assms by (auto simp: build_receipt_def Let_def receipt_of_def split: OpTxType.splits)

lemma merge_result_totals:
  assumes "merge_result ops txops forks bundles timestamp basefee state r (fb, b, acc) = Ok (fb', b', acc')"
  shows "totals_after txops basefee [(pl_tx r, pl_exec_result r)] acc acc'"
proof -
  let ?gas = "er_gas_used (pl_exec_result r)"
  obtain nonce fees receipt where
    fees: "miner_fee_of txops basefee (pl_tx r) ?gas (tot_fees acc) = (Ok fees :: ('a builder_error, _) result)"
    and receipt: "build_receipt txops forks timestamp (pl_tx r) (pl_exec_result r) (tot_gas acc + ?gas) nonce =
      (Ok receipt :: ('a builder_error, _) result)"
    and acc': "acc' = \<lparr>tot_receipts = tot_receipts acc @ [receipt], tot_fees = fees, tot_gas = tot_gas acc + ?gas\<rparr>"
    using assms unfolding merge_result_def Let_def by (fastforce split: prod.splits)
  show ?thesis
    unfolding acc' by (rule totals_after_single [OF build_receipt_Ok [OF receipt] miner_fee_of_Ok [OF fees]])
qed

lemma merge_results_totals:
  assumes "merge_results ops txops forks bundles timestamp basefee state rs (fb, b, acc) = Ok (fb', b', acc')"
  shows "totals_after txops basefee (map (\<lambda>r. (pl_tx r, pl_exec_result r)) rs) acc acc'"
  using assms
proof (induction rs arbitrary: fb b acc)
  case Nil
  then show ?case by (simp add: totals_after_refl)
next
  case (Cons r rs)
  from Cons.prems obtain fb1 b1 acc1 where
    step: "merge_result ops txops forks bundles timestamp basefee state r (fb, b, acc) = Ok (fb1, b1, acc1)"
    and rest: "merge_results ops txops forks bundles timestamp basefee state rs (fb1, b1, acc1) = Ok (fb', b', acc')"
    by auto
  from totals_after_trans [OF merge_result_totals [OF step] Cons.IH [OF rest]] show ?case by simp
qed

section \<open>What a build starts from and ends with\<close>

definition starts_from ::
  "('e, 'tx, 'b, 'log, 'u, 'i, 'slot, 'st, 'h, 't) build_env \<Rightarrow>
     ('tx, 'w, 'b, 'log, 'u, 'h, 't) built_payload option \<Rightarrow> 'log totals \<Rightarrow> 'tx list \<Rightarrow> bool" where
  "starts_from benv committed_payload acc txs \<longleftrightarrow>
     (case committed_payload of
        None \<Rightarrow> acc = fresh_totals \<and> txs = []
      | Some payload \<Rightarrow> \<exists>pid timestamp. carries benv pid timestamp acc txs payload)"

lemma recover_all_Ok:
  assumes "recover_all recover txs = (Ok txs' :: ('e builder_error, 'tx list) result)"
    and "\<And>tx tx'. recover tx = Some tx' \<Longrightarrow> tx' = tx"
  shows "txs' = txs"
proof -
  from assms(1) have "map (\<lambda>tx. ok_or (recover tx) TxRecoveryFailed) txs =
      (map Ok txs' :: ('e builder_error, 'tx) result list)"
    by (simp add: recover_all_def collect_results_eq_Ok)
  then show ?thesis
  proof (induction txs arbitrary: txs')
    case (Cons tx txs)
    then obtain tx' rest where "txs' = tx' # rest" "recover tx = Some tx'"
        "map (\<lambda>tx. ok_or (recover tx) TxRecoveryFailed) txs =
          (map Ok rest :: ('e builder_error, 'tx) result list)"
      by (auto simp: ok_or_def Cons_eq_map_conv split: option.splits)
    then show ?case using Cons.IH [of rest] assms(2) by simp
  qed simp
qed

lemma prepare_starts:
  assumes "prepare ops bundles committed_payload = Ok pr" and "starts_from benv committed_payload acc txs"
    and "\<And>tx tx'. xo_recover ops tx = Some tx' \<Longrightarrow> tx' = tx"
  shows "acc = \<lparr>tot_receipts = pr_receipts pr, tot_fees = pr_fees pr, tot_gas = unwrap_or (pr_gas_used pr) 0\<rparr>"
    and "pr_transactions pr = txs"
    and "(if pr_offset pr = 0 then pr_offset pr + 1 else pr_offset pr) = of_nat (length txs + 1) \<or>
      2 ^ 64 \<le> length txs + 1"
proof -
  have "acc = \<lparr>tot_receipts = pr_receipts pr, tot_fees = pr_fees pr, tot_gas = unwrap_or (pr_gas_used pr) 0\<rparr> \<and>
      pr_transactions pr = txs \<and>
      ((if pr_offset pr = 0 then pr_offset pr + 1 else pr_offset pr) = of_nat (length txs + 1) \<or>
       2 ^ 64 \<le> length txs + 1)"
  proof (cases committed_payload)
    case None
    with assms(1,2) show ?thesis by (auto simp: prepare_def starts_from_def fresh_totals_def)
  next
    case (Some c)
    then obtain pid timestamp where c: "carries benv pid timestamp acc txs c"
      using assms(2) by (auto simp: starts_from_def)
    then obtain x where x: "bp_executed_block c = Some x" "xb_receipts x = [tot_receipts acc]"
      and totals: "bp_fees c = tot_fees acc" "h_gas_used (bk_header (bp_block c)) = tot_gas acc"
      "block_txs (bp_block c) = txs" by (auto simp: carries_def Let_def)
    obtain txs' where rec: "recover_all (xo_recover ops) txs = (Ok txs' :: ('a builder_error, _) result)"
      and pr: "pr_receipts pr = tot_receipts acc" "pr_fees pr = tot_fees acc" "pr_gas_used pr = Some (tot_gas acc)"
      "pr_transactions pr = txs'" and offset: "pr_offset pr = of_nat (length txs + 1)"
      using assms(1) x totals by (auto simp: prepare_def Some Let_def)
    have txs': "txs' = txs" using recover_all_Ok [OF rec] assms(3) by blast
    have "pr_offset pr \<noteq> 0" if "length txs + 1 < 2 ^ 64"
    proof -
      have "unat (pr_offset pr) = length txs + 1"
        unfolding offset using that by (subst unat_of_nat) simp
      then show ?thesis by (metis add_is_0 unat_0 zero_neq_one)
    qed
    then have "(if pr_offset pr = 0 then pr_offset pr + 1 else pr_offset pr) = of_nat (length txs + 1) \<or>
        2 ^ 64 \<le> length txs + 1" using offset by (metis not_less)
    with pr txs' show ?thesis by (cases acc) simp
  qed
  then show "acc = \<lparr>tot_receipts = pr_receipts pr, tot_fees = pr_fees pr, tot_gas = unwrap_or (pr_gas_used pr) 0\<rparr>"
    and "pr_transactions pr = txs"
    and "(if pr_offset pr = 0 then pr_offset pr + 1 else pr_offset pr) = of_nat (length txs + 1) \<or>
      2 ^ 64 \<le> length txs + 1" by blast+
qed

lemma assemble_payload_carries:
  assumes "assemble_payload benv ctx env extra_data txs alloy_bal bnd acc = Ok payload"
  shows "carries benv (ea_id (oa_payload_attributes (cx_attributes ctx)))
      (ea_timestamp (oa_payload_attributes (cx_attributes ctx))) acc txs payload"
    and "h_gas_limit (bk_header (bp_block payload)) = unwrap_or (oa_gas_limit (cx_attributes ctx)) 0"
  using assms by (auto simp: assemble_payload_def Let_def carries_def follower_header_def split: prod.splits)

lemma build_Ok:
  assumes "build ops benv ctx committed_payload bal env extra_data = (Ok outcome :: ('e builder_error, _) result)"
  obtains pr bal_state state off atxs rs fb b acc payload where
    "prepare ops (be_bundle benv) committed_payload = Ok pr"
    "off = (if pr_offset pr = 0 then pr_offset pr + 1 else pr_offset pr)"
    "recover_all (xo_recover ops) (map snd (oa_transactions (cx_attributes ctx))) =
       (Ok atxs :: ('e builder_error, _) result)"
    "execute_all ops (pr_bundle pr) bal_state env (index_txs off atxs) = Ok rs"
    "merge_results ops (be_tx benv) (be_forks benv) (be_bundle benv)
       (ea_timestamp (oa_payload_attributes (cx_attributes ctx))) (ev_basefee env) state rs
       ([], pr_bundle pr, \<lparr>tot_receipts = pr_receipts pr, tot_fees = pr_fees pr,
          tot_gas = unwrap_or (pr_gas_used pr) 0\<rparr>) = Ok (fb, b, acc)"
    "assemble_payload benv ctx env extra_data (pr_transactions pr @ atxs) (xo_bal_into_alloy ops fb) b acc = Ok payload"
    "outcome = (if oa_no_tx_pool (cx_attributes ctx) then Freeze payload else Better payload)"
  using assms unfolding build_def Let_def bind_result_eq_Ok split_paired_Ex prod.case
  apply (elim exE conjE)
  subgoal premises prems for pr bs builder state off
    by (rule that [OF prems(2) _ prems(6-9)]) (use prems(5,10) in \<open>auto split: if_splits\<close>)
  done

section \<open>The payload of a received flashblock\<close>

text \<open>The payload of an outcome, as \<open>process_flashblock\<close> takes it.\<close>

fun outcome_payload :: "'p BuildOutcomeKind \<Rightarrow> 'p option" where
  "outcome_payload (Better payload) = Some payload"
| "outcome_payload (Freeze payload) = Some payload"
| "outcome_payload _ = None"

text \<open>The bundle the transactions are executed on: the committed one.\<close>

definition committed_bundle ::
  "('e, 'tx, 'b, 'log, 'u, 'i, 'slot, 'st, 'h, 't) build_env \<Rightarrow>
     ('tx, 'w, 'b, 'log, 'u, 'h, 't) built_payload option \<Rightarrow> 'u" where
  "committed_bundle benv committed_payload =
     (case committed_payload of
        None \<Rightarrow> bu_default (be_bundle benv)
      | Some payload \<Rightarrow> xb_bundle (the (bp_executed_block payload)))"

text \<open>The result of the transaction at a position, executed over the committed bundle.\<close>

definition executes_at ::
  "('e, 'tx, 'w, 'log, 'u, 's, 'acc, 'inf, 'sto, 'x, 'ctx) exec_ops \<Rightarrow> 'u \<Rightarrow> ('inf, 'sto) bal BalState \<Rightarrow>
     evm_env \<Rightarrow> nat \<Rightarrow> 'tx \<Rightarrow> 'log ExecutionResult \<Rightarrow> bool" where
  "executes_at ops bnd bal_state env position tx res \<longleftrightarrow>
     (\<exists>b a. xo_transact ops bnd (bal_state\<lparr>bs_bal_index := of_nat position\<rparr>) env tx = Ok (res, b, a))"

lemma prepare_bundle:
  assumes "prepare ops (be_bundle benv) committed_payload = Ok pr"
  shows "pr_bundle pr = committed_bundle benv committed_payload"
  using assms by (auto simp: prepare_def committed_bundle_def Let_def ok_or_def split: option.splits)

lemma execute_all_positions:
  assumes "execute_all ops bnd bal_state env (index_txs off txs) = Ok rs"
    and "unat off + length txs < 2 ^ 64" and "i < length txs"
  shows "executes_at ops bnd bal_state env (unat off + i) (txs ! i) (map pl_exec_result rs ! i)"
proof -
  note order = execute_all_in_order [OF assms(1,2)]
  have len: "length rs = length txs" using arg_cong [OF order(2), of length] by simp
  have one: "execute_one ops bnd bal_state env (index_txs off txs ! i) = Ok (rs ! i)"
    using list_all2_nthD [OF order(1)] assms(3) by simp
  have "fst (index_txs off txs ! i) = of_nat (unat off + i)"
    using assms(3) by (simp add: index_txs_def)
  with execute_one_Ok(3) [OF one] index_txs_nth(1) [OF assms(2,3)] len assms(3) show ?thesis
    by (simp add: executes_at_def)
qed

text \<open>
  C11: The payload of a received flashblock continues the committed one. When the committed payload
  carries totals and transactions (or there is none and both are empty), a build that succeeds
  returns a payload with the attributes' id whose transactions are the committed ones followed by the
  flashblock's, in order; every new transaction was executed over the committed bundle at the
  access list index of its position in the block (the pre-execution changes have index 0); and gas,
  fees and receipts continue the committed totals by the results in that order, whatever order
  the parallel executions ended in.
\<close>

theorem follower_payload_extends_committed:
  assumes "build ops benv ctx committed_payload bal env extra_data = (Ok outcome :: ('e builder_error, _) result)"
    and "starts_from benv committed_payload acc0 txs0"
    and "\<And>tx tx'. xo_recover ops tx = Some tx' \<Longrightarrow> tx' = tx"
    and "length txs0 + length (oa_transactions (cx_attributes ctx)) + 1 < 2 ^ 64"
  shows "\<exists>payload bal_state results acc.
    outcome_payload outcome = Some payload \<and>
    carries benv (ea_id (oa_payload_attributes (cx_attributes ctx)))
      (ea_timestamp (oa_payload_attributes (cx_attributes ctx))) acc
      (txs0 @ map snd (oa_transactions (cx_attributes ctx))) payload \<and>
    length results = length (oa_transactions (cx_attributes ctx)) \<and>
    (\<forall>i < length results. executes_at ops (committed_bundle benv committed_payload) bal_state env
       (length txs0 + 1 + i) (snd (oa_transactions (cx_attributes ctx) ! i)) (results ! i)) \<and>
    totals_after (be_tx benv) (ev_basefee env)
      (zip (map snd (oa_transactions (cx_attributes ctx))) results) acc0 acc"
proof -
  let ?new = "map snd (oa_transactions (cx_attributes ctx))"
  obtain pr bal_state state off atxs rs fb b acc payload where
    pr: "prepare ops (be_bundle benv) committed_payload = Ok pr"
    and off: "off = (if pr_offset pr = 0 then pr_offset pr + 1 else pr_offset pr)"
    and rec: "recover_all (xo_recover ops) ?new = (Ok atxs :: ('e builder_error, _) result)"
    and ex: "execute_all ops (pr_bundle pr) bal_state env (index_txs off atxs) = Ok rs"
    and mg: "merge_results ops (be_tx benv) (be_forks benv) (be_bundle benv)
       (ea_timestamp (oa_payload_attributes (cx_attributes ctx))) (ev_basefee env) state rs
       ([], pr_bundle pr, \<lparr>tot_receipts = pr_receipts pr, tot_fees = pr_fees pr,
          tot_gas = unwrap_or (pr_gas_used pr) 0\<rparr>) = Ok (fb, b, acc)"
    and payload: "assemble_payload benv ctx env extra_data (pr_transactions pr @ atxs)
      (xo_bal_into_alloy ops fb) b acc = Ok payload"
    and outcome: "outcome = (if oa_no_tx_pool (cx_attributes ctx) then Freeze payload else Better payload)"
    using assms(1) by (rule build_Ok)
  have atxs: "atxs = ?new" using recover_all_Ok [OF rec] assms(3) by blast
  note start = prepare_starts [OF pr assms(2,3)]
  have "off = of_nat (length txs0 + 1)" using start(3) off assms(4) by auto
  then have off_nat: "unat off = length txs0 + 1"
    using assms(4) by (simp add: unat_of_nat del: of_nat_add of_nat_Suc)
  then have room: "unat off + length ?new < 2 ^ 64" using assms(4) by simp
  note order = execute_all_in_order [OF ex [unfolded atxs] room]
  have len: "length rs = length ?new" using arg_cong [OF order(2), of length] by simp
  have "\<forall>i < length (map pl_exec_result rs). executes_at ops (committed_bundle benv committed_payload) bal_state env
       (length txs0 + 1 + i) (snd (oa_transactions (cx_attributes ctx) ! i)) (map pl_exec_result rs ! i)"
    using execute_all_positions [OF ex [unfolded atxs] room] len off_nat prepare_bundle [OF pr] by simp
  moreover have "totals_after (be_tx benv) (ev_basefee env) (zip ?new (map pl_exec_result rs)) acc0 acc"
    using merge_results_totals [OF mg] by (simp add: start(1) zip_map_map flip: order(2))
      (simp add: zip_same_conv_map comp_def)
  moreover have "outcome_payload outcome = Some payload" by (simp add: outcome)
  ultimately show ?thesis
    using assemble_payload_carries(1) [OF payload] len
    by (intro exI [of _ payload] exI [of _ bal_state] exI [of _ "map pl_exec_result rs"] exI [of _ acc])
      (simp add: start(2) atxs)
qed

text \<open>Executions that always succeed with 100 gas; accounts and storage are counters.\<close>

definition example_evm :: evm_env where
  "example_evm = \<lparr>ev_beneficiary = 2, ev_prevrandao = None, ev_basefee = 3, ev_difficulty = 0\<rparr>"

definition example_exec :: "(unit, nat, unit, nat, nat, unit, unit, nat, nat, unit, unit) exec_ops" where
  "example_exec = \<lparr>xo_recover = Some,
     xo_account_from_alloy = (\<lambda>_. Some (0, \<lparr>ab_account_info = 0, ab_storage = 0\<rparr>)),
     xo_extend_info = (+), xo_extend_storage = (+), xo_bal_into_alloy = (\<lambda>b. replicate (length b) ()),
     xo_new_state = (\<lambda>_. ()), xo_holocene = (\<lambda>_. False), xo_holocene_extra_data = (\<lambda>_. Ok []),
     xo_next_evm_env = (\<lambda>_. Ok example_evm), xo_context_for_next_block = (\<lambda>_. Ok ()),
     xo_executor = (\<lambda>_ _ _ _. \<lparr>ex_receipts = [], ex_gas_used = 0, ex_bundle_state = 0, ex_rest = ()\<rparr>),
     xo_pre_execution = (\<lambda>_. Ok),
     xo_transact = (\<lambda>_ _ _ tx. Ok (\<lparr>er_success = True, er_gas_used = 100, er_logs = [tx]\<rparr>, 1, None)),
     xo_nonce = (\<lambda>_ _. Ok (Some 0))\<rparr>"

definition example_ctx :: "nat list \<Rightarrow> (nat, unit) builder_ctx" where
  "example_ctx txs = \<lparr>cx_attributes = \<lparr>oa_payload_attributes = \<lparr>ea_id = 7, ea_parent = 1, ea_timestamp = 5,
       ea_suggested_fee_recipient = 2, ea_prev_randao = 0, ea_withdrawals = [], ea_parent_beacon_block_root = None\<rparr>,
       oa_no_tx_pool = True, oa_transactions = map (\<lambda>t. ([], t)) txs, oa_gas_limit = None,
       oa_eip_1559_params = None, oa_min_base_fee = None\<rparr>,
     cx_parent_hash = 1, cx_parent_number = 8, cx_parent_gas_limit = 30000000\<rparr>"

theorem follower_payload_extends_committed_witness:
  "\<exists>payload. build example_exec (example_env []) (example_ctx [0, 4]) None (Some []) example_evm [] = Ok (Freeze payload) \<and>
     block_txs (bp_block payload) = [0, 4] \<and> h_gas_used (bk_header (bp_block payload)) = 200 \<and>
     bp_fees payload = 200"
proof -
  note defs = build_def prepare_def initial_bal_state_def bal_from_alloy_def block_builder_def recover_all_def
    execute_all_def execute_one_def index_txs_def merge_result_def merge_bal_def assemble_payload_def
    example_exec_def example_ctx_def
  let ?env = "example_env [] :: (unit builder_error, nat, unit list, nat, nat, unit, unit, unit, nat, unit) build_env"
  have "\<exists>payload. build example_exec ?env (example_ctx [0, 4]) None (Some []) example_evm [] = Ok (Freeze payload)"
    by (simp add: defs Let_def example_env_def example_tx_def miner_fee_of_def is_deposit_def build_receipt_def
        withdrawals_fields_def)
  then obtain payload where ok: "build example_exec ?env (example_ctx [0, 4]) None (Some []) example_evm []
      = Ok (Freeze payload)" ..
  have start: "starts_from ?env None fresh_totals []" by (simp add: starts_from_def)
  have recover: "xo_recover example_exec tx = Some tx' \<Longrightarrow> tx' = tx" for tx tx' by (simp add: example_exec_def)
  have parts: "be_tx ?env = example_tx" "committed_bundle ?env None = 0" "ev_basefee example_evm = 3"
    "oa_transactions (cx_attributes (example_ctx [0, 4])) = [([], 0), ([], 4)]"
    "ea_id (oa_payload_attributes (cx_attributes (example_ctx [0, 4]))) = 7"
    "ea_timestamp (oa_payload_attributes (cx_attributes (example_ctx [0, 4]))) = 5"
    by (simp_all add: example_env_def committed_bundle_def example_evm_def example_ctx_def)
  have one: "executes_at example_exec 0 st example_evm n tx res \<longleftrightarrow>
      res = \<lparr>er_success = True, er_gas_used = 100, er_logs = [tx]\<rparr>" for st n tx res
    by (auto simp: executes_at_def example_exec_def)
  have room: "length ([] :: nat list) + length (oa_transactions (cx_attributes (example_ctx [0, 4]))) + 1 < 2 ^ 64"
    by (simp add: parts)
  obtain st results acc where carries: "carries ?env 7 5 acc [0, 4] payload" and len: "length results = length [([] :: bytes, 0 :: nat), ([], 4)]"
    and results: "\<forall>i < length results. executes_at example_exec 0 st example_evm (length ([] :: nat list) + 1 + i)
      (snd ([([] :: bytes, 0), ([], 4)] ! i)) (results ! i)"
    and totals: "totals_after example_tx 3 (zip [0, 4] results) fresh_totals acc"
    using follower_payload_extends_committed [OF ok start recover room] unfolding parts by (auto simp: parts)
  have "results = [\<lparr>er_success = True, er_gas_used = 100, er_logs = [0]\<rparr>, \<lparr>er_success = True, er_gas_used = 100, er_logs = [4]\<rparr>]"
    using len results by (auto simp: one numeral_2_eq_2 length_Suc_conv less_Suc_eq all_conj_distrib)
  then have "tot_gas acc = 200" "tot_fees acc = 200"
    using totals by (simp_all add: totals_after_def gas_sum_def fresh_totals_def is_deposit_def example_tx_def)
  with carries ok show ?thesis by (auto simp: carries_def Let_def)
qed

end
