(* ===== verification/StateExecutor.thy ===== *)
theory StateExecutor
  imports FlashblockBuilder P2P Reduce
begin

text \<open>
  The state of a node, \<^verbatim>\<open>src/flashblocks/state.rs\<close>: the flashblocks of the current payload, the
  latest built payload with the index it was built for, and the pending block; publishing a payload
  this node has built, and processing a flashblock from the stream. The context that
  \<^verbatim>\<open>src/flashblocks/ctx.rs\<close> puts together is the record \<open>builder_ctx\<close>.

  Both operations hold the write lock from their first to their last step, so each is one step of
  the state. The chain (headers by hash, the state at a block), the decoding of transactions and
  the EVM are parameters, the record \<open>node_env\<close>.
\<close>

section \<open>State\<close>

record ('tx, 'w, 'b, 'x, 'q) FlashblocksStateExecutor =
  se_flashblocks :: "('w, 'b) flashblocks"
  se_latest_payload :: "(('tx, 'w, 'b, 'x) OpBuiltPayload \<times> u64) option"
  se_payload_events :: "'q option"
  se_p2p :: "('w, 'b) FlashblocksP2PState"
  se_pending_block :: "'x option"

definition state_executor_new ::
  "('w, 'b) FlashblocksP2PState \<Rightarrow> 'x option \<Rightarrow> ('tx, 'w, 'b, 'x, 'q) FlashblocksStateExecutor" where
  "state_executor_new p2p_handle pending_block =
     \<lparr>se_flashblocks = default_flashblocks, se_latest_payload = None, se_payload_events = None,
      se_p2p = p2p_handle, se_pending_block = pending_block\<rparr>"

text \<open>What the operations send: over the P2P layer, or to the registered channel.\<close>

datatype ('tx, 'w, 'b, 'x, 'q) exec_effect =
    OverP2P "('w, 'b) effect"
  | BuiltPayload 'q "('tx, 'w, 'b, 'x) OpBuiltPayload"

section \<open>Publishing a built payload\<close>

text \<open>
  \<open>publish_built_payload\<close>. The state is returned with the outcome, so that what an error leaves
  behind is part of the model.
\<close>

definition publish_built_payload ::
  "((FlashblockMetadata, 'w, 'b) FlashblocksP2PMsg \<Rightarrow> bytes) \<Rightarrow> i64 \<Rightarrow>
     ('tx, 'w, 'b, 'x, 'q) FlashblocksStateExecutor \<Rightarrow> ('w, 'b) flashblock \<Rightarrow>
     ('tx, 'w, 'b, 'x) OpBuiltPayload \<Rightarrow>
     ('tx, 'w, 'b, 'x, 'q) FlashblocksStateExecutor \<times>
     (flashblocks_error, ('tx, 'w, 'b, 'x, 'q) exec_effect list) result" where
  "publish_built_payload encode_msg now self payload built_payload =
     (let index = p_index payload in
      case push (se_flashblocks self) payload of
        Err e \<Rightarrow> (self, Err e)
      | Panic \<Rightarrow> (self, Panic)
      | Ok (_, flashblocks) \<Rightarrow>
          let (p2p, effects) = publish encode_msg now (se_p2p self) payload
          in (self\<lparr>se_flashblocks := flashblocks, se_latest_payload := Some (built_payload, index),
                   se_p2p := p2p\<rparr>,
              Ok (map OverP2P effects)))"

definition register_payload_events ::
  "('tx, 'w, 'b, 'x, 'q) FlashblocksStateExecutor \<Rightarrow> 'q \<Rightarrow> ('tx, 'w, 'b, 'x, 'q) FlashblocksStateExecutor" where
  "register_payload_events self tx = self\<lparr>se_payload_events := Some tx\<rparr>"

text \<open>\<open>broadcast_payload\<close>: a channel without receivers is logged, never an error.\<close>

definition broadcast_payload ::
  "('tx, 'w, 'b, 'x) OpBuiltPayload \<Rightarrow> 'q option \<Rightarrow> ('tx, 'w, 'b, 'x, 'q) exec_effect list" where
  "broadcast_payload event payload_events =
     (case payload_events of Some tx \<Rightarrow> [BuiltPayload tx event] | None \<Rightarrow> [])"

definition executor_last ::
  "('tx, 'w, 'b, 'x, 'q) FlashblocksStateExecutor \<Rightarrow> ('e, ('w, 'b) flashblock) result" where
  "executor_last self = last_flashblock (se_flashblocks self)"

definition executor_flashblocks ::
  "('tx, 'w, 'b, 'x, 'q) FlashblocksStateExecutor \<Rightarrow> ('w, 'b) flashblocks" where
  "executor_flashblocks self = se_flashblocks self"

text \<open>A new receiver of the pending block sees its current value.\<close>

definition executor_pending_block ::
  "('tx, 'w, 'b, 'x, 'q) FlashblocksStateExecutor \<Rightarrow> 'x option" where
  "executor_pending_block self = se_pending_block self"

definition executor_p2p_handle ::
  "('tx, 'w, 'b, 'x, 'q) FlashblocksStateExecutor \<Rightarrow> ('w, 'b) FlashblocksP2PState" where
  "executor_p2p_handle self = se_p2p self"

section \<open>Processing a flashblock\<close>

record sealed_header =
  sh_hash :: b256
  sh_number :: u64
  sh_gas_limit :: u64

record ('e, 'tx, 'w, 'log, 'u, 'i, 'slot, 'st, 'h, 't, 's, 'acc, 'inf, 'sto, 'x, 'ctx) node_env =
  ne_decode_tx :: "bytes \<Rightarrow> 'tx option"
  ne_holocene_extra_data :: "u64 \<Rightarrow> bytes option"
  ne_sealed_header_by_hash :: "b256 \<Rightarrow> nat \<Rightarrow> ('e, sealed_header option) result"
  ne_state_by_block_hash ::
    "b256 \<Rightarrow> ('e, ('e, 'tx, 'w, 'log, 'u, 's, 'acc, 'inf, 'sto, 'x, 'ctx) exec_ops \<times>
       ('e builder_error, 'tx, 'acc list, 'log, 'u, 'i, 'slot, 'st, 'h, 't) build_env) result"
  ne_next_evm_env :: "sealed_header \<Rightarrow> NextBlockAttributes \<Rightarrow> ('e, evm_env) result"

datatype 'e process_error =
    CollectionError flashblocks_error
  | TxDecodeError
  | ExtraDataError
  | ProviderError 'e
  | BuilderError "'e builder_error"

fun map_err :: "('e \<Rightarrow> 'f) \<Rightarrow> ('e, 'a) result \<Rightarrow> ('f, 'a) result" where
  "map_err f (Ok a) = Ok a"
| "map_err f (Err e) = Err (f e)"
| "map_err f Panic = Panic"

lemma map_err_eq_Ok [simp]: "map_err f r = Ok a \<longleftrightarrow> r = Ok a"
  by (cases r) simp_all

text \<open>
  \<open>fetch_header\<close> and its retry without a limit: the provider is asked again until it has the header.
  Errors of the provider are retried as well, so the call returns only when an attempt succeeds
  (or panics). The attempts are numbered, because the answer changes with time. \<open>None\<close> is a call
  that never returns.
\<close>

datatype 'e header_error = HeaderProvider 'e | MissingSealedHeader

definition fetch_header ::
  "('e, sealed_header option) result \<Rightarrow> ('e header_error, sealed_header) result" where
  "fetch_header answer = bind_result (map_err HeaderProvider answer) (\<lambda>h. ok_or h MissingSealedHeader)"

partial_function (option) retry_header ::
  "(nat \<Rightarrow> ('e, sealed_header option) result) \<Rightarrow> nat \<Rightarrow> ('f, sealed_header) result option" where
  "retry_header answers attempt =
     (case fetch_header (answers attempt) of
        Ok header \<Rightarrow> Some (Ok header)
      | Panic \<Rightarrow> Some Panic
      | Err _ \<Rightarrow> retry_header answers (Suc attempt))"

text \<open>The eight bytes \<open>eip1559[1..=8]\<close> as a \<open>B64\<close>; the slice panics when the bytes are too few.\<close>

definition b64_of_bytes :: "bytes \<Rightarrow> u64" where
  "b64_of_bytes bs = foldl (\<lambda>w b. push_bit 8 w + ucast b) 0 bs"

definition eip_1559_params :: "bytes \<Rightarrow> ('e, u64) result" where
  "eip_1559_params extra = (if length extra < 9 then Panic else Ok (b64_of_bytes (take 8 (drop 1 extra))))"

text \<open>The payload attributes of a flashblock. The gas limit is not set.\<close>

definition flashblock_attributes ::
  "ExecutionPayloadBaseV1 \<Rightarrow> ('w, 'b) flashblock \<Rightarrow> (bytes \<times> 'tx) list \<Rightarrow> u64 \<Rightarrow>
     ('tx, 'w) OpPayloadBuilderAttributes" where
  "flashblock_attributes base flashblock transactions eip1559 =
     \<lparr>oa_payload_attributes = \<lparr>ea_id = p_payload_id flashblock, ea_parent = b_parent_hash base,
        ea_timestamp = b_timestamp base, ea_suggested_fee_recipient = b_fee_recipient base,
        ea_prev_randao = b_prev_randao base, ea_withdrawals = d_withdrawals (p_diff flashblock),
        ea_parent_beacon_block_root = Some (b_parent_beacon_block_root base)\<rparr>,
      oa_no_tx_pool = True, oa_transactions = transactions, oa_gas_limit = None,
      oa_eip_1559_params = Some eip1559, oa_min_base_fee = None\<rparr>"

definition next_block_context :: "ExecutionPayloadBaseV1 \<Rightarrow> NextBlockAttributes" where
  "next_block_context base =
     \<lparr>nb_timestamp = b_timestamp base, nb_suggested_fee_recipient = b_fee_recipient base,
      nb_prev_randao = b_prev_randao base, nb_gas_limit = b_gas_limit base,
      nb_parent_beacon_block_root = Some (b_parent_beacon_block_root base),
      nb_extra_data = b_extra_data base\<rparr>"

definition decode_flashblock_txs ::
  "(bytes \<Rightarrow> 'tx option) \<Rightarrow> bytes list \<Rightarrow> ('e process_error, (bytes \<times> 'tx) list) result" where
  "decode_flashblock_txs decode_tx txs =
     collect_results (map (\<lambda>b. bind_result (ok_or (decode_tx b) TxDecodeError) (\<lambda>tx. Ok (b, tx))) txs)"

text \<open>
  \<open>OpPayloadBuilderCtxBuilder::build\<close> puts the attributes and the parent header together. The EVM, the chain
  and the cancellation are in the operations of the builder, the best payload is its argument.
\<close>

definition builder_ctx_build :: "('tx, 'w) OpPayloadBuilderAttributes \<Rightarrow> sealed_header \<Rightarrow> ('tx, 'w) builder_ctx" where
  "builder_ctx_build attributes parent_header =
     \<lparr>cx_attributes = attributes, cx_parent_hash = sh_hash parent_header, cx_parent_number = sh_number parent_header,
      cx_parent_gas_limit = sh_gas_limit parent_header\<rparr>"

declare builder_ctx_build_def [simp]

text \<open>From the base to the outcome of the builder: everything that can fail before the state is
  written. The outer \<open>None\<close> is a header that never comes.\<close>

definition build_flashblock ::
  "('e, 'tx, 'w, 'log, 'u, 'i, 'slot, 'st, 'h, 't, 's, 'acc, 'inf, 'sto, 'x, 'ctx) node_env \<Rightarrow>
     ('tx, 'w, 'acc list, 'log, 'u, 'h, 't) built_payload option \<Rightarrow> ExecutionPayloadBaseV1 \<Rightarrow>
     ('w, 'acc list) flashblock \<Rightarrow>
     ('e process_error, ('tx, 'w, 'acc list, 'log, 'u, 'h, 't) built_payload BuildOutcomeKind) result option"
where
  "build_flashblock env committed base flashblock =
     (case bind_result (decode_flashblock_txs (ne_decode_tx env) (d_transactions (p_diff flashblock)))
             (\<lambda>transactions.
           bind_result (ok_or (ne_holocene_extra_data env (b_timestamp base)) ExtraDataError) (\<lambda>extra.
           bind_result (eip_1559_params extra) (\<lambda>eip1559. Ok (transactions, eip1559)))) of
        Err e \<Rightarrow> Some (Err e)
      | Panic \<Rightarrow> Some Panic
      | Ok (transactions, eip1559) \<Rightarrow>
          map_option (\<lambda>header_result.
            bind_result header_result (\<lambda>sealed_header.
            bind_result (map_err ProviderError (ne_state_by_block_hash env (b_parent_hash base))) (\<lambda>(ops, benv).
            bind_result (map_err ProviderError (ne_next_evm_env env sealed_header (next_block_context base)))
              (\<lambda>evm.
            let ctx = builder_ctx_build (flashblock_attributes base flashblock transactions eip1559) sealed_header
            in map_err BuilderError
                 (build ops benv ctx committed (d_block_access_list (p_diff flashblock)) evm
                    (b_extra_data base))))))
            (retry_header (ne_sealed_header_by_hash env (b_parent_hash base)) 0))"

text \<open>The check at the start: \<open>latest_payload\<close> already covers the flashblock.\<close>

definition already_processed ::
  "('tx, 'w, 'b, 'x, 'q) FlashblocksStateExecutor \<Rightarrow> ('w, 'b) flashblock \<Rightarrow>
     ('tx, 'w, 'b, 'x) OpBuiltPayload option" where
  "already_processed self flashblock =
     (case se_latest_payload self of
        Some (payload, index) \<Rightarrow>
          if bp_id payload = p_payload_id flashblock \<and> p_index flashblock \<le> index then Some payload else None
      | None \<Rightarrow> None)"

text \<open>Writing the state: the assertion of a debug build, the push, the payload and the broadcast.\<close>

definition commit_flashblock ::
  "bool \<Rightarrow> ('tx, 'w, 'b, 'x, 'q) FlashblocksStateExecutor \<Rightarrow> ('w, 'b) flashblock \<Rightarrow>
     ('tx, 'w, 'b, 'x) OpBuiltPayload \<Rightarrow>
     ('tx, 'w, 'b, 'x, 'q) FlashblocksStateExecutor \<times>
     ('e process_error, ('tx, 'w, 'b, 'x, 'q) exec_effect list) result" where
  "commit_flashblock debug self flashblock payload =
     (if debug \<and> bp_hash payload \<noteq> d_block_hash (p_diff flashblock) then (self, Panic)
      else case push (se_flashblocks self) flashblock of
        Err e \<Rightarrow> (self, Err (CollectionError e))
      | Panic \<Rightarrow> (self, Panic)
      | Ok (_, flashblocks) \<Rightarrow>
          (self\<lparr>se_flashblocks := flashblocks,
                se_latest_payload := Some (payload, p_index flashblock),
                se_pending_block := bp_executed_block payload\<rparr>,
           Ok (broadcast_payload payload (se_payload_events self))))"

text \<open>What becomes of the builder's outcome.\<close>

definition finish_flashblock ::
  "bool \<Rightarrow> ('tx, 'w, 'b, 'x, 'q) FlashblocksStateExecutor \<Rightarrow> ('w, 'b) flashblock \<Rightarrow>
     ('e process_error, ('tx, 'w, 'b, 'x) OpBuiltPayload BuildOutcomeKind) result \<Rightarrow>
     ('tx, 'w, 'b, 'x, 'q) FlashblocksStateExecutor \<times>
     ('e process_error, ('tx, 'w, 'b, 'x, 'q) exec_effect list) result" where
  "finish_flashblock debug self flashblock built =
     (case built of
        Err e \<Rightarrow> (self, Err e)
      | Panic \<Rightarrow> (self, Panic)
      | Ok outcome \<Rightarrow>
          (case outcome_payload outcome of
             None \<Rightarrow> (self, Ok [])
           | Some payload \<Rightarrow> commit_flashblock debug self flashblock payload))"

text \<open>
  \<open>process_flashblock\<close>. A flashblock that starts a new payload drops the latest payload before
  anything of it is decoded or executed; an error after that leaves the state without it.
\<close>

definition process_flashblock ::
  "bool \<Rightarrow> ('e, 'tx, 'w, 'log, 'u, 'i, 'slot, 'st, 'h, 't, 's, 'acc, 'inf, 'sto, 'x, 'ctx) node_env \<Rightarrow>
     ('tx, 'w, 'acc list, ('tx, 'w, 'acc list, 'log, 'u, 'h, 't) executed_block, 'q) FlashblocksStateExecutor \<Rightarrow>
     ('w, 'acc list) flashblock \<Rightarrow>
     (('tx, 'w, 'acc list, ('tx, 'w, 'acc list, 'log, 'u, 'h, 't) executed_block, 'q) FlashblocksStateExecutor \<times>
      ('e process_error,
       ('tx, 'w, 'acc list, ('tx, 'w, 'acc list, 'log, 'u, 'h, 't) executed_block, 'q) exec_effect list) result) option"
where
  "process_flashblock debug env self flashblock =
     (case already_processed self flashblock of
        Some payload \<Rightarrow> Some (self\<lparr>se_pending_block := bp_executed_block payload\<rparr>, Ok [])
      | None \<Rightarrow>
          (case is_new_payload (se_flashblocks self) flashblock of
             Err e \<Rightarrow> Some (self, Err (CollectionError e))
           | Panic \<Rightarrow> Some (self, Panic)
           | Ok is_new \<Rightarrow>
               let self = (if is_new then self\<lparr>se_latest_payload := None\<rparr> else self) in
               (case (if is_new then unwrap (p_base flashblock) else collection_base (se_flashblocks self)) of
                  Err e \<Rightarrow> Some (self, Err e)
                | Panic \<Rightarrow> Some (self, Panic)
                | Ok base \<Rightarrow>
                    map_option (finish_flashblock debug self flashblock)
                      (build_flashblock env (map_option fst (se_latest_payload self)) base flashblock))))"

section \<open>The cases of the two operations\<close>

text \<open>The collection after an accepted flashblock, and the state once a new payload is detected.\<close>

definition pushed :: "('w, 'b) flashblocks \<Rightarrow> ('w, 'b) flashblock \<Rightarrow> ('w, 'b) flashblocks" where
  "pushed fbs fb = (if starts_new fbs fb then [fb] else fbs @ [fb])"

definition reset_latest ::
  "('tx, 'w, 'b, 'x, 'q) FlashblocksStateExecutor \<Rightarrow> ('w, 'b) flashblock \<Rightarrow>
     ('tx, 'w, 'b, 'x, 'q) FlashblocksStateExecutor" where
  "reset_latest self fb =
     (if starts_new (se_flashblocks self) fb then self\<lparr>se_latest_payload := None\<rparr> else self)"

definition accepts :: "('w, 'b) flashblocks \<Rightarrow> ('w, 'b) flashblock \<Rightarrow> bool" where
  "accepts fbs fb \<longleftrightarrow> starts_new fbs fb \<or> continues fbs fb"

lemma hd_pushed: "flashblocks_wf fbs \<Longrightarrow> hd (pushed fbs fb) = (if starts_new fbs fb then fb else hd fbs)"
  by (auto simp: pushed_def dest: flashblocks_wfD(1))

lemma last_pushed [simp]: "last (pushed fbs fb) = fb"
  by (simp add: pushed_def)

lemma push_accepts:
  assumes "flashblocks_wf fbs" and "accepts fbs fb"
  shows "push fbs fb = Ok (starts_new fbs fb, pushed fbs fb)" and "flashblocks_wf (pushed fbs fb)"
    and "is_new_payload fbs fb = Ok (starts_new fbs fb)"
  using assms(1)
  by (cases rule: push_cases [of fbs fb]; use assms(2) in
      \<open>auto simp: accepts_def pushed_def dest: starts_new_not_continues\<close>)+

lemma push_refuses:
  assumes "flashblocks_wf fbs" and "\<not> accepts fbs fb"
  obtains e where "push fbs fb = Err e" and "is_new_payload fbs fb = Err e"
  using assms(1) by (cases rule: push_cases [of fbs fb]) (use assms(2) in \<open>auto simp: accepts_def\<close>)

lemma reset_latest_simps [simp]:
  "se_flashblocks (reset_latest self fb) = se_flashblocks self"
  "se_pending_block (reset_latest self fb) = se_pending_block self"
  "se_p2p (reset_latest self fb) = se_p2p self"
  "se_payload_events (reset_latest self fb) = se_payload_events self"
  by (simp_all add: reset_latest_def)

lemma publish_built_cases:
  assumes "flashblocks_wf (se_flashblocks self)"
    and "publish_built_payload encode_msg now self payload built = (self', r)"
  obtains (stored) "accepts (se_flashblocks self) payload"
      "self' = self\<lparr>se_flashblocks := pushed (se_flashblocks self) payload,
         se_latest_payload := Some (built, p_index payload),
         se_p2p := fst (publish encode_msg now (se_p2p self) payload)\<rparr>"
      "r = Ok (map OverP2P (snd (publish encode_msg now (se_p2p self) payload)))"
  | (refused) e where "\<not> accepts (se_flashblocks self) payload" "self' = self" "r = Err e"
proof (cases "accepts (se_flashblocks self) payload")
  case True
  then show ?thesis
    using assms(2) that(1) push_accepts(1) [OF assms(1) True]
    by (auto simp: publish_built_payload_def Let_def split: prod.splits)
next
  case False
  then obtain e where "push (se_flashblocks self) payload = Err e" by (rule push_refuses [OF assms(1)])
  with assms(2) have "self' = self" "r = Err e" by (simp_all add: publish_built_payload_def)
  with False that(2) show ?thesis by blast
qed

lemma build_outcome: "build ops benv ctx committed bal env extra = Ok outcome \<Longrightarrow> \<exists>payload. outcome_payload outcome = Some payload"
  by (erule build_Ok) auto

lemma build_flashblock_Ok:
  fixes env :: "('e, 'tx, 'w, 'log, 'u, 'i, 'slot, 'st, 'h, 't, 's, 'acc, 'inf, 'sto, 'x, 'ctx) node_env"
  assumes "build_flashblock env committed base fb = Some (Ok outcome)"
  obtains txs eip hdr ops benv evm where
    "decode_flashblock_txs (ne_decode_tx env) (d_transactions (p_diff fb)) = (Ok txs :: ('e process_error, _) result)"
    "retry_header (ne_sealed_header_by_hash env (b_parent_hash base)) 0 = Some (Ok hdr :: ('e process_error, _) result)"
    "ne_state_by_block_hash env (b_parent_hash base) = Ok (ops, benv)"
    "build ops benv \<lparr>cx_attributes = flashblock_attributes base fb txs eip, cx_parent_hash = sh_hash hdr,
       cx_parent_number = sh_number hdr, cx_parent_gas_limit = sh_gas_limit hdr\<rparr> committed
       (d_block_access_list (p_diff fb)) evm (b_extra_data base) = Ok outcome"
  using assms by (auto simp: build_flashblock_def Let_def split: result.splits intro: that)

lemma decode_flashblock_txs_Err:
  "decode_flashblock_txs decode_tx txs = Err e \<Longrightarrow> e = TxDecodeError"
proof (induction txs)
  case (Cons b txs)
  then show ?case
    by (cases "decode_tx b") (auto simp: decode_flashblock_txs_def bind_result_eq_Err)
qed (simp add: decode_flashblock_txs_def)

lemma retry_header_no_Err: "retry_header answers n = Some r \<Longrightarrow> r \<noteq> Err e"
proof (induct rule: retry_header.raw_induct [rotated 1, consumes 1, case_names step])
  case (step answers attempt r)
  then show ?case by (auto split: result.splits)
qed

lemma map_err_eq_Err [simp]: "map_err f r = Err e \<longleftrightarrow> (\<exists>d. r = Err d \<and> e = f d)"
  by (cases r) auto

lemma build_flashblock_error:
  "build_flashblock env committed base fb \<noteq> Some (Err (CollectionError e))"
proof
  assume "build_flashblock env committed base fb = Some (Err (CollectionError e))"
  then show False
    by (auto simp: build_flashblock_def Let_def bind_result_eq_Err eip_1559_params_def ok_or_def
        dest: decode_flashblock_txs_Err retry_header_no_Err split: result.splits option.splits if_splits)
qed

text \<open>An accepted flashblock is built on the latest payload, unless it starts a new one.\<close>

lemma process_accepted:
  fixes env :: "('e, 'tx, 'w, 'log, 'u, 'i, 'slot, 'st, 'h, 't, 's, 'acc, 'inf, 'sto, 'x, 'ctx) node_env"
  assumes "flashblocks_wf (se_flashblocks self)" and "already_processed self fb = None"
    and "accepts (se_flashblocks self) fb"
  shows "process_flashblock debug env self fb =
    map_option (finish_flashblock debug (reset_latest self fb) fb)
      (build_flashblock env (map_option fst (se_latest_payload (reset_latest self fb)))
         (the (p_base (hd (pushed (se_flashblocks self) fb)))) fb)"
proof (cases "starts_new (se_flashblocks self) fb")
  case True
  then obtain b where "p_base fb = Some b" by (auto simp: starts_new_def split: option.splits)
  with True assms(2) push_accepts(3) [OF assms(1,3)] show ?thesis
    by (simp add: process_flashblock_def hd_pushed [OF assms(1)] reset_latest_def Let_def)
next
  case False
  with assms(2) push_accepts(3) [OF assms(1,3)] show ?thesis
    by (simp add: process_flashblock_def hd_pushed [OF assms(1)] reset_latest_def collection_base_wf [OF assms(1)])
qed

lemma process_cases:
  fixes env :: "('e, 'tx, 'w, 'log, 'u, 'i, 'slot, 'st, 'h, 't, 's, 'acc, 'inf, 'sto, 'x, 'ctx) node_env"
  assumes "flashblocks_wf (se_flashblocks self)"
    and "process_flashblock debug env self fb = Some (self', r)"
  obtains (processed) payload where "already_processed self fb = Some payload"
      "self' = self\<lparr>se_pending_block := bp_executed_block payload\<rparr>" "r = Ok []"
  | (refused) e where "already_processed self fb = None" "\<not> accepts (se_flashblocks self) fb"
      "self' = self" "r = Err (CollectionError e)"
  | (failed) "already_processed self fb = None" "accepts (se_flashblocks self) fb"
      "self' = reset_latest self fb" "r = Panic \<or> (\<exists>e. r = Err e \<and> (\<forall>c. e \<noteq> CollectionError c))"
  | (built) outcome payload where "already_processed self fb = None" "accepts (se_flashblocks self) fb"
      "build_flashblock env (map_option fst (se_latest_payload (reset_latest self fb)))
         (the (p_base (hd (pushed (se_flashblocks self) fb)))) fb = Some (Ok outcome)"
      "outcome_payload outcome = Some payload"
      "debug \<longrightarrow> bp_hash payload = d_block_hash (p_diff fb)"
      "self' = self\<lparr>se_flashblocks := pushed (se_flashblocks self) fb,
         se_latest_payload := Some (payload, p_index fb), se_pending_block := bp_executed_block payload\<rparr>"
      "r = Ok (broadcast_payload payload (se_payload_events self))"
proof (cases "already_processed self fb")
  case (Some payload)
  then have "self' = self\<lparr>se_pending_block := bp_executed_block payload\<rparr>" "r = Ok []"
    using assms(2) by (simp_all add: process_flashblock_def)
  with Some that(1) show ?thesis by blast
next
  case None
  let ?fbs = "se_flashblocks self" and ?base = "the (p_base (hd (pushed (se_flashblocks self) fb)))"
  show ?thesis
  proof (cases "accepts ?fbs fb")
    case False
    then obtain e where "is_new_payload ?fbs fb = Err e" by (rule push_refuses [OF assms(1)])
    then have "self' = self" "r = Err (CollectionError e)" using assms(2) None by (simp_all add: process_flashblock_def)
    with None False that(2) show ?thesis by blast
  next
    case True
    let ?built = "build_flashblock env (map_option fst (se_latest_payload (reset_latest self fb))) ?base fb"
    have "map_option (finish_flashblock debug (reset_latest self fb) fb) ?built = Some (self', r)"
      by (rule trans [OF process_accepted [OF assms(1) None True, symmetric] assms(2)])
    then obtain b where b: "?built = Some b" and res: "(self', r) = finish_flashblock debug (reset_latest self fb) fb b"
      unfolding map_option_eq_Some by auto
    show ?thesis
    proof (cases b)
      case (Ok outcome)
      obtain payload where payload: "outcome_payload outcome = Some payload"
        using b unfolding Ok by (rule build_flashblock_Ok) (use build_outcome in blast)
      show ?thesis
      proof (cases "debug \<and> bp_hash payload \<noteq> d_block_hash (p_diff fb)")
        case True
        then have "self' = reset_latest self fb" "r = Panic"
          using res Ok payload by (simp_all add: finish_flashblock_def commit_flashblock_def)
        with None \<open>accepts ?fbs fb\<close> that(3) show ?thesis by blast
      next
        case False
        then have "self' = self\<lparr>se_flashblocks := pushed ?fbs fb, se_latest_payload := Some (payload, p_index fb),
            se_pending_block := bp_executed_block payload\<rparr>" "r = Ok (broadcast_payload payload (se_payload_events self))"
          using res Ok payload push_accepts(1) [OF assms(1) \<open>accepts ?fbs fb\<close>]
          by (simp_all add: finish_flashblock_def commit_flashblock_def reset_latest_def split: if_splits)
        with that(4) [OF None \<open>accepts ?fbs fb\<close> b [unfolded Ok] payload] False show ?thesis by blast
      qed
    next
      case (Err e)
      then have "self' = reset_latest self fb" "r = Err e" using res by (simp_all add: finish_flashblock_def)
      moreover have "e \<noteq> CollectionError c" for c using b build_flashblock_error unfolding Err by blast
      ultimately show ?thesis using that(3) None True by blast
    next
      case Panic
      then have "self' = reset_latest self fb" "r = Panic" using res by (simp_all add: finish_flashblock_def)
      with that(3) None True show ?thesis by blast
    qed
  qed
qed

section \<open>What a processed flashblock builds\<close>

definition committed_txs :: "('tx, 'w, 'b, 'x) OpBuiltPayload option \<Rightarrow> 'tx list" where
  "committed_txs committed = (case committed of None \<Rightarrow> [] | Some p \<Rightarrow> block_txs (bp_block p))"

text \<open>The library's promise on recovering a signed transaction: it stays the same transaction.\<close>

definition recovers_same ::
  "('e, 'tx, 'w, 'log, 'u, 'i, 'slot, 'st, 'h, 't, 's, 'acc, 'inf, 'sto, 'x, 'ctx) node_env \<Rightarrow> bool" where
  "recovers_same env \<longleftrightarrow>
     (\<forall>h ops benv tx tx'. ne_state_by_block_hash env h = Ok (ops, benv) \<longrightarrow> xo_recover ops tx = Some tx' \<longrightarrow> tx' = tx)"

lemma build_carries:
  assumes "build ops benv ctx committed bal env extra_data = (Ok outcome :: ('e builder_error, _) result)"
    and "\<And>tx tx'. xo_recover ops tx = Some tx' \<Longrightarrow> tx' = tx" and "outcome_payload outcome = Some payload"
  shows "\<exists>acc. carries benv (ea_id (oa_payload_attributes (cx_attributes ctx)))
      (ea_timestamp (oa_payload_attributes (cx_attributes ctx))) acc
      (committed_txs committed @ map snd (oa_transactions (cx_attributes ctx))) payload"
    and "h_gas_limit (bk_header (bp_block payload)) = unwrap_or (oa_gas_limit (cx_attributes ctx)) 0"
proof -
  obtain pr bal_state state off atxs rs fb b acc payload' where
    pr: "prepare ops (be_bundle benv) committed = Ok pr"
    and rec: "recover_all (xo_recover ops) (map snd (oa_transactions (cx_attributes ctx))) = (Ok atxs :: ('e builder_error, _) result)"
    and payload: "assemble_payload benv ctx env extra_data (pr_transactions pr @ atxs)
      (xo_bal_into_alloy ops fb) b acc = Ok payload'"
    and outcome: "outcome = (if oa_no_tx_pool (cx_attributes ctx) then Freeze payload' else Better payload')"
    using assms(1) by (rule build_Ok)
  have "atxs = map snd (oa_transactions (cx_attributes ctx))" using recover_all_Ok [OF rec] assms(2) by blast
  moreover have "pr_transactions pr = committed_txs committed"
  proof (cases committed)
    case None
    then show ?thesis using pr by (auto simp: prepare_def committed_txs_def)
  next
    case (Some c)
    then obtain txs' where "recover_all (xo_recover ops) (block_txs (bp_block c)) = (Ok txs' :: ('e builder_error, _) result)"
      and "pr_transactions pr = txs'"
      using pr by (auto simp: prepare_def Let_def)
    with recover_all_Ok assms(2) show ?thesis by (metis (lifting) Some committed_txs_def option.case(2))
  qed
  moreover have "payload' = payload" using outcome assms(3) by (auto split: if_splits)
  ultimately show "\<exists>acc. carries benv (ea_id (oa_payload_attributes (cx_attributes ctx)))
      (ea_timestamp (oa_payload_attributes (cx_attributes ctx))) acc
      (committed_txs committed @ map snd (oa_transactions (cx_attributes ctx))) payload"
    and "h_gas_limit (bk_header (bp_block payload)) = unwrap_or (oa_gas_limit (cx_attributes ctx)) 0"
    using assemble_payload_carries [OF payload] by auto
qed

lemma build_id:
  assumes "build ops benv ctx committed bal env extra_data = Ok outcome" and "outcome_payload outcome = Some payload"
  shows "bp_id payload = ea_id (oa_payload_attributes (cx_attributes ctx))"
  using assms(1)
  by (rule build_Ok) (use assms(2) in \<open>auto simp: carries_def Let_def dest!: assemble_payload_carries(1) split: if_splits\<close>)

lemma decode_flashblock_txs_Ok:
  "decode_flashblock_txs decode_tx bs = Ok txs \<Longrightarrow> map decode_tx bs = map Some (map snd txs)"
proof (induction bs arbitrary: txs)
  case (Cons b bs)
  then show ?case
    by (cases "decode_tx b") (fastforce simp: decode_flashblock_txs_def)+
qed (simp add: decode_flashblock_txs_def)

lemma decode_flashblock_txs_Ok_iff:
  "(\<exists>txs. decode_flashblock_txs decode_tx bs = Ok txs) \<longleftrightarrow> None \<notin> set (map decode_tx bs)"
proof (induction bs)
  case (Cons b bs)
  then show ?case by (cases "decode_tx b") (auto simp: decode_flashblock_txs_def)
qed (simp add: decode_flashblock_txs_def)

text \<open>
  The payload of a processed flashblock: it has the flashblock's id, its transactions are those of
  the committed payload followed by the decoded ones, and its header has no gas limit.
\<close>

lemma built_flashblock:
  fixes env :: "('e, 'tx, 'w, 'log, 'u, 'i, 'slot, 'st, 'h, 't, 's, 'acc, 'inf, 'sto, 'x, 'ctx) node_env"
  assumes "build_flashblock env committed base fb = Some (Ok outcome)" and "recovers_same env"
    and "outcome_payload outcome = Some payload"
  obtains ops benv acc new where
    "ne_state_by_block_hash env (b_parent_hash base) = Ok (ops, benv)"
    "map (ne_decode_tx env) (d_transactions (p_diff fb)) = map Some new"
    "carries benv (p_payload_id fb) (b_timestamp base) acc (committed_txs committed @ new) payload"
    "h_gas_limit (bk_header (bp_block payload)) = 0"
proof -
  obtain txs eip hdr ops benv evm where
    txs: "decode_flashblock_txs (ne_decode_tx env) (d_transactions (p_diff fb)) = (Ok txs :: ('e process_error, _) result)"
    and "retry_header (ne_sealed_header_by_hash env (b_parent_hash base)) 0 = Some (Ok hdr :: ('e process_error, _) result)"
    and state: "ne_state_by_block_hash env (b_parent_hash base) = Ok (ops, benv)"
    and built: "build ops benv \<lparr>cx_attributes = flashblock_attributes base fb txs eip, cx_parent_hash = sh_hash hdr,
       cx_parent_number = sh_number hdr, cx_parent_gas_limit = sh_gas_limit hdr\<rparr> committed
       (d_block_access_list (p_diff fb)) evm (b_extra_data base) = Ok outcome"
    using assms(1) by (rule build_flashblock_Ok)
  have rec: "xo_recover ops tx = Some tx' \<Longrightarrow> tx' = tx" for tx tx'
    using assms(2) state unfolding recovers_same_def by blast
  show thesis
    using that [OF state decode_flashblock_txs_Ok [OF txs]] build_carries [OF built rec assms(3)]
    by (auto simp: flashblock_attributes_def)
qed

section \<open>The executor's loop\<close>

text \<open>
  \<open>launch\<close>: the flashblocks of the stream are processed one after the other, errors are logged. The
  result is \<open>None\<close> when one of the calls never returns.
\<close>

fun launch ::
  "bool \<Rightarrow> ('e, 'tx, 'w, 'log, 'u, 'i, 'slot, 'st, 'h, 't, 's, 'acc, 'inf, 'sto, 'x, 'ctx) node_env \<Rightarrow>
     ('tx, 'w, 'acc list, ('tx, 'w, 'acc list, 'log, 'u, 'h, 't) executed_block, 'q) FlashblocksStateExecutor \<Rightarrow>
     ('w, 'acc list) flashblock list \<Rightarrow>
     (('tx, 'w, 'acc list, ('tx, 'w, 'acc list, 'log, 'u, 'h, 't) executed_block, 'q) FlashblocksStateExecutor \<times>
      ('e process_error,
       ('tx, 'w, 'acc list, ('tx, 'w, 'acc list, 'log, 'u, 'h, 't) executed_block, 'q) exec_effect list) result list) option"
where
  "launch debug env self [] = Some (self, [])"
| "launch debug env self (flashblock # stream) =
     (case process_flashblock debug env self flashblock of
        None \<Rightarrow> None
      | Some (self, r) \<Rightarrow> map_option (\<lambda>(self, rs). (self, r # rs)) (launch debug env self stream))"

text \<open>
  The latest payload mirrors the collection: it carries (with consistent totals, roots and hash) the
  decoded transactions of all flashblocks of the collection, in order, for the id of the collection
  and the index of its last flashblock. Without a latest payload the collection has no transactions.
\<close>

definition latest_mirrors ::
  "('e, 'tx, 'w, 'log, 'u, 'i, 'slot, 'st, 'h, 't, 's, 'acc, 'inf, 'sto, 'x, 'ctx) node_env \<Rightarrow>
     ('w, 'acc list) flashblocks \<Rightarrow>
     (('tx, 'w, 'acc list, 'log, 'u, 'h, 't) built_payload \<times> u64) option \<Rightarrow> bool" where
  "latest_mirrors env fbs latest \<longleftrightarrow>
     flashblocks_wf fbs \<and>
     (case latest of
        None \<Rightarrow> all_transactions fbs = []
      | Some (payload, index) \<Rightarrow>
          index = p_index (last fbs) \<and>
          map (ne_decode_tx env) (all_transactions fbs) = map Some (block_txs (bp_block payload)) \<and>
          (\<exists>ops benv acc. let base = the (p_base (hd fbs)) in
             ne_state_by_block_hash env (b_parent_hash base) = Ok (ops, benv) \<and>
             carries benv (p_payload_id (hd fbs)) (b_timestamp base) acc (block_txs (bp_block payload)) payload))"

abbreviation mirrors_collection ::
  "('e, 'tx, 'w, 'log, 'u, 'i, 'slot, 'st, 'h, 't, 's, 'acc, 'inf, 'sto, 'x, 'ctx) node_env \<Rightarrow>
     ('tx, 'w, 'acc list, ('tx, 'w, 'acc list, 'log, 'u, 'h, 't) executed_block, 'q) FlashblocksStateExecutor \<Rightarrow>
     bool" where
  "mirrors_collection env self \<equiv> latest_mirrors env (se_flashblocks self) (se_latest_payload self)"

lemma latest_mirrors_new: "mirrors_collection env (state_executor_new p2p pending)"
  by (simp add: latest_mirrors_def state_executor_new_def default_flashblocks_wf)
    (simp add: all_transactions_def default_flashblocks_def default_delta_def)

lemma latest_mirrors_wf: "latest_mirrors env fbs latest \<Longrightarrow> flashblocks_wf fbs"
  by (simp add: latest_mirrors_def)

lemma all_transactions_pushed:
  "all_transactions (pushed fbs fb) =
     (if starts_new fbs fb then [] else all_transactions fbs) @ d_transactions (p_diff fb)"
  by (simp add: pushed_def all_transactions_def)

lemma process_keeps_mirror:
  assumes "mirrors_collection env self" and "recovers_same env"
    and "process_flashblock debug env self fb = Some (self', r)"
    and "p_index fb = 0 \<longrightarrow> (\<exists>x. r = Ok x) \<or> (\<exists>e. r = Err (CollectionError e))"
  shows "mirrors_collection env self'"
proof -
  let ?fbs = "se_flashblocks self"
  note wf = latest_mirrors_wf [OF assms(1)]
  from wf assms(3) show ?thesis
  proof (cases rule: process_cases)
    case (processed payload)
    with assms(1) show ?thesis by simp
  next
    case (refused e)
    with assms(1) show ?thesis by simp
  next
    case failed
    then have "\<not> starts_new ?fbs fb" using assms(4) by (auto simp: starts_new_def)
    with failed assms(1) show ?thesis by (simp add: reset_latest_def)
  next
    case (built outcome payload)
    let ?base = "the (p_base (hd (pushed ?fbs fb)))"
      and ?committed = "map_option fst (se_latest_payload (reset_latest self fb))"
    obtain ops benv acc new where
      state: "ne_state_by_block_hash env (b_parent_hash ?base) = Ok (ops, benv)"
      and new: "map (ne_decode_tx env) (d_transactions (p_diff fb)) = map Some new"
      and carries: "carries benv (p_payload_id fb) (b_timestamp ?base) acc (committed_txs ?committed @ new) payload"
      using built(3) assms(2) built(4) by (rule built_flashblock)
    have "map (ne_decode_tx env) (if starts_new ?fbs fb then [] else all_transactions ?fbs) =
        map Some (committed_txs ?committed)"
      using assms(1) by (auto simp: latest_mirrors_def reset_latest_def committed_txs_def split: option.splits)
    moreover have txs: "block_txs (bp_block payload) = committed_txs ?committed @ new"
      using carries by (simp add: carries_def Let_def)
    ultimately have decoded: "map (ne_decode_tx env) (all_transactions (pushed ?fbs fb)) =
        map Some (block_txs (bp_block payload))"
      using new by (simp add: all_transactions_pushed)
    have "p_payload_id (hd (pushed ?fbs fb)) = p_payload_id fb"
      using built(2) starts_new_not_continues [of ?fbs fb]
      by (auto simp: hd_pushed [OF wf] accepts_def continues_def)
    with decoded state push_accepts(2) [OF wf built(2)] carries [folded txs] show ?thesis
      by (auto simp: latest_mirrors_def built(6) Let_def)
  qed
qed

lemma launch_keeps_mirror:
  assumes "launch debug env start stream = Some (self, rs)" and "mirrors_collection env start"
    and "recovers_same env"
    and "\<And>i. i < length stream \<Longrightarrow> p_index (stream ! i) = 0 \<Longrightarrow>
      (\<exists>x. rs ! i = Ok x) \<or> (\<exists>e. rs ! i = Err (CollectionError e))"
  shows "mirrors_collection env self"
  using assms(1,2,4)
proof (induction stream arbitrary: start rs)
  case Nil
  then show ?case by simp
next
  case (Cons fb stream)
  from Cons.prems(1) obtain s r rs' where
    first: "process_flashblock debug env start fb = Some (s, r)"
    and rest: "launch debug env s stream = Some (self, rs')" and rs: "rs = r # rs'"
    by (auto split: option.splits prod.splits)
  have "mirrors_collection env s"
    by (rule process_keeps_mirror [OF Cons.prems(2) assms(3) first])
      (use Cons.prems(3) [of 0] rs in auto)
  then show ?case
  proof (rule Cons.IH [OF rest])
    fix i
    assume "i < length stream" and "p_index (stream ! i) = 0"
    then show "(\<exists>x. rs' ! i = Ok x) \<or> (\<exists>e. rs' ! i = Err (CollectionError e))"
      using Cons.prems(3) [of "Suc i"] rs by simp
  qed
qed

text \<open>
  C10: A follower's latest payload mirrors the collection. Whatever stream of flashblocks a new node
  processes, with refused and repeated ones and with failures of later flashblocks, as long as no
  flashblock that starts a payload fails after it was accepted: the collection satisfies its
  invariant, and the latest payload carries exactly the transactions of the collection's
  flashblocks in order, with consistent fees, gas, receipts, roots and hash.
\<close>

theorem latest_payload_mirrors_collection:
  assumes "launch debug env (state_executor_new p2p pending) stream = Some (self, rs)"
    and "recovers_same env"
    and "\<And>i. i < length stream \<Longrightarrow> p_index (stream ! i) = 0 \<Longrightarrow>
      (\<exists>x. rs ! i = Ok x) \<or> (\<exists>e. rs ! i = Err (CollectionError e))"
  shows "mirrors_collection env self"
  using launch_keeps_mirror [OF assms(1) latest_mirrors_new assms(2,3)] .

text \<open>Flashblocks that are all processed without an error are collected as they come.\<close>

lemma process_Ok_collects:
  assumes "flashblocks_wf (se_flashblocks self)" and "already_processed self fb = None"
    and "process_flashblock debug env self fb = Some (self', Ok x)"
  shows "accepts (se_flashblocks self) fb" and "se_flashblocks self' = pushed (se_flashblocks self) fb"
    and "\<exists>payload. se_latest_payload self' = Some (payload, p_index fb)"
  using assms(1,3) by (cases rule: process_cases; use assms(2) in simp)+

lemma launch_continues:
  assumes "launch debug env self stream = Some (follower, rs)" and "\<And>r. r \<in> set rs \<Longrightarrow> \<exists>x. r = Ok x"
    and "flashblocks_wf (se_flashblocks self)" and "flashblocks_wf (se_flashblocks self @ stream)"
    and "length (se_flashblocks self @ stream) < 2 ^ 64"
    and "\<exists>payload. se_latest_payload self = Some (payload, of_nat (length (se_flashblocks self) - 1))"
  shows "se_flashblocks follower = se_flashblocks self @ stream \<and> se_latest_payload follower \<noteq> None"
  using assms
proof (induction stream arbitrary: self rs)
  case Nil
  then show ?case by auto
next
  case (Cons fb stream)
  let ?fbs = "se_flashblocks self"
  from Cons.prems(1) obtain s r rs' where
    first: "process_flashblock debug env self fb = Some (s, r)"
    and rest: "launch debug env s stream = Some (follower, rs')" and rs: "rs = r # rs'"
    by (auto split: option.splits prod.splits)
  obtain x where r: "r = Ok x" using Cons.prems(2) rs by auto
  have ne: "?fbs \<noteq> []" using flashblocks_wfD(1) [OF Cons.prems(3)] .
  then have shorter: "\<not> length ?fbs \<le> length ?fbs - 1" by (cases ?fbs) simp_all
  have pid: "p_payload_id fb = p_payload_id (hd ?fbs)" and index: "p_index fb = of_nat (length ?fbs)"
    using flashblocks_wfD(3) [OF Cons.prems(4), of fb] flashblocks_wfD(4) [OF Cons.prems(4), of "length ?fbs"] ne
    by simp_all
  have "unat (of_nat (length ?fbs) :: u64) = length ?fbs" "unat (of_nat (length ?fbs - 1) :: u64) = length ?fbs - 1"
    using Cons.prems(5) by (simp_all add: unat_of_nat)
  then have "\<not> p_index fb \<le> of_nat (length ?fbs - 1)" using shorter by (simp add: index word_le_nat_alt)
  then have new: "already_processed self fb = None" using Cons.prems(6) by (auto simp: already_processed_def)
  note step = process_Ok_collects [OF Cons.prems(3) new first [unfolded r]]
  have "\<not> starts_new ?fbs fb" using pid by (simp add: starts_new_def)
  then have pushed: "se_flashblocks s = ?fbs @ [fb]" using step(2) by (simp add: pushed_def)
  have "se_flashblocks follower = se_flashblocks s @ stream \<and> se_latest_payload follower \<noteq> None"
  proof (rule Cons.IH [OF rest])
    show "flashblocks_wf (se_flashblocks s)" using push_accepts(2) [OF Cons.prems(3) step(1)] step(2) by simp
  qed (use Cons.prems step(3) index rs in \<open>auto simp: pushed\<close>)
  then show ?case by (simp add: pushed)
qed

lemma launch_collects:
  assumes "launch debug env (state_executor_new p2p pending) stream = Some (follower, rs)"
    and "\<And>r. r \<in> set rs \<Longrightarrow> \<exists>x. r = Ok x"
    and "flashblocks_wf stream" and "length stream < 2 ^ 64" and "p_payload_id (hd stream) \<noteq> 0"
  shows "se_flashblocks follower = stream" and "se_latest_payload follower \<noteq> None"
proof -
  let ?self = "state_executor_new p2p pending"
  obtain fb rest where stream: "stream = fb # rest" using flashblocks_wfD(1) [OF assms(3)] by (cases stream) auto
  from assms(1) obtain s r rs' where
    first: "process_flashblock debug env ?self fb = Some (s, r)"
    and run: "launch debug env s rest = Some (follower, rs')" and rs: "rs = r # rs'"
    unfolding stream by (auto split: option.splits prod.splits)
  obtain x where r: "r = Ok x" using assms(2) rs by auto
  have new: "se_flashblocks ?self = default_flashblocks" "se_latest_payload ?self = None"
    by (simp_all add: state_executor_new_def)
  have "already_processed ?self fb = None" by (simp add: already_processed_def new)
  have "flashblocks_wf (se_flashblocks ?self)" by (simp add: new default_flashblocks_wf)
  note step = process_Ok_collects [OF this \<open>already_processed ?self fb = None\<close> first [unfolded r], unfolded new]
  have "\<not> continues default_flashblocks fb" using assms(5) by (simp add: stream continues_def default_flashblocks_def)
  then have pushed: "se_flashblocks s = [fb]" using step(1,2) by (simp add: accepts_def pushed_def)
  have "p_index fb = 0" using flashblocks_wfD(4) [OF assms(3), of 0] by (simp add: stream)
  moreover have "flashblocks_wf [fb]"
    using push_accepts(2) [OF default_flashblocks_wf step(1)] step(2) by (simp add: pushed)
  ultimately have "se_flashblocks follower = se_flashblocks s @ rest \<and> se_latest_payload follower \<noteq> None"
    using assms(2-4) step(3) rs
    by (intro launch_continues [OF run]) (auto simp: pushed stream)
  then show "se_flashblocks follower = stream" "se_latest_payload follower \<noteq> None"
    by (simp_all add: pushed stream)
qed

section \<open>All operations together\<close>

text \<open>
  The operations of a node in any order: it publishes what it builds, processes what the stream
  yields, and registers a channel. A call that never returns is no step.
\<close>

datatype ('tx, 'w, 'b, 'x, 'q) exec_op =
    Publish i64 "('w, 'b) flashblock" "('tx, 'w, 'b, 'x) OpBuiltPayload"
  | Process "('w, 'b) flashblock"
  | Register 'q

definition outputs :: "('e, 'a list) result \<Rightarrow> 'a list" where
  "outputs r = (case r of Ok xs \<Rightarrow> xs | _ \<Rightarrow> [])"

fun exec_step ::
  "((FlashblockMetadata, 'w, 'acc list) FlashblocksP2PMsg \<Rightarrow> bytes) \<Rightarrow> bool \<Rightarrow>
     ('e, 'tx, 'w, 'log, 'u, 'i, 'slot, 'st, 'h, 't, 's, 'acc, 'inf, 'sto, 'x, 'ctx) node_env \<Rightarrow>
     ('tx, 'w, 'acc list, ('tx, 'w, 'acc list, 'log, 'u, 'h, 't) executed_block, 'q) FlashblocksStateExecutor \<Rightarrow>
     ('tx, 'w, 'acc list, ('tx, 'w, 'acc list, 'log, 'u, 'h, 't) executed_block, 'q) exec_op \<Rightarrow>
     ('tx, 'w, 'acc list, ('tx, 'w, 'acc list, 'log, 'u, 'h, 't) executed_block, 'q) FlashblocksStateExecutor \<times>
     ('tx, 'w, 'acc list, ('tx, 'w, 'acc list, 'log, 'u, 'h, 't) executed_block, 'q) exec_effect list"
where
  "exec_step encode_msg debug env self (Publish now payload built) =
     (let (self', r) = publish_built_payload encode_msg now self payload built in (self', outputs r))"
| "exec_step encode_msg debug env self (Process flashblock) =
     (case process_flashblock debug env self flashblock of
        None \<Rightarrow> (self, []) | Some (self', r) \<Rightarrow> (self', outputs r))"
| "exec_step encode_msg debug env self (Register tx) = (register_payload_events self tx, [])"

text \<open>A publication passes the payload of the flashblock's id, as the publishing step does.\<close>

fun own_payload :: "('tx, 'w, 'b, 'x, 'q) exec_op \<Rightarrow> bool" where
  "own_payload (Publish now payload built) = (bp_id built = p_payload_id payload)"
| "own_payload _ = True"

definition latest_matches :: "('tx, 'w, 'b, 'x, 'q) FlashblocksStateExecutor \<Rightarrow> bool" where
  "latest_matches self \<longleftrightarrow> flashblocks_wf (se_flashblocks self) \<and>
     (case se_latest_payload self of
        None \<Rightarrow> True
      | Some (payload, index) \<Rightarrow> bp_id payload = p_payload_id (last (se_flashblocks self)) \<and>
          index = p_index (last (se_flashblocks self)))"

lemma latest_matches_new: "latest_matches (state_executor_new p2p pending)"
  by (simp add: latest_matches_def state_executor_new_def default_flashblocks_wf)

lemma latest_matches_stored:
  assumes "flashblocks_wf (se_flashblocks self)" and "accepts (se_flashblocks self) fb"
    and "bp_id payload = p_payload_id fb"
    and "se_flashblocks self' = pushed (se_flashblocks self) fb"
    and "se_latest_payload self' = Some (payload, p_index fb)"
  shows "latest_matches self'"
  using assms push_accepts(2) [OF assms(1,2)] by (simp add: latest_matches_def)

lemma exec_step_latest:
  assumes "own_payload operation" and "latest_matches self"
  shows "latest_matches (fst (exec_step encode_msg debug env self operation))"
proof (cases operation)
  case (Publish now payload built)
  have wf: "flashblocks_wf (se_flashblocks self)" using assms(2) by (simp add: latest_matches_def)
  obtain self' r where step: "publish_built_payload encode_msg now self payload built = (self', r)" by fastforce
  from wf step have "latest_matches self'"
  proof (cases rule: publish_built_cases)
    case stored
    show ?thesis by (rule latest_matches_stored [OF wf stored(1)]) (use assms(1) stored(2) Publish in simp_all)
  qed (use assms(2) in simp)
  then show ?thesis by (simp add: Publish step)
next
  case (Process fb)
  have wf: "flashblocks_wf (se_flashblocks self)" using assms(2) by (simp add: latest_matches_def)
  show ?thesis
  proof (cases "process_flashblock debug env self fb")
    case None
    then show ?thesis using assms(2) by (simp add: Process)
  next
    case (Some res)
    obtain self' r where res: "res = (self', r)" by fastforce
    from wf Some [unfolded res] have "latest_matches self'"
    proof (cases rule: process_cases)
      case (built outcome payload)
      have "bp_id payload = p_payload_id fb"
        using built(3) by (rule build_flashblock_Ok)
          (use built(4) in \<open>auto dest: build_id simp: flashblock_attributes_def\<close>)
      then show ?thesis by (rule latest_matches_stored [OF wf built(2)]) (simp_all add: built(6))
    qed (use assms(2) in \<open>auto simp: latest_matches_def reset_latest_def split: option.splits\<close>)
    then show ?thesis by (simp add: Process Some res)
  qed
next
  case (Register tx)
  then show ?thesis using assms(2) by (auto simp: register_payload_events_def latest_matches_def split: option.splits)
qed

interpretation executor: machine "exec_step encode_msg debug env" own_payload "\<lambda>self _. latest_matches self"
  for encode_msg debug env
  by unfold_locales (rule exec_step_latest)

text \<open>
  C25: Whatever a node publishes, processes and registers, in whatever order and with whatever
  failures in between, its collection satisfies the invariant, and the latest payload, where there
  is one, has the payload id and the index of the last flashblock of the collection.
\<close>

theorem executor_keeps_invariant:
  assumes "\<And>operation. operation \<in> set operations \<Longrightarrow> own_payload operation"
  shows "latest_matches (fst (run (exec_step encode_msg debug env) (state_executor_new p2p pending) operations))"
  by (rule executor.run_from_start [OF assms latest_matches_new])

section \<open>A node's own flashblocks, and failures\<close>

text \<open>
  What a node has published it does not execute again. After a successful publication every
  flashblock of that payload up to the published index is answered from the stored payload: only the
  pending block is replaced by the payload's executed block, whatever the EVM or the chain would do.
\<close>

theorem published_flashblock_not_rebuilt:
  assumes "publish_built_payload encode_msg now self payload built = (self', Ok effects)"
    and "bp_id built = p_payload_id payload"
    and "p_payload_id fb = p_payload_id payload" and "p_index fb \<le> p_index payload"
  shows "process_flashblock debug env self' fb = Some (self'\<lparr>se_pending_block := bp_executed_block built\<rparr>, Ok [])"
proof -
  have "se_latest_payload self' = Some (built, p_index payload)"
    using assms(1) by (auto simp: publish_built_payload_def Let_def split: result.splits prod.splits)
  then show ?thesis using assms(2-4) by (simp add: process_flashblock_def already_processed_def)
qed

text \<open>
  C31: A failed start of a payload loses the committed one. When a flashblock that starts a new
  payload is accepted but cannot be decoded or executed, the collection still holds the old
  payload while the latest payload is gone. The next flashblock of the old payload is then built on
  nothing: in a release build the node ends with a payload that has the transactions of that one
  flashblock only, without those of the flashblocks before it.
\<close>

theorem failed_start_loses_committed:
  assumes "flashblocks_wf (se_flashblocks self)" and "recovers_same env"
    and "starts_new (se_flashblocks self) bad" and "already_processed self bad = None"
    and "build_flashblock env None (the (p_base bad)) bad = Some (Err e)"
    and "continues (se_flashblocks self) fb"
    and "process_flashblock debug env self bad = Some (failed, r)"
    and "process_flashblock debug env failed fb = Some (self', Ok effects)"
  shows "se_flashblocks failed = se_flashblocks self \<and> se_latest_payload failed = None \<and>
    se_flashblocks self' = se_flashblocks self @ [fb] \<and>
    (\<exists>payload. se_latest_payload self' = Some (payload, p_index fb) \<and>
       map (ne_decode_tx env) (d_transactions (p_diff fb)) = map Some (block_txs (bp_block payload)))"
proof -
  have failed: "failed = self\<lparr>se_latest_payload := None\<rparr>"
    using assms(1,7)
  proof (cases rule: process_cases)
    case (built outcome payload)
    then show ?thesis using assms(1,3,5) by (simp add: reset_latest_def hd_pushed)
  qed (use assms(3,4) in \<open>auto simp: reset_latest_def accepts_def\<close>)
  have old: "\<not> starts_new (se_flashblocks self) fb" using assms(6) starts_new_not_continues by blast
  have "flashblocks_wf (se_flashblocks failed)" using assms(1) by (simp add: failed)
  from this assms(8) show ?thesis
  proof (cases rule: process_cases)
    case (processed payload)
    then show ?thesis by (simp add: failed already_processed_def)
  next
    case (built outcome payload)
    obtain ops benv acc new where
      "ne_state_by_block_hash env (b_parent_hash (the (p_base (hd (pushed (se_flashblocks failed) fb))))) = Ok (ops, benv)"
      and "map (ne_decode_tx env) (d_transactions (p_diff fb)) = map Some new"
      and "carries benv (p_payload_id fb) (b_timestamp (the (p_base (hd (pushed (se_flashblocks failed) fb))))) acc
        (committed_txs (map_option fst (se_latest_payload (reset_latest failed fb))) @ new) payload"
      and "h_gas_limit (bk_header (bp_block payload)) = 0"
      using built(3) assms(2) built(4) by (rule built_flashblock)
    then have "map (ne_decode_tx env) (d_transactions (p_diff fb)) = map Some (block_txs (bp_block payload))"
      using old by (simp add: carries_def Let_def committed_txs_def reset_latest_def failed)
    then show ?thesis using built(6) old by (simp add: failed pushed_def)
  qed (use assms(6) in \<open>auto simp: failed accepts_def\<close>)
qed

text \<open>The header that is fetched: the loop returns when an attempt does not fail.\<close>

lemma retry_header_Err: "fetch_header (answers n) = Err e \<Longrightarrow> retry_header answers n = retry_header answers (Suc n)"
  by (subst retry_header.simps) simp

lemma retry_header_returns:
  "(\<And>e. fetch_header (answers (n + d)) \<noteq> Err e) \<Longrightarrow> retry_header answers n \<noteq> None"
proof (induction d arbitrary: n)
  case 0
  then show ?case by (subst retry_header.simps) (auto split: result.splits)
next
  case (Suc d)
  show ?case
  proof (cases "fetch_header (answers n)")
    case (Err e)
    then show ?thesis using Suc.IH [of "Suc n"] Suc.prems by (simp add: retry_header_Err)
  qed (subst retry_header.simps, simp)+
qed

lemma retry_header_Some: "retry_header answers n = Some r \<Longrightarrow> \<exists>k \<ge> n. \<forall>e. fetch_header (answers k) \<noteq> Err e"
proof (induct rule: retry_header.raw_induct [rotated 1, consumes 1, case_names step])
  case (step rec answers attempt r)
  show ?case
  proof (cases "fetch_header (answers attempt)")
    case (Err e)
    then have "rec answers (Suc attempt) = Some r" using step(2) by simp
    from step(1) [OF this] show ?thesis by (auto dest: Suc_leD)
  qed auto
qed

lemma retry_header_None_iff:
  "retry_header answers n = None \<longleftrightarrow> (\<forall>k \<ge> n. \<exists>e. fetch_header (answers k) = Err e)"
  using retry_header_Some [of answers n] retry_header_returns [of answers n]
  by (metis le_Suc_ex not_None_eq)

text \<open>
  C30: When processing returns. The call that processes a flashblock, and with it the write lock, is
  held forever exactly when the flashblock is not already covered by the latest payload, is accepted
  by the collection, its transactions and its fee parameters decode, and the header of its parent is
  never found: every attempt ends with an error of the provider or without the header. In
  every other case the call returns.
\<close>

theorem process_returns_unless_header_missing:
  fixes env :: "('e, 'tx, 'w, 'log, 'u, 'i, 'slot, 'st, 'h, 't, 's, 'acc, 'inf, 'sto, 'x, 'ctx) node_env"
  assumes "flashblocks_wf (se_flashblocks self)"
  shows "process_flashblock debug env self fb = None \<longleftrightarrow>
    already_processed self fb = None \<and> accepts (se_flashblocks self) fb \<and>
    (let base = the (p_base (hd (pushed (se_flashblocks self) fb))) in
       None \<notin> set (map (ne_decode_tx env) (d_transactions (p_diff fb))) \<and>
       (\<exists>extra. ne_holocene_extra_data env (b_timestamp base) = Some extra \<and> 9 \<le> length extra) \<and>
       (\<forall>attempt. \<exists>e. fetch_header (ne_sealed_header_by_hash env (b_parent_hash base) attempt) = Err e))"
proof (cases "already_processed self fb = None \<and> accepts (se_flashblocks self) fb")
  case True
  let ?base = "the (p_base (hd (pushed (se_flashblocks self) fb)))"
  have "process_flashblock debug env self fb = None \<longleftrightarrow>
      build_flashblock env (map_option fst (se_latest_payload (reset_latest self fb))) ?base fb = None"
    using process_accepted [OF assms, of fb debug env] True by simp
  also have "\<dots> \<longleftrightarrow> (\<exists>txs extra.
      decode_flashblock_txs (ne_decode_tx env) (d_transactions (p_diff fb)) = (Ok txs :: ('e process_error, _) result) \<and>
      ne_holocene_extra_data env (b_timestamp ?base) = Some extra \<and> 9 \<le> length extra) \<and>
      retry_header (ne_sealed_header_by_hash env (b_parent_hash ?base)) 0 = (None :: ('e process_error, _) result option)"
    by (auto simp: build_flashblock_def eip_1559_params_def ok_or_def bind_result_cases not_less
        split: result.splits option.splits if_splits)
  finally show ?thesis using True
    by (auto simp: retry_header_None_iff decode_flashblock_txs_Ok_iff Let_def)
next
  case False
  show ?thesis
  proof (cases "already_processed self fb")
    case None
    with False obtain e where "is_new_payload (se_flashblocks self) fb = Err e"
      using push_refuses [OF assms] by metis
    with False None show ?thesis by (simp add: process_flashblock_def)
  qed (simp add: process_flashblock_def)
qed

text \<open>
  C32: A published block hash is never reproduced. The attributes of a processed flashblock have no gas
  limit and the builder then writes 0 into the header, while the publisher's header has the gas
  limit of its block. So when the flashblock's hash is that of a header with another gas limit and
  no other header has this hash, a debug build does not get past its assertion, and a release build
  that succeeds ends with a latest payload and a pending block of another hash than the published one.
\<close>

theorem published_hash_not_reproduced:
  assumes "flashblocks_wf (se_flashblocks self)" and "recovers_same env"
    and "already_processed self fb = None"
    and "process_flashblock debug env self fb = Some (self', Ok effects)"
    and "\<And>ops benv. ne_state_by_block_hash env
        (b_parent_hash (the (p_base (hd (pushed (se_flashblocks self) fb))))) = Ok (ops, benv) \<Longrightarrow>
      d_block_hash (p_diff fb) = hs_header_hash (be_hashing benv) published_hdr \<and>
      (\<forall>h. hs_header_hash (be_hashing benv) h = hs_header_hash (be_hashing benv) published_hdr \<longrightarrow> h = published_hdr)"
    and "h_gas_limit published_hdr \<noteq> 0"
  shows "\<not> debug \<and> (\<exists>payload. se_latest_payload self' = Some (payload, p_index fb) \<and>
    se_pending_block self' = bp_executed_block payload \<and> bp_hash payload \<noteq> d_block_hash (p_diff fb))"
  using assms(1,4)
proof (cases rule: process_cases)
  case (built outcome payload)
  obtain ops benv acc new where
    state: "ne_state_by_block_hash env (b_parent_hash (the (p_base (hd (pushed (se_flashblocks self) fb))))) = Ok (ops, benv)"
    and "map (ne_decode_tx env) (d_transactions (p_diff fb)) = map Some new"
    and carries: "carries benv (p_payload_id fb) (b_timestamp (the (p_base (hd (pushed (se_flashblocks self) fb))))) acc
      (committed_txs (map_option fst (se_latest_payload (reset_latest self fb))) @ new) payload"
    and limit: "h_gas_limit (bk_header (bp_block payload)) = 0"
    using built(3) assms(2) built(4) by (rule built_flashblock)
  have "bk_header (bp_block payload) \<noteq> published_hdr" using limit assms(6) by auto
  with assms(5) [OF state] carries have "bp_hash payload \<noteq> d_block_hash (p_diff fb)"
    by (auto simp: carries_def Let_def)
  with built(5,6) show ?thesis by auto
qed (use assms(3) in auto)

section \<open>A small node\<close>

text \<open>Transactions are single bytes; the parent's header appears at the third attempt.\<close>

type_synonym example_build_env =
  "(unit builder_error, nat, unit list, nat, nat, unit, unit, unit, nat, unit) build_env"

definition example_node ::
  "example_build_env \<Rightarrow>
     (unit, nat, unit, nat, nat, unit, unit, unit, nat, unit, unit, unit, nat, nat, unit, unit) node_env" where
  "example_node benv = \<lparr>ne_decode_tx = (\<lambda>b. case b of [x] \<Rightarrow> Some (unat x) | _ \<Rightarrow> None),
     ne_holocene_extra_data = (\<lambda>_. Some (replicate 9 0)),
     ne_sealed_header_by_hash = (\<lambda>_ attempt. if attempt < 2 then Ok None
       else Ok (Some \<lparr>sh_hash = 1, sh_number = 8, sh_gas_limit = 30000000\<rparr>)),
     ne_state_by_block_hash = (\<lambda>_. Ok (example_exec, benv)),
     ne_next_evm_env = (\<lambda>_ _. Ok example_evm)\<rparr>"

definition node_flashblock :: "payload_id \<Rightarrow> u64 \<Rightarrow> u64 \<Rightarrow> bytes list \<Rightarrow> b256 \<Rightarrow> (unit, unit list) flashblock" where
  "node_flashblock pid timestamp index txs hash = \<lparr>p_payload_id = pid, p_index = index,
     p_diff = default_delta\<lparr>d_transactions := txs, d_block_hash := hash, d_block_access_list := Some []\<rparr>,
     p_metadata = default_metadata,
     p_base = (if index = 0 then Some (default_base\<lparr>b_timestamp := timestamp\<rparr>) else None)\<rparr>"

lemma recovers_example: "recovers_same (example_node benv)"
  by (auto simp: recovers_same_def example_node_def example_exec_def)

lemma third_attempt [simp]:
  "retry_header (\<lambda>attempt. if attempt < 2 then Ok None else Ok (Some hdr)) 0 = Some (Ok hdr)"
  by (simp add: fetch_header_def retry_header.simps)

text \<open>What the builder does on the small node: any committed payload, transactions of 100 gas each.\<close>

lemmas example_build_simps = build_def prepare_def initial_bal_state_def bal_from_alloy_def block_builder_def
  recover_all_def execute_all_def execute_one_def index_txs_def merge_result_def merge_bal_def
  assemble_payload_def flashblock_attributes_def example_exec_def miner_fee_of_def is_deposit_def
  build_receipt_def withdrawals_fields_def flatten_bundle_def example_env_def example_tx_def

definition example_self ::
  "(nat, unit, unit list, (nat, unit, unit list, nat, nat, nat, unit) executed_block, unit) FlashblocksStateExecutor" where
  "example_self = state_executor_new default_p2p_state None"

lemmas node_simps = example_build_simps example_node_def node_flashblock_def example_self_def state_executor_new_def
  process_flashblock_def already_processed_def is_new_payload_def collection_payload_id_def collection_base_def default_base_def default_flashblocks_def
  build_flashblock_def decode_flashblock_txs_def eip_1559_params_def finish_flashblock_def commit_flashblock_def
  push_def broadcast_payload_def

lemma example_run:
  "\<exists>self. launch False (example_node (example_env [])) example_self
     [node_flashblock 7 5 0 [[0], [4]] 0, node_flashblock 7 5 1 [[6]] 0] = Some (self, [Ok [], Ok []]) \<and>
     se_flashblocks self = [node_flashblock 7 5 0 [[0], [4]] 0, node_flashblock 7 5 1 [[6]] 0] \<and>
     se_latest_payload self \<noteq> None"
  by (simp add: node_simps Let_def)

theorem latest_payload_mirrors_collection_witness:
  "\<exists>self payload. launch False (example_node (example_env [])) example_self
     [node_flashblock 7 5 0 [[0], [4]] 0, node_flashblock 7 5 1 [[6]] 0] = Some (self, [Ok [], Ok []]) \<and>
     se_latest_payload self = Some (payload, 1) \<and> block_txs (bp_block payload) = [0, 4, 6]"
proof -
  let ?fbs = "[node_flashblock 7 5 0 [[0], [4]] 0, node_flashblock 7 5 1 [[6]] 0]"
  obtain self where run: "launch False (example_node (example_env [])) example_self ?fbs = Some (self, [Ok [], Ok []])"
    and fbs: "se_flashblocks self = ?fbs" and latest: "se_latest_payload self \<noteq> None"
    using example_run by blast
  have "mirrors_collection (example_node (example_env [])) self"
    by (rule latest_payload_mirrors_collection [OF run [unfolded example_self_def] recovers_example])
      (auto simp: nth_Cons split: nat.splits)
  then show ?thesis
    using run fbs latest
    by (auto simp: latest_mirrors_def all_transactions_def node_flashblock_def example_node_def map_eq_Cons_conv)
qed

definition example_built ::
  "payload_id \<Rightarrow> (nat, unit, unit list, (nat, unit, unit list, nat, nat, nat, unit) executed_block) OpBuiltPayload"
where
  "example_built pid = \<lparr>bp_id = pid, bp_block = \<lparr>bk_header = example_header,
     bk_body = \<lparr>bb_transactions = [4], bb_ommers = [], bb_withdrawals = None, bb_block_access_list = None\<rparr>\<rparr>,
     bp_hash = 0, bp_fees = 0, bp_executed_block = None\<rparr>"

theorem executor_keeps_invariant_witness:
  "latest_matches (fst (run (exec_step (\<lambda>_. []) False (example_node (example_env [])))
     (state_executor_new default_p2p_state None :: (nat, unit, unit list,
        (nat, unit, unit list, nat, nat, nat, unit) executed_block, unit) FlashblocksStateExecutor)
     [Process (node_flashblock 7 5 0 [[0], [4]] 0), Register (), Publish 1 (node_flashblock 8 6 0 [[4]] 0) (example_built 8),
      Process (node_flashblock 8 6 0 [[4]] 0)]))"
  by (rule executor_keeps_invariant) (auto simp: example_built_def node_flashblock_def)

theorem published_flashblock_not_rebuilt_witness:
  "let fb = node_flashblock 7 5 0 [[4]] 0;
       self = fst (publish_built_payload (\<lambda>_. []) 1 example_self fb (example_built 7))
   in process_flashblock True (example_node (example_env [])) self fb =
      Some (self\<lparr>se_pending_block := None\<rparr>, Ok [])"
proof -
  let ?fb = "node_flashblock 7 5 0 [[4]] 0"
  have "push (se_flashblocks example_self) ?fb = Ok (True, [?fb])" by (simp add: node_simps)
  moreover obtain p2p sent where "publish (\<lambda>_. []) 1 (se_p2p example_self) ?fb = (p2p, sent)" by fastforce
  ultimately obtain self' effects where
    "publish_built_payload (\<lambda>_. []) 1 example_self ?fb (example_built 7) = (self', Ok effects)"
    by (simp add: publish_built_payload_def)
  from published_flashblock_not_rebuilt [OF this, of ?fb True "example_node (example_env [])"] this
  show ?thesis by (simp add: example_built_def node_flashblock_def)
qed

theorem failed_start_loses_committed_witness:
  "\<exists>failed self r payload.
     process_flashblock False (example_node (example_env []))
       (example_self\<lparr>se_flashblocks := [node_flashblock 7 5 0 [[4]] 0], se_latest_payload := Some (example_built 7, 0)\<rparr>)
       (node_flashblock 8 6 0 [[]] 0) = Some (failed, r) \<and>
     process_flashblock False (example_node (example_env [])) failed (node_flashblock 7 5 1 [[6]] 0) = Some (self, Ok []) \<and>
     se_latest_payload self = Some (payload, 1) \<and> block_txs (bp_block payload) = [6]"
proof -
  let ?env = "example_node (example_env [])" and ?fb = "node_flashblock 7 5 1 [[6]] 0"
    and ?bad = "node_flashblock 8 6 0 [[]] 0"
  let ?self = "example_self\<lparr>se_flashblocks := [node_flashblock 7 5 0 [[4]] 0], se_latest_payload := Some (example_built 7, 0)\<rparr>"
  have wf: "flashblocks_wf (se_flashblocks ?self)" and bad: "starts_new (se_flashblocks ?self) ?bad"
    and next_fb: "continues (se_flashblocks ?self) ?fb" and new: "already_processed ?self ?bad = None"
    by (simp_all add: flashblocks_wf_def starts_new_def continues_def already_processed_def example_built_def
        node_flashblock_def)
  have err: "build_flashblock ?env None (the (p_base ?bad)) ?bad = Some (Err TxDecodeError)"
    by (simp add: build_flashblock_def decode_flashblock_txs_def node_flashblock_def example_node_def)
  have r1: "process_flashblock False ?env ?self ?bad = Some (?self\<lparr>se_latest_payload := None\<rparr>, Err TxDecodeError)"
    using new by (simp add: node_simps Let_def)
  have "\<exists>s. process_flashblock False ?env (?self\<lparr>se_latest_payload := None\<rparr>) ?fb = Some (s, Ok [])"
    by (simp add: node_simps Let_def)
  then obtain s where r2: "process_flashblock False ?env (?self\<lparr>se_latest_payload := None\<rparr>) ?fb = Some (s, Ok [])" ..
  from failed_start_loses_committed [OF wf recovers_example bad new err next_fb r1 r2] r1 r2
  show ?thesis by (auto simp: node_flashblock_def example_node_def map_eq_Cons_conv)
qed

text \<open>A hash that tells one header from all others.\<close>

definition pinned_env :: "Header \<Rightarrow> example_build_env" where
  "pinned_env hdr = (example_env [])\<lparr>be_hashing := (be_hashing (example_env [] :: example_build_env))
     \<lparr>hs_header_hash := (\<lambda>h. if h = hdr then 1 else 0)\<rparr>\<rparr>"

theorem published_hash_not_reproduced_witness:
  "let hdr = example_header\<lparr>h_gas_limit := 30000000\<rparr> in
   \<exists>self payload. process_flashblock False (example_node (pinned_env hdr)) example_self
       (node_flashblock 7 5 0 [[4]] 1) = Some (self, Ok []) \<and>
     se_latest_payload self = Some (payload, 0) \<and> bp_hash payload \<noteq> 1"
proof -
  let ?hdr = "example_header\<lparr>h_gas_limit := 30000000\<rparr>" and ?fb = "node_flashblock 7 5 0 [[4]] 1"
  have "\<exists>s. process_flashblock False (example_node (pinned_env ?hdr)) example_self ?fb = Some (s, Ok [])"
    by (simp add: node_simps pinned_env_def Let_def)
  then obtain s where run: "process_flashblock False (example_node (pinned_env ?hdr)) example_self ?fb = Some (s, Ok [])" ..
  have wf: "flashblocks_wf (se_flashblocks example_self)" and new: "already_processed example_self ?fb = None"
    by (simp_all add: example_self_def state_executor_new_def default_flashblocks_wf already_processed_def)
  have pinned: "d_block_hash (p_diff ?fb) = hs_header_hash (be_hashing benv) ?hdr \<and>
      (\<forall>h. hs_header_hash (be_hashing benv) h = hs_header_hash (be_hashing benv) ?hdr \<longrightarrow> h = ?hdr)"
    if "ne_state_by_block_hash (example_node (pinned_env ?hdr)) parent = Ok (ops, benv)" for parent ops benv
    using that by (auto simp: example_node_def pinned_env_def node_flashblock_def split: if_splits)
  have "\<not> False \<and> (\<exists>payload. se_latest_payload s = Some (payload, p_index ?fb) \<and>
      se_pending_block s = bp_executed_block payload \<and> bp_hash payload \<noteq> d_block_hash (p_diff ?fb))"
    by (rule published_hash_not_reproduced [OF wf recovers_example new run], erule pinned) simp
  with run show ?thesis by (auto simp: node_flashblock_def Let_def)
qed

text \<open>A parent that no provider ever finds.\<close>

theorem process_returns_unless_header_missing_witness:
  "process_flashblock False ((example_node (example_env []))\<lparr>ne_sealed_header_by_hash := (\<lambda>_ _. Ok None)\<rparr>)
     example_self (node_flashblock 7 5 0 [[4]] 0) = None"
proof -
  have "flashblocks_wf (se_flashblocks example_self)"
    by (simp add: example_self_def state_executor_new_def default_flashblocks_wf)
  show ?thesis
    unfolding process_returns_unless_header_missing [OF \<open>flashblocks_wf _\<close>]
    by (simp add: example_self_def state_executor_new_def already_processed_def accepts_def starts_new_def
        pushed_def default_flashblocks_def default_base_def node_flashblock_def example_node_def fetch_header_def)
qed

end
