(* ===== verification/PublishStep.thy ===== *)
theory PublishStep
  imports "HOL-Library.Sublist" BuildPayload StateExecutor
begin

text \<open>
  The publishing step of the pipeline, \<^verbatim>\<open>src/step/publish_flashblocks.rs\<close>: \<open>step\<close>, the hooks before and
  after a payload job, and the times behind the metrics. The payload under construction and its
  checkpoints are those of theory \<open>BuildPayload\<close>, the node state it publishes to is that of theory
  \<open>StateExecutor\<close>.
\<close>

section \<open>Times and metrics\<close>

text \<open>An \<open>Instant\<close> is a number of nanoseconds; \<open>duration_since\<close> saturates at zero, as on \<open>nat\<close>.\<close>

record Times =
  job_started :: "nat option"
  job_ended :: "nat option"
  first_block_at :: "nat option"
  previous_block_at :: "nat option"
  last_block_at :: "nat option"

definition default_times :: Times where
  "default_times = \<lparr>job_started = None, job_ended = None, first_block_at = None,
     previous_block_at = None, last_block_at = None\<rparr>"

datatype metric =
    BlocksTotal nat
  | GasPerBlock u64
  | BlobGasPerBlock u64
  | TxsPerBlock nat
  | BundlesPerBlock nat
  | BlocksPerPayloadJob u64
  | IntraBlockInterval nat
  | InterBlockInterval nat
  | InterJobsInterval nat
  | TimeToFirstBlock nat
  | IdleTailTime nat

definition on_job_started :: "nat \<Rightarrow> Times \<Rightarrow> Times \<times> metric list" where
  "on_job_started now tms =
     (let tms' = tms\<lparr>job_started := Some now, job_ended := None\<rparr> in
      case job_ended tms of
        Some ended_at \<Rightarrow> (tms', [InterJobsInterval (now - ended_at)])
      | None \<Rightarrow> (tms', []))"

definition on_job_ended :: "nat \<Rightarrow> Times \<Rightarrow> Times \<times> metric list" where
  "on_job_ended now tms =
     (tms\<lparr>job_ended := Some now, job_started := None, first_block_at := None, previous_block_at := None\<rparr>,
      case last_block_at tms of Some last_at \<Rightarrow> [IdleTailTime (now - last_at)] | None \<Rightarrow> [])"

definition on_published_block :: "nat \<Rightarrow> Times \<Rightarrow> Times \<times> metric list" where
  "on_published_block now tms =
     (let last_at = last_block_at tms;
          is_first_block = (first_block_at tms = None);
          first_at = (if is_first_block then Some now else first_block_at tms);
          first_metrics = (if is_first_block
            then (case last_at of Some last_at \<Rightarrow> [InterBlockInterval (now - last_at)] | None \<Rightarrow> [])
              @ (case job_started tms of Some started \<Rightarrow> [TimeToFirstBlock (now - started)] | None \<Rightarrow> [])
            else []);
          prev_at = last_at;
          intra_metrics = (case prev_at of
              Some prev \<Rightarrow> if \<not> is_first_block then [IntraBlockInterval (now - prev)] else []
            | None \<Rightarrow> [])
      in (tms\<lparr>first_block_at := first_at, last_block_at := Some now, previous_block_at := prev_at\<rparr>,
          first_metrics @ intra_metrics))"

text \<open>What the metrics read of a span: operations of rblib, parameters.\<close>

record 'c span_ops =
  so_gas_used :: "'c list \<Rightarrow> u64"
  so_blob_gas_used :: "'c list \<Rightarrow> u64"
  so_is_bundle :: "'c \<Rightarrow> bool"

definition capture_payload_metrics ::
  "('e, 'tx, 'log, 'u) checkpoint span_ops \<Rightarrow> ('e, 'tx, 'log, 'u) checkpoint list \<Rightarrow> metric list" where
  "capture_payload_metrics ops span =
     [BlocksTotal 1, GasPerBlock (so_gas_used ops span), BlobGasPerBlock (so_blob_gas_used ops span),
      TxsPerBlock (length (span_transactions span)),
      BundlesPerBlock (length (filter (so_is_bundle ops) span))]"

section \<open>The step\<close>

record PublishFlashblock =
  pf_block_number :: u64
  pf_block_base :: "ExecutionPayloadBaseV1 option"
  pf_times :: Times

definition publish_flashblock_new :: PublishFlashblock where
  "publish_flashblock_new = \<lparr>pf_block_number = 0, pf_block_base = None, pf_times = default_times\<rparr>"

text \<open>The clocks a step reads: the time in the metadata, the time of the P2P layer, and an instant.\<close>

record clocks =
  ck_metadata :: i64
  ck_p2p :: i64
  ck_instant :: nat

text \<open>The flashblock of a built payload and the transactions of its span.\<close>

definition published_flashblock ::
  "'tx tx_ops \<Rightarrow> ('tx, 'w, 'b, 'x) OpBuiltPayload \<Rightarrow> payload_id \<Rightarrow> u64 \<Rightarrow> ExecutionPayloadBaseV1 option \<Rightarrow>
     'tx list \<Rightarrow> i64 \<Rightarrow> ('w, 'b) flashblock" where
  "published_flashblock ops op_built_payload pid index base transactions now =
     (let blck = bp_block op_built_payload; header = bk_header blck in
      \<lparr>p_payload_id = pid, p_index = index,
       p_diff = \<lparr>d_state_root = h_state_root header, d_receipts_root = h_receipts_root header,
         d_logs_bloom = h_logs_bloom header, d_gas_used = h_gas_used header,
         d_block_hash = bp_hash op_built_payload,
         d_transactions = map (tx_encoded ops) transactions, d_withdrawals = [],
         d_withdrawals_root = unwrap_or (h_withdrawals_root header) 0,
         d_block_access_list = bb_block_access_list (bk_body blck)\<rparr>,
       p_metadata = \<lparr>m_fees = bp_fees op_built_payload, m_flashblock_timestamp = Some now\<rparr>,
       p_base = base\<rparr>)"

text \<open>
  \<open>step\<close>. A build error fails the pipeline. The counter is incremented before the publication; when
  the publication is refused the payload is returned as it is. After a publication the times and
  the metrics are recorded, and a barrier with the built payload is placed. The result carries the
  state of the step, the state of the node, the metrics and what was sent; \<open>Err\<close> stands for
  \<open>ControlFlow::Fail\<close>.
\<close>

type_synonym ('tx, 'w, 'b, 'log, 'u, 'h, 't, 'q) node =
  "('tx, 'w, 'b, ('tx, 'w, 'b, 'log, 'u, 'h, 't) executed_block, 'q) FlashblocksStateExecutor"

type_synonym ('tx, 'w, 'b, 'log, 'u, 'h, 't, 'q) step_state =
  "PublishFlashblock \<times> ('tx, 'w, 'b, 'log, 'u, 'h, 't, 'q) node \<times> metric list \<times>
     ('tx, 'w, 'b, ('tx, 'w, 'b, 'log, 'u, 'h, 't) executed_block, 'q) exec_effect list"

definition step ::
  "bool \<Rightarrow> ((FlashblockMetadata, 'w, 'b) FlashblocksP2PMsg \<Rightarrow> bytes) \<Rightarrow>
     ('e, 'tx, 'b, 'log, 'u, 'i, 'slot, 'st, 'h, 't) build_env \<Rightarrow>
     ('p, ('e, 'tx, 'log, 'u) checkpoint,
       ('tx, 'w, 'b, ('tx, 'w, 'b, 'log, 'u, 'h, 't) executed_block) WorldContext, 'b) chain_ops \<Rightarrow>
     ('e, 'tx, 'log, 'u) checkpoint span_ops \<Rightarrow> ('tx, 'w, 'u) block_ctx \<Rightarrow> clocks \<Rightarrow>
     PublishFlashblock \<Rightarrow> ('tx, 'w, 'b, 'log, 'u, 'h, 't, 'q) node \<Rightarrow> 'p \<Rightarrow>
     ('tx, 'w, 'b, 'log, 'u, 'h, 't, 'q) step_state \<times> ('e, 'p) result" where
  "step debug encode_msg env chain spans blk clock self node payload =
     (case build_op_built_payload debug env chain blk (pf_block_number self) payload of
        Err e \<Rightarrow> ((self, node, [], []), Err e)
      | Panic \<Rightarrow> ((self, node, [], []), Panic)
      | Ok op_built_payload \<Rightarrow>
          let this_block_span = unpublished_payload chain (pf_block_number self) payload;
              transactions = span_transactions this_block_span;
              index = pf_block_number self;
              self = self\<lparr>pf_block_number := pf_block_number self + 1\<rparr>;
              flashblock = published_flashblock (be_tx env) op_built_payload (bc_payload_id blk) index
                (pf_block_base self) transactions (ck_metadata clock)
          in case publish_built_payload encode_msg (ck_p2p clock) node flashblock op_built_payload of
               (node, Err e) \<Rightarrow> ((self, node, [], []), Ok payload)
             | (node, Panic) \<Rightarrow> ((self, node, [], []), Panic)
             | (node, Ok effects) \<Rightarrow>
                 let (tms, metrics) = on_published_block (ck_instant clock) (pf_times self);
                     metrics = metrics @ capture_payload_metrics spans this_block_span
                 in ((self\<lparr>pf_times := tms\<rparr>, node, metrics, effects),
                     Ok (ch_barrier_with_context chain payload (new_context op_built_payload))))"

section \<open>The hooks of a job\<close>

text \<open>\<open>before_job\<close>: the base of all flashblocks of the job.\<close>

definition job_base :: "('tx, 'w, 'u) block_ctx \<Rightarrow> ExecutionPayloadBaseV1" where
  "job_base blk =
     \<lparr>b_parent_beacon_block_root =
        unwrap_or (ea_parent_beacon_block_root (oa_payload_attributes (bc_attributes blk))) 0,
      b_parent_hash = bc_parent_hash blk, b_fee_recipient = bc_coinbase blk,
      b_prev_randao = ea_prev_randao (oa_payload_attributes (bc_attributes blk)),
      b_block_number = bc_number blk,
      b_gas_limit = unwrap_or (oa_gas_limit (bc_attributes blk)) (bc_parent_gas_limit blk),
      b_timestamp = bc_timestamp blk, b_extra_data = bc_extra_data blk,
      b_base_fee_per_gas = ucast (bc_base_fee blk)\<rparr>"

definition before_job ::
  "('tx, 'w, 'u) block_ctx \<Rightarrow> nat \<Rightarrow> PublishFlashblock \<Rightarrow> PublishFlashblock \<times> metric list" where
  "before_job blk now self =
     (let (tms, metrics) = on_job_started now (pf_times self)
      in (self\<lparr>pf_times := tms, pf_block_base := Some (job_base blk)\<rparr>, metrics))"

definition after_job :: "nat \<Rightarrow> PublishFlashblock \<Rightarrow> PublishFlashblock \<times> metric list" where
  "after_job now self =
     (let (tms, metrics) = on_job_ended now (pf_times self)
      in (self\<lparr>pf_times := tms, pf_block_number := 0, pf_block_base := None\<rparr>,
          metrics @ [BlocksPerPayloadJob (pf_block_number self)]))"

section \<open>The steps of a job\<close>

text \<open>
  The pipeline runs the step once per flashblock: other steps add checkpoints, the step publishes. It
  stops at the first failure. What is sent and recorded is concatenated.
\<close>

fun run_steps ::
  "('p \<Rightarrow> ('e, 'tx, 'log, 'u) checkpoint list \<Rightarrow> 'p) \<Rightarrow>
     bool \<Rightarrow> ((FlashblockMetadata, 'w, 'b) FlashblocksP2PMsg \<Rightarrow> bytes) \<Rightarrow>
     ('e, 'tx, 'b, 'log, 'u, 'i, 'slot, 'st, 'h, 't) build_env \<Rightarrow>
     ('p, ('e, 'tx, 'log, 'u) checkpoint,
       ('tx, 'w, 'b, ('tx, 'w, 'b, 'log, 'u, 'h, 't) executed_block) WorldContext, 'b) chain_ops \<Rightarrow>
     ('e, 'tx, 'log, 'u) checkpoint span_ops \<Rightarrow> ('tx, 'w, 'u) block_ctx \<Rightarrow>
     PublishFlashblock \<Rightarrow> ('tx, 'w, 'b, 'log, 'u, 'h, 't, 'q) node \<Rightarrow> 'p \<Rightarrow>
     (clocks \<times> ('e, 'tx, 'log, 'u) checkpoint list) list \<Rightarrow>
     ('tx, 'w, 'b, 'log, 'u, 'h, 't, 'q) step_state \<times> ('e, 'p) result" where
  "run_steps grow debug encode_msg env chain spans blk self node p [] = ((self, node, [], []), Ok p)"
| "run_steps grow debug encode_msg env chain spans blk self node p ((clock, span) # rest) =
     (case step debug encode_msg env chain spans blk clock self node (grow p span) of
        ((self, node, ms, es), Ok p) \<Rightarrow>
          (let ((self, node, ms', es'), r) =
                 run_steps grow debug encode_msg env chain spans blk self node p rest
           in ((self, node, ms @ ms', es @ es'), r))
      | (st, r) \<Rightarrow> (st, r))"

lemma published_flashblock_simps [simp]:
  "p_payload_id (published_flashblock ops bp pid index base txs now) = pid"
  "p_index (published_flashblock ops bp pid index base txs now) = index"
  "p_base (published_flashblock ops bp pid index base txs now) = base"
  "d_transactions (p_diff (published_flashblock ops bp pid index base txs now)) = map (tx_encoded ops) txs"
  "d_block_hash (p_diff (published_flashblock ops bp pid index base txs now)) = bp_hash bp"
  by (simp_all add: published_flashblock_def Let_def)

text \<open>The flashblock a step publishes, by its counter, its base and the payload.\<close>

abbreviation step_flashblock where
  "step_flashblock env chain blk clock self payload bp \<equiv>
     published_flashblock (be_tx env) bp (bc_payload_id blk) (pf_block_number self) (pf_block_base self)
       (span_transactions (unpublished_payload chain (pf_block_number self) payload)) (ck_metadata clock)"

lemma step_publishes:
  assumes "flashblocks_wf (se_flashblocks node)"
    and "build_op_built_payload debug env chain blk (pf_block_number self) payload = Ok bp"
    and "accepts (se_flashblocks node) (step_flashblock env chain blk clock self payload bp)"
  obtains tms p2p ms es where
    "step debug encode_msg env chain spans blk clock self node payload =
       ((self\<lparr>pf_block_number := pf_block_number self + 1, pf_times := tms\<rparr>,
         node\<lparr>se_flashblocks := pushed (se_flashblocks node) (step_flashblock env chain blk clock self payload bp),
              se_latest_payload := Some (bp, pf_block_number self), se_p2p := p2p\<rparr>, ms, es),
        Ok (ch_barrier_with_context chain payload (new_context bp)))"
proof -
  let ?fb = "step_flashblock env chain blk clock self payload bp"
  obtain p2p sent where p2p: "publish encode_msg (ck_p2p clock) (se_p2p node) ?fb = (p2p, sent)" by fastforce
  obtain tms recorded where recorded: "on_published_block (ck_instant clock) (pf_times self) = (tms, recorded)"
    by fastforce
  have "publish_built_payload encode_msg (ck_p2p clock) node ?fb bp =
      (node\<lparr>se_flashblocks := pushed (se_flashblocks node) ?fb, se_latest_payload := Some (bp, pf_block_number self),
            se_p2p := p2p\<rparr>, Ok (map OverP2P sent))"
    using push_accepts(1) [OF assms(1,3)] p2p by (simp add: publish_built_payload_def)
  with that [of tms p2p] recorded assms(2) show thesis by (simp add: step_def Let_def)
qed

lemma step_refused:
  assumes "flashblocks_wf (se_flashblocks node)"
    and "build_op_built_payload debug env chain blk (pf_block_number self) payload = Ok bp"
    and "\<not> accepts (se_flashblocks node) (step_flashblock env chain blk clock self payload bp)"
  shows "step debug encode_msg env chain spans blk clock self node payload =
    ((self\<lparr>pf_block_number := pf_block_number self + 1\<rparr>, node, [], []), Ok payload)"
proof -
  let ?fb = "step_flashblock env chain blk clock self payload bp"
  obtain e where "push (se_flashblocks node) ?fb = Err e" using assms(1,3) by (rule push_refuses)
  then show ?thesis using assms(2) by (simp add: step_def publish_built_payload_def Let_def)
qed

lemma step_Ok_builds:
  assumes "step debug encode_msg env chain spans blk clock self node payload = (st, Ok p)"
  obtains bp where "build_op_built_payload debug env chain blk (pf_block_number self) payload = Ok bp"
  using assms by (auto simp: step_def split: result.splits)

section \<open>A job that publishes\<close>

text \<open>
  Step, node and payload agree: the collection holds the job's flashblocks so far, as many as the
  counter says, their transactions are those of the latest built payload, and that payload is behind
  the latest barrier with nothing staged after it.
\<close>

definition in_step ::
  "('p, ('e, 'tx, 'log, 'u) checkpoint,
      ('tx, 'w, 'b, ('tx, 'w, 'b, 'log, 'u, 'h, 't) executed_block) WorldContext, 'b) chain_ops \<Rightarrow>
     ('e, 'tx, 'b, 'log, 'u, 'i, 'slot, 'st, 'h, 't) build_env \<Rightarrow> ('tx, 'w, 'u) block_ctx \<Rightarrow>
     PublishFlashblock \<Rightarrow> ('tx, 'w, 'b, 'log, 'u, 'h, 't, 'q) node \<Rightarrow> 'p \<Rightarrow>
     ('tx, 'w, 'b, 'log, 'u, 'h, 't) built_payload \<Rightarrow> bool" where
  "in_step chain env blk self node p bp \<longleftrightarrow>
     flashblocks_wf (se_flashblocks node) \<and>
     p_payload_id (hd (se_flashblocks node)) = bc_payload_id blk \<and>
     p_base (hd (se_flashblocks node)) = Some (job_base blk) \<and>
     length (se_flashblocks node) = unat (pf_block_number self) \<and>
     se_latest_payload node = Some (bp, pf_block_number self - 1) \<and> bp_id bp = bc_payload_id blk \<and>
     ch_latest_barrier chain p = Some (new_context bp) \<and> ch_history_staging chain p = [] \<and>
     span_transactions (ch_history chain p) = block_txs (bp_block bp) \<and>
     all_transactions (se_flashblocks node) = map (tx_encoded (be_tx env)) (block_txs (bp_block bp))"

text \<open>The outcome of the steps of a job, by what the incremental build of the job gives.\<close>

definition job_outcome ::
  "('p, ('e, 'tx, 'log, 'u) checkpoint,
      ('tx, 'w, 'b, ('tx, 'w, 'b, 'log, 'u, 'h, 't) executed_block) WorldContext, 'b) chain_ops \<Rightarrow>
     ('e, 'tx, 'b, 'log, 'u, 'i, 'slot, 'st, 'h, 't) build_env \<Rightarrow> ('tx, 'w, 'u) block_ctx \<Rightarrow> nat \<Rightarrow>
     ('e, ('tx, 'w, 'b, 'log, 'u, 'h, 't) built_payload list) result \<Rightarrow>
     ('tx, 'w, 'b, 'log, 'u, 'h, 't) built_payload \<Rightarrow>
     ('tx, 'w, 'b, 'log, 'u, 'h, 't, 'q) step_state \<times> ('e, 'p) result \<Rightarrow> bool" where
  "job_outcome chain env blk n job bp = (\<lambda>((self, node, _, _), r).
     case job of
       Err e \<Rightarrow> r = Err e
     | Panic \<Rightarrow> r = Panic
     | Ok bps \<Rightarrow> unat (pf_block_number self) = n \<and>
         (\<exists>p. r = Ok p \<and> in_step chain env blk self node p (last (bp # bps))))"

lemma build_txs:
  assumes "build_op_built_payload debug env chain blk n payload = Ok bp"
  shows "block_txs (bp_block bp) = span_transactions (ch_history chain payload)" and "bp_id bp = bc_payload_id blk"
proof -
  obtain acc where "carries env (bc_payload_id blk) (bc_timestamp blk) acc (span_transactions (ch_history chain payload)) bp"
    using assms by (rule build_facts)
  then show "block_txs (bp_block bp) = span_transactions (ch_history chain payload)" "bp_id bp = bc_payload_id blk"
    by (simp_all add: carries_def Let_def)
qed

context checkpoint_chain
begin

lemma job_payload_txs:
  assumes "job_payloads grow debug env chain blk n p spans = Ok bps" and "spans \<noteq> []"
  shows "bps \<noteq> [] \<and> block_txs (bp_block (last bps)) = span_transactions (ch_history chain p @ concat spans)"
  using assms
proof (induction spans arbitrary: n p bps)
  case Nil
  then show ?case by simp
next
  case (Cons span spans)
  let ?p = "grow p span"
  from Cons.prems(1) obtain bp bps' where build: "build_op_built_payload debug env chain blk n ?p = Ok bp"
    and rest: "job_payloads grow debug env chain blk (n + 1) (ch_barrier_with_context chain ?p (new_context bp)) spans = Ok bps'"
    and bps: "bps = bp # bps'" by auto
  show ?case
  proof (cases "spans = []")
    case True
    then show ?thesis using rest build_txs(1) [OF build] by (simp add: bps history_extend)
  next
    case False
    then show ?thesis
      using Cons.IH [OF rest] barrier_empty(2)
      by (simp add: bps history_barrier history_extend span_transactions_append) (simp add: span_transactions_def)
  qed
qed

lemma step_establishes:
  assumes "flashblocks_wf (se_flashblocks node)"
    and "build_op_built_payload debug env chain blk (pf_block_number self) payload = Ok bp"
    and "accepts (se_flashblocks node) (step_flashblock env chain blk clock self payload bp)"
    and "length (pushed (se_flashblocks node) (step_flashblock env chain blk clock self payload bp)) =
      unat (pf_block_number self) + 1"
    and "all_transactions (pushed (se_flashblocks node) (step_flashblock env chain blk clock self payload bp)) =
      map (tx_encoded (be_tx env)) (span_transactions (ch_history chain payload))"
    and "p_base (hd (pushed (se_flashblocks node) (step_flashblock env chain blk clock self payload bp))) =
      Some (job_base blk)"
    and "unat (pf_block_number self) + 1 < 2 ^ 64"
  obtains self' node' ms es where
    "step debug encode_msg env chain spans blk clock self node payload =
       ((self', node', ms, es), Ok (ch_barrier_with_context chain payload (new_context bp)))"
    "in_step chain env blk self' node' (ch_barrier_with_context chain payload (new_context bp)) bp"
    "pf_block_number self' = pf_block_number self + 1"
proof -
  let ?fb = "step_flashblock env chain blk clock self payload bp"
  obtain tms p2p ms es where step: "step debug encode_msg env chain spans blk clock self node payload =
       ((self\<lparr>pf_block_number := pf_block_number self + 1, pf_times := tms\<rparr>,
         node\<lparr>se_flashblocks := pushed (se_flashblocks node) ?fb,
              se_latest_payload := Some (bp, pf_block_number self), se_p2p := p2p\<rparr>, ms, es),
        Ok (ch_barrier_with_context chain payload (new_context bp)))"
    using assms(1-3) by (rule step_publishes)
  have number: "unat (pf_block_number self + 1) = unat (pf_block_number self) + 1"
    using assms(7) by (subst unat_plus_if_size) (simp add: word_size)
  have "p_payload_id (hd (pushed (se_flashblocks node) ?fb)) = bc_payload_id blk"
    using assms(3) starts_new_not_continues [of "se_flashblocks node" ?fb]
    by (auto simp: hd_pushed [OF assms(1)] accepts_def continues_def)
  moreover have "span_transactions (ch_history chain payload @ [barrier_cp]) = span_transactions (ch_history chain payload)"
    using barrier_empty(2) by (simp add: span_transactions_def)
  ultimately show thesis
    using that [OF step] assms(4-6) number push_accepts(2) [OF assms(1,3)] build_txs [OF assms(2)]
    by (simp add: in_step_def barrier_barrier staging_barrier history_barrier)
qed

lemma steps_follow_job:
  assumes "in_step chain env blk self node p bp"
    and "unat (pf_block_number self) + length inputs < 2 ^ 64"
  shows "job_outcome chain env blk (unat (pf_block_number self) + length inputs)
    (job_payloads grow debug env chain blk (pf_block_number self) p (map snd inputs)) bp
    (run_steps grow debug encode_msg env chain spans blk self node p inputs)"
  using assms
proof (induction inputs arbitrary: self node p bp)
  case Nil
  then show ?case by (simp add: job_outcome_def)
next
  case (Cons input inputs)
  obtain clock span where input: "input = (clock, span)" by fastforce
  let ?p = "grow p span" and ?fbs = "se_flashblocks node"
  have wf: "flashblocks_wf ?fbs" and len: "length ?fbs = unat (pf_block_number self)"
    and pid: "p_payload_id (hd ?fbs) = bc_payload_id blk" and staging: "ch_history_staging chain p = []"
    and base: "p_base (hd ?fbs) = Some (job_base blk)"
    and txs: "all_transactions ?fbs = map (tx_encoded (be_tx env)) (span_transactions (ch_history chain p))"
    using Cons.prems(1) by (simp_all add: in_step_def)
  show ?case
  proof (cases "build_op_built_payload debug env chain blk (pf_block_number self) ?p")
    case (Ok bp1)
    let ?fb = "step_flashblock env chain blk clock self ?p bp1"
    have "pf_block_number self \<noteq> 0" using len flashblocks_wfD(1) [OF wf] by auto
    then have span: "unpublished_payload chain (pf_block_number self) ?p = span"
      by (simp add: unpublished_payload_def staging_extend staging)
    have "continues ?fbs ?fb" using pid len by (simp add: continues_def)
    then have acc: "accepts ?fbs ?fb" and pushed: "pushed ?fbs ?fb = ?fbs @ [?fb]"
      using starts_new_not_continues by (auto simp: accepts_def pushed_def)
    have all: "all_transactions (pushed ?fbs ?fb) = map (tx_encoded (be_tx env)) (span_transactions (ch_history chain ?p))"
      unfolding pushed using txs span by (simp add: all_transactions_def history_extend span_transactions_append)
    have "length (pushed ?fbs ?fb) = unat (pf_block_number self) + 1"
      and "p_base (hd (pushed ?fbs ?fb)) = Some (job_base blk)"
      unfolding pushed using len base flashblocks_wfD(1) [OF wf] by simp_all
    then obtain self1 node1 ms1 es1 where
      step: "step debug encode_msg env chain spans blk clock self node ?p =
        ((self1, node1, ms1, es1), Ok (ch_barrier_with_context chain ?p (new_context bp1)))"
      and state: "in_step chain env blk self1 node1 (ch_barrier_with_context chain ?p (new_context bp1)) bp1"
      and number: "pf_block_number self1 = pf_block_number self + 1"
      by (rule step_establishes [OF wf Ok acc _ all]) (use Cons.prems(2) in simp)
    have unat1: "unat (pf_block_number self + 1) = unat (pf_block_number self) + 1"
      using Cons.prems(2) by (subst unat_plus_if_size) (simp add: word_size)
    from Cons.IH [OF state] Cons.prems(2) show ?thesis
      unfolding number unat1
      by (auto simp: input Ok step job_outcome_def split: prod.splits result.splits)
  qed (simp_all add: input job_outcome_def step_def)
qed

text \<open>The step that opens a job on a node which is at another, earlier payload.\<close>

lemma first_step_in_step:
  assumes "flashblocks_wf (se_flashblocks node)"
    and "p_payload_id (hd (se_flashblocks node)) \<noteq> bc_payload_id blk"
    and "b_timestamp (the (p_base (hd (se_flashblocks node)))) < bc_timestamp blk"
    and "pf_block_number self = 0" and "pf_block_base self = Some (job_base blk)"
    and "build_op_built_payload debug env chain blk 0 payload = Ok bp"
  obtains self' node' ms es where
    "step debug encode_msg env chain spans blk clock self node payload =
       ((self', node', ms, es), Ok (ch_barrier_with_context chain payload (new_context bp)))"
    "in_step chain env blk self' node' (ch_barrier_with_context chain payload (new_context bp)) bp"
    "pf_block_number self' = 1"
proof -
  let ?fb = "step_flashblock env chain blk clock self payload bp" and ?fbs = "se_flashblocks node"
  have build: "build_op_built_payload debug env chain blk (pf_block_number self) payload = Ok bp"
    using assms(4,6) by simp
  have new: "starts_new ?fbs ?fb" using assms(2-5) by (simp add: starts_new_def job_base_def)
  then have acc: "accepts ?fbs ?fb" and pushed: "pushed ?fbs ?fb = [?fb]" by (simp_all add: accepts_def pushed_def)
  have all: "all_transactions (pushed ?fbs ?fb) = map (tx_encoded (be_tx env)) (span_transactions (ch_history chain payload))"
    unfolding pushed using assms(4) by (simp add: all_transactions_def unpublished_payload_def)
  have "length (pushed ?fbs ?fb) = unat (pf_block_number self) + 1"
    and "p_base (hd (pushed ?fbs ?fb)) = Some (job_base blk)"
    unfolding pushed using assms(4,5) by simp_all
  then show thesis
    by (rule step_establishes [OF assms(1) build acc _ all]) (use assms(4) that in simp_all)
qed

end

lemma job_in_sequence:
  assumes "checkpoint_chain chain grow barrier_cp"
    and "flashblocks_wf (se_flashblocks node)"
    and "p_payload_id (hd (se_flashblocks node)) \<noteq> bc_payload_id blk"
    and "b_timestamp (the (p_base (hd (se_flashblocks node)))) < bc_timestamp blk"
    and "before_job blk now self = (started, started_metrics)" and "pf_block_number self = 0"
    and "inputs \<noteq> []" and "length inputs < 2 ^ 64"
  shows "job_outcome chain env blk (length inputs) (job_payloads grow debug env chain blk 0 p (map snd inputs)) bp
    (run_steps grow debug encode_msg env chain spans blk started node p inputs)"
proof -
  obtain clock span rest where inputs: "inputs = (clock, span) # rest" using assms(7) by (cases inputs) auto
  have start: "pf_block_number started = 0" "pf_block_base started = Some (job_base blk)"
    using assms(5,6) by (auto simp: before_job_def split: prod.splits)
  show ?thesis
  proof (cases "build_op_built_payload debug env chain blk 0 (grow p span)")
    case (Ok bp1)
    obtain self1 node1 ms1 es1 where
      step: "step debug encode_msg env chain spans blk clock started node (grow p span) =
        ((self1, node1, ms1, es1), Ok (ch_barrier_with_context chain (grow p span) (new_context bp1)))"
      and state: "in_step chain env blk self1 node1 (ch_barrier_with_context chain (grow p span) (new_context bp1)) bp1"
      and number: "pf_block_number self1 = 1"
      by (rule checkpoint_chain.first_step_in_step [OF assms(1-4) start Ok])
    have "unat (pf_block_number self1) + length rest < 2 ^ 64" using assms(8) by (simp add: inputs number)
    from checkpoint_chain.steps_follow_job [OF assms(1) state this, of debug encode_msg spans] show ?thesis
      by (auto simp: inputs Ok step number job_outcome_def split: prod.splits result.splits)
  qed (simp_all add: inputs start job_outcome_def step_def)
qed

text \<open>
  C4: A job publishes its payloads as one sequence of flashblocks. On a node whose current payload is
  another, earlier one, the steps of a job fail exactly as the incremental build of the job does;
  when it succeeds, no publication is refused: the collection of the node holds exactly one
  flashblock per step, of the job's id and base, their transactions are those of the last built
  payload, this payload is the latest payload of the node, and it is behind the latest barrier.
\<close>

theorem job_publishes_in_sequence:
  assumes "checkpoint_chain chain grow barrier_cp"
    and "flashblocks_wf (se_flashblocks node)"
    and "p_payload_id (hd (se_flashblocks node)) \<noteq> bc_payload_id blk"
    and "b_timestamp (the (p_base (hd (se_flashblocks node)))) < bc_timestamp blk"
    and "before_job blk now self = (started, started_metrics)" and "pf_block_number self = 0"
    and "inputs \<noteq> []" and "length inputs < 2 ^ 64"
  shows "job_outcome chain env blk (length inputs) (job_payloads grow debug env chain blk 0 p (map snd inputs)) bp
    (run_steps grow debug encode_msg env chain spans blk started node p inputs)"
  using assms by (rule job_in_sequence)

section \<open>A job whose publications are refused\<close>

text \<open>A whole job: the hook before it, its steps and the hook after it, which runs whatever the outcome.\<close>

definition run_job ::
  "('p \<Rightarrow> ('e, 'tx, 'log, 'u) checkpoint list \<Rightarrow> 'p) \<Rightarrow>
     bool \<Rightarrow> ((FlashblockMetadata, 'w, 'b) FlashblocksP2PMsg \<Rightarrow> bytes) \<Rightarrow>
     ('e, 'tx, 'b, 'log, 'u, 'i, 'slot, 'st, 'h, 't) build_env \<Rightarrow>
     ('p, ('e, 'tx, 'log, 'u) checkpoint,
       ('tx, 'w, 'b, ('tx, 'w, 'b, 'log, 'u, 'h, 't) executed_block) WorldContext, 'b) chain_ops \<Rightarrow>
     ('e, 'tx, 'log, 'u) checkpoint span_ops \<Rightarrow> ('tx, 'w, 'u) block_ctx \<Rightarrow> nat \<Rightarrow> nat \<Rightarrow>
     PublishFlashblock \<Rightarrow> ('tx, 'w, 'b, 'log, 'u, 'h, 't, 'q) node \<Rightarrow> 'p \<Rightarrow>
     (clocks \<times> ('e, 'tx, 'log, 'u) checkpoint list) list \<Rightarrow>
     ('tx, 'w, 'b, 'log, 'u, 'h, 't, 'q) step_state \<times> ('e, 'p) result" where
  "run_job grow debug encode_msg env chain spans blk start_at end_at self node p inputs =
     (let (self, ms1) = before_job blk start_at self;
          ((self, node, ms2, es), r) = run_steps grow debug encode_msg env chain spans blk self node p inputs;
          (self, ms3) = after_job end_at self
      in ((self, node, ms1 @ ms2 @ ms3, es), r))"

lemma run_job_eq:
  assumes "before_job blk start_at self = (started, ms1)"
    and "run_steps grow debug encode_msg env chain spans blk started node p inputs = ((stepped, node', ms2, es), r)"
  shows "run_job grow debug encode_msg env chain spans blk start_at end_at self node p inputs =
    ((fst (after_job end_at stepped), node', ms1 @ ms2 @ snd (after_job end_at stepped), es), r)"
  using assms by (simp add: run_job_def split: prod.split)

text \<open>
  The node is out of step with a job: it holds fewer flashblocks of the job than were counted, or
  it holds another payload and the job has counted a flashblock or is not later than that payload.
\<close>

definition out_of_step :: "('tx, 'w2, 'u) block_ctx \<Rightarrow> u64 \<Rightarrow> ('w, 'b) flashblocks \<Rightarrow> bool" where
  "out_of_step blk n fbs \<longleftrightarrow>
     (if p_payload_id (hd fbs) = bc_payload_id blk then length fbs < unat n
      else n \<noteq> 0 \<or> bc_timestamp blk \<le> b_timestamp (the (p_base (hd fbs))))"

lemma out_of_step_Suc: "out_of_step blk n fbs \<Longrightarrow> unat n + 1 < 2 ^ 64 \<Longrightarrow> out_of_step blk (n + 1) fbs"
proof -
  assume out: "out_of_step blk n fbs" and "unat n + 1 < 2 ^ 64"
  then have "unat (n + 1) = unat n + 1" by (subst unat_plus_if_size) (simp add: word_size)
  moreover from this have "n + 1 \<noteq> 0" by (metis add_is_0 unat_0 zero_neq_one)
  ultimately show ?thesis using out by (auto simp: out_of_step_def split: if_splits)
qed

lemma out_of_step_refuses:
  assumes "out_of_step blk (pf_block_number self) fbs" and "pf_block_base self = Some (job_base blk)"
  shows "\<not> accepts fbs (step_flashblock env chain blk clock self payload bp)"
proof -
  have "unat (of_nat (length fbs) :: u64) \<le> length fbs" by (simp add: unat_of_nat)
  then show ?thesis
    using assms by (auto simp: out_of_step_def accepts_def starts_new_def continues_def job_base_def split: if_splits)
qed

lemma steps_out_of_step:
  assumes "flashblocks_wf (se_flashblocks node)" and "out_of_step blk (pf_block_number self) (se_flashblocks node)"
    and "pf_block_base self = Some (job_base blk)" and "unat (pf_block_number self) + length inputs < 2 ^ 64"
    and "run_steps grow debug encode_msg env chain spans blk self node p inputs = ((self', node', ms, es), r)"
  shows "node' = node \<and> ms = [] \<and> es = [] \<and> pf_times self' = pf_times self \<and>
    (\<forall>p'. r = Ok p' \<longrightarrow> p' = foldl grow p (map snd inputs) \<and>
      pf_block_number self' = pf_block_number self + of_nat (length inputs))"
  using assms
proof (induction inputs arbitrary: self p ms es)
  case Nil
  then show ?case by auto
next
  case (Cons input inputs)
  obtain clock span where input: "input = (clock, span)" by fastforce
  show ?case
  proof (cases "build_op_built_payload debug env chain blk (pf_block_number self) (grow p span)")
    case (Ok bp)
    let ?self = "self\<lparr>pf_block_number := pf_block_number self + 1\<rparr>"
    have refused: "step debug encode_msg env chain spans blk clock self node (grow p span) =
        ((?self, node, [], []), Ok (grow p span))"
      by (rule step_refused [OF Cons.prems(1) Ok out_of_step_refuses [OF Cons.prems(2,3)]])
    have number: "unat (pf_block_number self + 1) = unat (pf_block_number self) + 1"
      using Cons.prems(4) by (subst unat_plus_if_size) (simp add: word_size)
    from Cons.prems(5) obtain ms' es' where
      rest: "run_steps grow debug encode_msg env chain spans blk ?self node (grow p span) inputs = ((self', node', ms', es'), r)"
      and same: "ms = ms'" "es = es'"
      unfolding input by (auto simp: refused split: prod.splits)
    from Cons.prems(2,4) have "out_of_step blk (pf_block_number ?self) (se_flashblocks node)"
      by (auto intro: out_of_step_Suc)
    from Cons.IH [OF Cons.prems(1) this _ _ rest] Cons.prems(3,4) number show ?thesis
      by (auto simp: input same algebra_simps)
  qed (use Cons.prems(5) in \<open>auto simp: input step_def\<close>)
qed

text \<open>
  C26: A job that is out of step publishes nothing. When the node holds another payload whose timestamp
  is not earlier than that of the job (as for a second job of the same slot), every publication of the
  job is refused: the node is unchanged, nothing is sent, no barrier is placed, and no later step
  makes up for it. Still the metric of the job counts every step as a flashblock.
\<close>

theorem refused_job_publishes_nothing:
  assumes "flashblocks_wf (se_flashblocks node)" and "pf_block_number self = 0"
    and "p_payload_id (hd (se_flashblocks node)) \<noteq> bc_payload_id blk"
    and "bc_timestamp blk \<le> b_timestamp (the (p_base (hd (se_flashblocks node))))"
    and "length inputs < 2 ^ 64"
    and "run_job grow debug encode_msg env chain spans blk start_at end_at self node p inputs = ((self', node', ms, es), Ok p')"
  shows "node' = node \<and> es = [] \<and> p' = foldl grow p (map snd inputs) \<and>
    BlocksPerPayloadJob (of_nat (length inputs)) \<in> set ms \<and> BlocksTotal 1 \<notin> set ms"
proof -
  obtain started ms1 where before: "before_job blk start_at self = (started, ms1)" by fastforce
  then have started: "pf_block_number started = 0" "pf_block_base started = Some (job_base blk)"
    and ms1: "BlocksTotal 1 \<notin> set ms1"
    using assms(2) by (auto simp: before_job_def on_job_started_def Let_def split: prod.splits option.splits)
  obtain stepped ms2 where
    run: "run_steps grow debug encode_msg env chain spans blk started node p inputs = ((stepped, node', ms2, es), Ok p')"
    and after: "ms = ms1 @ ms2 @ snd (after_job end_at stepped)"
    using assms(6) by (auto simp: run_job_def before split: prod.splits)
  have "out_of_step blk (pf_block_number started) (se_flashblocks node)"
    using assms(3,4) by (simp add: out_of_step_def)
  from steps_out_of_step [OF assms(1) this started(2) _ run] started(1) assms(5)
  show ?thesis
    using ms1 by (auto simp: after after_job_def on_job_ended_def split: option.splits)
qed

section \<open>The intervals of a job\<close>

text \<open>The time metrics among the metrics, and those of the flashblocks of a job by their instants.\<close>

fun interval_metric :: "metric \<Rightarrow> bool" where
  "interval_metric (IntraBlockInterval _) = True"
| "interval_metric (InterBlockInterval _) = True"
| "interval_metric (InterJobsInterval _) = True"
| "interval_metric (TimeToFirstBlock _) = True"
| "interval_metric (IdleTailTime _) = True"
| "interval_metric _ = False"

fun total_metric :: "metric \<Rightarrow> bool" where
  "total_metric (BlocksTotal _) = True"
| "total_metric _ = False"

definition since :: "(nat \<Rightarrow> metric) \<Rightarrow> nat option \<Rightarrow> nat \<Rightarrow> metric list" where
  "since kind earlier now = (case earlier of None \<Rightarrow> [] | Some t \<Rightarrow> [kind (now - t)])"

fun block_intervals :: "nat \<Rightarrow> nat option \<Rightarrow> nat list \<Rightarrow> metric list" where
  "block_intervals start_at previous [] = []"
| "block_intervals start_at previous (t # ts) = since InterBlockInterval previous t @
     [TimeToFirstBlock (t - start_at)] @ map (\<lambda>(a, b). IntraBlockInterval (b - a)) (zip (t # ts) ts)"

definition last_instant :: "nat option \<Rightarrow> nat list \<Rightarrow> nat option" where
  "last_instant previous ts = (if ts = [] then previous else Some (last ts))"

lemma published_intervals:
  assumes "first_block_at tms \<noteq> None" and "last_block_at tms = Some t"
  shows "snd (run (\<lambda>tms now. on_published_block now tms) tms ts) =
      map (\<lambda>(a, b). IntraBlockInterval (b - a)) (zip (t # ts) ts)"
    and "last_block_at (fst (run (\<lambda>tms now. on_published_block now tms) tms ts)) = Some (last (t # ts))"
  using assms by (induction ts arbitrary: tms t) (simp_all add: on_published_block_def Let_def)

lemma first_published_intervals:
  assumes "first_block_at tms = None" and "job_started tms = Some start_at"
  shows "snd (run (\<lambda>tms now. on_published_block now tms) tms ts) = block_intervals start_at (last_block_at tms) ts"
    and "last_block_at (fst (run (\<lambda>tms now. on_published_block now tms) tms ts)) = last_instant (last_block_at tms) ts"
proof -
  note later = published_intervals [of "fst (on_published_block t tms)" t for t]
  show "snd (run (\<lambda>tms now. on_published_block now tms) tms ts) = block_intervals start_at (last_block_at tms) ts"
    using assms later(1)
    by (cases ts) (auto simp: on_published_block_def Let_def since_def split: option.split)
  show "last_block_at (fst (run (\<lambda>tms now. on_published_block now tms) tms ts)) = last_instant (last_block_at tms) ts"
    using assms later(2)
    by (cases ts) (auto simp: on_published_block_def Let_def last_instant_def)
qed

lemma on_published_block_interval: "filter interval_metric (snd (on_published_block now tms)) = snd (on_published_block now tms)"
  by (simp add: on_published_block_def Let_def split: option.split)

lemma published_no_total: "filter total_metric (snd (on_published_block now tms)) = []"
  by (simp add: on_published_block_def Let_def split: option.split)

lemma step_intervals:
  assumes "step debug encode_msg env chain spans blk clock self node payload = ((self', node', ms, es), r)"
  obtains ts where "ts = [] \<or> ts = [ck_instant clock]"
    "pf_times self' = fst (run (\<lambda>tms now. on_published_block now tms) (pf_times self) ts)"
    "filter interval_metric ms = snd (run (\<lambda>tms now. on_published_block now tms) (pf_times self) ts)"
    "length (filter total_metric ms) = length ts"
proof (cases "ms = []")
  case True
  then have "pf_times self' = pf_times self"
    using assms by (auto simp: step_def capture_payload_metrics_def Let_def split: result.splits prod.splits)
  with True that [of "[]"] show thesis by simp
next
  case False
  then have "\<exists>captured. pf_times self' = fst (on_published_block (ck_instant clock) (pf_times self)) \<and>
      ms = snd (on_published_block (ck_instant clock) (pf_times self)) @ capture_payload_metrics spans captured"
    using assms by (auto simp: step_def Let_def split: result.splits prod.splits)
  then show thesis
    using that [of "[ck_instant clock]"]
    by (auto simp: capture_payload_metrics_def on_published_block_interval published_no_total)
qed

lemma run_steps_intervals:
  assumes "run_steps grow debug encode_msg env chain spans blk self node p inputs = ((self', node', ms, es), r)"
  shows "\<exists>ts. subseq ts (map (\<lambda>i. ck_instant (fst i)) inputs) \<and>
    pf_times self' = fst (run (\<lambda>tms now. on_published_block now tms) (pf_times self) ts) \<and>
    filter interval_metric ms = snd (run (\<lambda>tms now. on_published_block now tms) (pf_times self) ts) \<and>
    length (filter total_metric ms) = length ts"
  using assms
proof (induction inputs arbitrary: self node p ms es)
  case Nil
  then show ?case by (auto intro: exI [of _ "[]"])
next
  case (Cons input inputs)
  obtain clock span where input: "input = (clock, span)" by fastforce
  obtain self1 node1 ms1 es1 r1 where
    step: "step debug encode_msg env chain spans blk clock self node (grow p span) = ((self1, node1, ms1, es1), r1)"
    by (metis prod_cases4 surj_pair)
  let ?run = "run (\<lambda>tms now. on_published_block now tms)"
  from step obtain ts1 where ts1: "ts1 = [] \<or> ts1 = [ck_instant clock]"
    "pf_times self1 = fst (?run (pf_times self) ts1)" "filter interval_metric ms1 = snd (?run (pf_times self) ts1)"
    "length (filter total_metric ms1) = length ts1" by (rule step_intervals)
  show ?case
  proof (cases "\<exists>p1. r1 = Ok p1")
    case True
    then obtain p1 ms2 es2 where
      rest: "run_steps grow debug encode_msg env chain spans blk self1 node1 p1 inputs = ((self', node', ms2, es2), r)"
      and ms: "ms = ms1 @ ms2"
      using Cons.prems by (auto simp: input step split: prod.splits)
    from Cons.IH [OF rest] obtain ts2 where "subseq ts2 (map (\<lambda>i. ck_instant (fst i)) inputs)"
      "pf_times self' = fst (?run (pf_times self1) ts2)" "filter interval_metric ms2 = snd (?run (pf_times self1) ts2)"
      "length (filter total_metric ms2) = length ts2" by blast
    with ts1 show ?thesis
      by (intro exI [of _ "ts1 @ ts2"]) (auto simp: input ms run_append Let_def split: prod.splits)
  next
    case False
    then have "self' = self1" "ms = ms1"
      using Cons.prems by (auto simp: input step split: result.splits)
    with ts1 show ?thesis by (intro exI [of _ ts1]) (auto simp: input)
  qed
qed

text \<open>
  The intervals of a job. Whatever the outcome of the job and of its publications, the recorded
  intervals are: the time since the end of the previous job, the time from the last flashblock of
  an earlier job to the first one of this job, the time from the start of the job to the first
  flashblock, the times between consecutive flashblocks, and the time from the last flashblock to
  the end of the job (of an earlier job, when this one published none).
\<close>

theorem job_intervals:
  assumes "run_job grow debug encode_msg env chain spans blk start_at end_at self node p inputs = ((self', node', ms, es), r)"
    and "first_block_at (pf_times self) = None"
  shows "\<exists>ts. subseq ts (map (\<lambda>i. ck_instant (fst i)) inputs) \<and>
    length ts = length (filter total_metric ms) \<and>
    filter interval_metric ms = since InterJobsInterval (job_ended (pf_times self)) start_at @
      block_intervals start_at (last_block_at (pf_times self)) ts @
      since IdleTailTime (last_instant (last_block_at (pf_times self)) ts) end_at \<and>
    first_block_at (pf_times self') = None \<and> job_ended (pf_times self') = Some end_at"
proof -
  obtain started ms1 where before: "before_job blk start_at self = (started, ms1)" by fastforce
  then have started: "job_started (pf_times started) = Some start_at" "first_block_at (pf_times started) = None"
    "last_block_at (pf_times started) = last_block_at (pf_times self)"
    and ms1: "ms1 = since InterJobsInterval (job_ended (pf_times self)) start_at"
    using assms(2) by (auto simp: before_job_def on_job_started_def since_def Let_def split: prod.splits option.splits)
  obtain stepped ms2 where
    run: "run_steps grow debug encode_msg env chain spans blk started node p inputs = ((stepped, node', ms2, es), r)"
    and after: "self' = fst (after_job end_at stepped)" "ms = ms1 @ ms2 @ snd (after_job end_at stepped)"
    using assms(1) by (auto simp: run_job_def before split: prod.splits)
  from run_steps_intervals [OF run] obtain ts where ts: "subseq ts (map (\<lambda>i. ck_instant (fst i)) inputs)"
    "filter interval_metric ms2 = block_intervals start_at (last_block_at (pf_times self)) ts"
    "last_block_at (pf_times stepped) = last_instant (last_block_at (pf_times self)) ts"
    "length (filter total_metric ms2) = length ts"
    using first_published_intervals [OF started(2,1)] started(3) by auto
  have ended: "filter interval_metric (snd (after_job end_at stepped)) = since IdleTailTime (last_block_at (pf_times stepped)) end_at"
    "filter total_metric (snd (after_job end_at stepped)) = []"
    "first_block_at (pf_times self') = None" "job_ended (pf_times self') = Some end_at"
    by (auto simp: after after_job_def on_job_ended_def since_def split: option.split)
  have "filter interval_metric ms1 = ms1" "filter total_metric ms1 = []"
    by (auto simp: ms1 since_def split: option.split)
  with ts ended show ?thesis by (intro exI [of _ ts]) (simp add: after ms1)
qed

section \<open>A small publisher\<close>

definition publisher_node ::
  "(nat, unit, 'b, nat, nat, nat, unit, unit) node" where
  "publisher_node = state_executor_new default_p2p_state None"

definition example_spans :: "(unit, nat, nat, nat) checkpoint span_ops" where
  "example_spans = \<lparr>so_gas_used = (\<lambda>_. 0), so_blob_gas_used = (\<lambda>_. 0), so_is_bundle = (\<lambda>_. False)\<rparr>"

definition at_instant :: "nat \<Rightarrow> clocks" where
  "at_instant t = \<lparr>ck_metadata = 0, ck_p2p = 0, ck_instant = t\<rparr>"

definition example_job :: "(clocks \<times> (unit, nat, nat, nat) checkpoint list) list" where
  "example_job = [(at_instant 12, [example_cp 0 100]), (at_instant 15, [example_cp 4 21000])]"

definition job_start ::
  "(unit, nat, nat, nat, (nat, unit, 'b, (nat, unit, 'b, nat, nat, nat, unit) executed_block) WorldContext) list_payload"
where
  "job_start = ([], [], None)"

lemma length_example_job [simp]: "length example_job = 2" "example_job \<noteq> []"
  by (simp_all add: example_job_def)

lemma publisher_node_simps [simp]:
  "flashblocks_wf (se_flashblocks publisher_node)" "hd (se_flashblocks publisher_node) = hd default_flashblocks"
  by (simp_all add: publisher_node_def state_executor_new_def default_flashblocks_wf)

lemma default_hd [simp]: "p_payload_id (hd default_flashblocks) = 0" "p_base (hd default_flashblocks) = Some default_base"
  by (simp_all add: default_flashblocks_def)

lemma example_job_payloads:
  "\<exists>bps. job_payloads list_grow True (example_env bal) (list_chain bal) example_block 0 job_start (map snd example_job) = Ok bps \<and>
     bps \<noteq> [] \<and> block_txs (bp_block (last bps)) = [0, 4]"
proof -
  have "\<exists>bps. job_payloads list_grow True (example_env bal) (list_chain bal) example_block 0 job_start (map snd example_job) = Ok bps"
    by (simp add: example_job_def job_start_def example_simps Let_def get_def)
  then obtain bps where run: "job_payloads list_grow True (example_env bal) (list_chain bal) example_block 0 job_start
    (map snd example_job) = Ok bps" ..
  have "bps \<noteq> [] \<and> block_txs (bp_block (last bps)) = [0, 4]"
    using listed_chain.job_payload_txs [OF run]
    by (simp add: example_job_def job_start_def example_cp_def list_chain_def span_transactions_def)
  with run show ?thesis by blast
qed

theorem job_publishes_in_sequence_witness:
  "\<exists>self (node :: (nat, unit, unit, nat, nat, nat, unit, unit) node) ms es p bp.
     run_steps list_grow True (\<lambda>_. []) (example_env ()) (list_chain ()) example_spans example_block
       (fst (before_job example_block 10 publish_flashblock_new)) publisher_node job_start example_job =
         ((self, node, ms, es), Ok p) \<and>
     length (se_flashblocks node) = 2 \<and> se_latest_payload node = Some (bp, 1) \<and> block_txs (bp_block bp) = [0, 4]"
proof -
  from example_job_payloads [of "()"] obtain bps :: "(nat, unit, unit, nat, nat, nat, unit) built_payload list" where
    bps: "job_payloads list_grow True (example_env ()) (list_chain ()) example_block 0 job_start (map snd example_job) = Ok bps"
    "bps \<noteq> []" "block_txs (bp_block (last bps)) = [0, 4]" by (elim exE conjE)
  let ?run = "run_steps list_grow True (\<lambda>_. []) (example_env ()) (list_chain ()) example_spans example_block
    (fst (before_job example_block 10 publish_flashblock_new))
    (publisher_node :: (nat, unit, unit, nat, nat, nat, unit, unit) node) job_start example_job"
  obtain self node ms es r where run: "?run = ((self, node, ms, es), r)" by (metis prod_cases4 surj_pair)
  have "job_outcome (list_chain ()) (example_env ()) example_block (length example_job)
      (job_payloads list_grow True (example_env ()) (list_chain ()) example_block 0 job_start (map snd example_job)) (hd bps) ?run"
    by (rule job_publishes_in_sequence [OF listed_chain.checkpoint_chain_axioms _ _ _ prod.collapse [symmetric]])
      (simp_all add: example_block_def bc_payload_id_def default_base_def publish_flashblock_new_def example_job_def)
  then obtain p where ok: "r = Ok p" "unat (pf_block_number self) = 2"
    and step: "in_step (list_chain ()) (example_env ()) example_block self node p (last bps)"
    using bps(2) by (auto simp: run bps(1) job_outcome_def simp del: split_paired_All)
  have "pf_block_number self = 2" using ok(2) by (simp add: word_unat_eq_iff)
  with step ok(2) have "length (se_flashblocks node) = 2" "se_latest_payload node = Some (last bps, 1)"
    by (simp_all add: in_step_def)
  with run ok(1) bps(3) show ?thesis by blast
qed

theorem refused_job_publishes_nothing_witness:
  "let node = (publisher_node :: (nat, unit, unit, nat, nat, nat, unit, unit) node)
         \<lparr>se_flashblocks := [\<lparr>p_payload_id = 8, p_index = 0, p_diff = default_delta, p_metadata = default_metadata,
           p_base = Some (default_base\<lparr>b_timestamp := 5\<rparr>)\<rparr>]\<rparr>
   in \<exists>self ms p. run_job list_grow True (\<lambda>_. []) (example_env ()) (list_chain ()) example_spans example_block 10 20
       publish_flashblock_new node job_start example_job = ((self, node, ms, []), Ok p) \<and>
     BlocksPerPayloadJob 2 \<in> set ms"
proof -
  let ?fbs = "[\<lparr>p_payload_id = 8, p_index = 0, p_diff = default_delta, p_metadata = default_metadata,
      p_base = Some (default_base\<lparr>b_timestamp := 5\<rparr>)\<rparr>] :: (unit, unit) flashblocks"
  let ?node = "(publisher_node :: (nat, unit, unit, nat, nat, nat, unit, unit) node)\<lparr>se_flashblocks := ?fbs\<rparr>"
  let ?job = "run_job list_grow True (\<lambda>_. []) (example_env ()) (list_chain ()) example_spans example_block 10 20
    publish_flashblock_new ?node job_start example_job"
  obtain started ms1 where before: "before_job example_block 10 publish_flashblock_new = (started, ms1)" by fastforce
  let ?p = "list_grow job_start [example_cp 0 100]" and ?q = "list_grow (list_grow job_start [example_cp 0 100]) [example_cp 4 21000]"
  have wf: "flashblocks_wf (se_flashblocks ?node)" by (simp add: flashblocks_wf_def)
  have refused: "step True (\<lambda>_. []) (example_env ()) (list_chain ()) example_spans example_block clock self ?node payload =
      ((self\<lparr>pf_block_number := pf_block_number self + 1\<rparr>, ?node, [], []), Ok payload)"
    if "pf_block_base self = Some (job_base example_block)"
      and "\<exists>bp. build_op_built_payload True (example_env ()) (list_chain ()) example_block (pf_block_number self) payload = Ok bp"
    for clock self payload
  proof -
    have "out_of_step example_block (pf_block_number self) ?fbs"
      by (simp add: out_of_step_def example_block_def bc_payload_id_def)
    note out = out_of_step_refuses [OF this that(1)]
    from that(2) obtain bp where build: "build_op_built_payload True (example_env ()) (list_chain ()) example_block
      (pf_block_number self) payload = Ok bp" ..
    show ?thesis by (rule step_refused [OF wf build]) (use out in simp)
  qed
  from before have started: "pf_block_base started = Some (job_base example_block)" "pf_block_number started = 0"
    by (auto simp: before_job_def on_job_started_def publish_flashblock_new_def default_times_def Let_def)
  have "\<exists>bp. build_op_built_payload True (example_env ()) (list_chain ()) example_block 0 ?p = Ok bp"
    and "\<exists>bp. build_op_built_payload True (example_env ()) (list_chain ()) example_block 1 ?q = Ok bp"
    by (simp_all add: job_start_def example_simps Let_def get_def)
  then have "\<exists>st p. run_steps list_grow True (\<lambda>_. []) (example_env ()) (list_chain ()) example_spans example_block
      started ?node job_start example_job = (st, Ok p)"
    using started by (simp add: refused example_job_def del: split_paired_Ex)
  then obtain stepped node2 ms2 es2 p2 where "run_steps list_grow True (\<lambda>_. []) (example_env ()) (list_chain ()) example_spans
      example_block started ?node job_start example_job = ((stepped, node2, ms2, es2), Ok p2)"
    by (metis prod_cases4)
  from run_job_eq [OF before this] obtain self node ms es p where run: "?job = ((self, node, ms, es), Ok p)" by blast
  have "node = ?node \<and> es = [] \<and> p = foldl list_grow job_start (map snd example_job) \<and>
      BlocksPerPayloadJob (of_nat (length example_job)) \<in> set ms \<and> BlocksTotal 1 \<notin> set ms"
    by (rule refused_job_publishes_nothing [OF wf _ _ _ _ run])
      (simp_all add: publish_flashblock_new_def example_block_def bc_payload_id_def example_job_def)
  then have "node = ?node" "es = []" "BlocksPerPayloadJob 2 \<in> set ms" by simp_all
  with run show ?thesis unfolding Let_def by blast
qed

theorem job_intervals_witness:
  "\<exists>self (node :: (nat, unit, unit, nat, nat, nat, unit, unit) node) ms es r ts.
     run_job list_grow True (\<lambda>_. []) (example_env ()) (list_chain ()) example_spans example_block 10 20
       publish_flashblock_new publisher_node job_start example_job = ((self, node, ms, es), r) \<and>
     subseq ts [12, 15] \<and> filter interval_metric ms = block_intervals 10 None ts @ since IdleTailTime (last_instant None ts) 20"
proof -
  let ?job = "run_job list_grow True (\<lambda>_. []) (example_env ()) (list_chain ()) example_spans example_block 10 20
    publish_flashblock_new (publisher_node :: (nat, unit, unit, nat, nat, nat, unit, unit) node) job_start example_job"
  obtain self node ms es r where run: "?job = ((self, node, ms, es), r)" by (metis prod_cases4 surj_pair)
  show ?thesis
    using job_intervals [OF run] run
    by (auto simp: publish_flashblock_new_def default_times_def example_job_def at_instant_def since_def)
qed

end
