(* ===== verification/Network.thy ===== *)
theory Network
  imports Connection "HOL-Library.Sublist"
begin

text \<open>
  A network of nodes: every node has the shared state of \<^verbatim>\<open>src/flashblocks/p2p.rs\<close>, one connection of
  \<^verbatim>\<open>src/flashblocks/connection.rs\<close> per peer with the queue it subscribed to, and the stream of its
  subscribers. One node publishes the flashblocks of a payload; the others relay what they receive.

  The steps are those of the code: a publication, the first half of an iteration of \<open>poll_next\<close> (an
  item of the queue is sent or dropped) and its second half (a message of the peer is handled). The
  nodes and connections step in any order, so that the relation has every interleaving of their tasks.
\<close>

section \<open>State and steps\<close>

record ('n, 'w, 'b) network =
  nw_left :: "('w, 'b) flashblock list"
  nw_state :: "'n \<Rightarrow> ('w, 'b) FlashblocksP2PState"
  nw_conn :: "'n \<Rightarrow> 'n \<Rightarrow> FlashblocksConnection"
  nw_rx :: "'n \<Rightarrow> 'n \<Rightarrow> peer_queue"
  nw_wire :: "'n \<Rightarrow> 'n \<Rightarrow> bytes list"
  nw_stream :: "'n \<Rightarrow> ('w, 'b) flashblock list"

text \<open>A value for one pair of nodes. The connection at \<open>a\<close> with peer \<open>b\<close> is at \<open>a b\<close>, and so are its
  queue and the bytes under way from \<open>a\<close> to \<open>b\<close>.\<close>

definition at_pair :: "('n \<Rightarrow> 'n \<Rightarrow> 'a) \<Rightarrow> 'n \<Rightarrow> 'n \<Rightarrow> 'a \<Rightarrow> 'n \<Rightarrow> 'n \<Rightarrow> 'a" where
  "at_pair f a b v = f(a := (f a)(b := v))"

definition start_network :: "('w, 'b) flashblock list \<Rightarrow> ('n, 'w, 'b) network" where
  "start_network fbs = \<lparr>nw_left = fbs, nw_state = (\<lambda>_. default_p2p_state), nw_conn = (\<lambda>_ _. new_connection),
     nw_rx = (\<lambda>_ _. []), nw_wire = (\<lambda>_ _. []), nw_stream = (\<lambda>_. [])\<rparr>"

text \<open>What a publication at a node does: its state, the queues of its connections and its stream.\<close>

definition spread ::
  "(peer_queue \<Rightarrow> PeerMsg list \<Rightarrow> peer_queue) \<Rightarrow> ('n \<Rightarrow> 'n \<Rightarrow> bool) \<Rightarrow> 'n \<Rightarrow> ('w, 'b) FlashblocksP2PState \<Rightarrow> ('w, 'b) effect list \<Rightarrow>
     ('n, 'w, 'b) network \<Rightarrow> ('n, 'w, 'b) network" where
  "spread deliver links a st es nw = nw\<lparr>nw_state := (nw_state nw)(a := st),
     nw_rx := (\<lambda>x y. if x = a \<and> links a y then deliver (nw_rx nw x y) (sent_to_peers es) else nw_rx nw x y),
     nw_stream := (nw_stream nw)(a := nw_stream nw a @ streamed es)\<rparr>"

inductive net_step ::
  "(peer_queue \<Rightarrow> PeerMsg list \<Rightarrow> peer_queue) \<Rightarrow> (FlashblockMetadata, 'w, 'b) FlashblocksP2PMsg codec \<Rightarrow> ('n \<Rightarrow> 'n \<Rightarrow> bool) \<Rightarrow> 'n \<Rightarrow>
     ('n, 'w, 'b) network \<Rightarrow> ('n, 'w, 'b) network \<Rightarrow> bool"
  for deliver cod links origin where
  publishes: "nw_left nw = fb # rest \<Longrightarrow> publish (encode cod) now (nw_state nw origin) fb = (st, es) \<Longrightarrow>
    net_step deliver cod links origin nw (spread deliver links origin st es (nw\<lparr>nw_left := rest\<rparr>))"
| takes: "links a b \<Longrightarrow> take_peer_msg (nw_conn nw a b) (nw_rx nw a b) = (out, rx) \<Longrightarrow>
    net_step deliver cod links origin nw (nw\<lparr>nw_rx := at_pair (nw_rx nw) a b rx,
      nw_wire := at_pair (nw_wire nw) a b
        (nw_wire nw a b @ (case out of Some bytes \<Rightarrow> [bytes] | None \<Rightarrow> []))\<rparr>)"
| handles: "links a b \<Longrightarrow> nw_wire nw a b = buf # wire \<Longrightarrow> decode cod buf = Ok (FlashblocksPayloadMsg fb, extra) \<Longrightarrow>
    handle_flashblocks_payload_v1 False (encode cod) now (nw_conn nw b a) (nw_state nw b) fb =
      (Ok (conn, st, es) :: (unit, _) result) \<Longrightarrow>
    net_step deliver cod links origin nw (spread deliver links b st (published es)
      (nw\<lparr>nw_wire := at_pair (nw_wire nw) a b wire, nw_conn := at_pair (nw_conn nw) b a conn\<rparr>))"

inductive_cases net_step_elim: "net_step deliver cod links origin nw nw'"

section \<open>What holds in every reachable network\<close>

text \<open>The channels of the broadcast: up to their capacity, what is sent is in the queue of every receiver.\<close>

definition keeps_up :: "(peer_queue \<Rightarrow> PeerMsg list \<Rightarrow> peer_queue) \<Rightarrow> bool" where
  "keeps_up deliver \<longleftrightarrow>
     (\<forall>rx ms. length rx + length ms \<le> BROADCAST_BUFFER_CAPACITY \<longrightarrow> deliver rx ms = append_msgs rx ms)"

text \<open>The flashblocks of a payload that can be published: a valid collection whose messages fit a frame, no more than
  the channels hold.\<close>

definition publishable ::
  "(FlashblockMetadata, 'w, 'b) FlashblocksP2PMsg codec \<Rightarrow> ((FlashblockMetadata, 'w, 'b) FlashblocksP2PMsg \<Rightarrow> bool) \<Rightarrow>
     ('w, 'b) flashblock list \<Rightarrow> bool" where
  "publishable cod valid fbs \<longleftrightarrow> flashblocks_wf fbs \<and> length fbs \<le> BROADCAST_BUFFER_CAPACITY \<and>
     (\<forall>fb \<in> set fbs. valid (FlashblocksPayloadMsg fb) \<and> length (encode cod (FlashblocksPayloadMsg fb)) \<le> MAX_FRAME)"

abbreviation idx :: "('w, 'b) flashblock \<Rightarrow> nat" where
  "idx fb \<equiv> unat (p_index fb)"

definition peer_msg :: "((FlashblockMetadata, 'w, 'b) FlashblocksP2PMsg \<Rightarrow> bytes) \<Rightarrow> ('w, 'b) flashblock \<Rightarrow> PeerMsg" where
  "peer_msg enc fb = PeerFlashblocksPayload (p_payload_id fb) (idx fb) (enc (FlashblocksPayloadMsg fb))"

definition has :: "('n, 'w, 'b) network \<Rightarrow> 'n \<Rightarrow> ('w, 'b) flashblock \<Rightarrow> bool" where
  "has nw a fb \<longleftrightarrow> cached (nw_state nw a) (idx fb) = Some fb"

definition received :: "('n, 'w, 'b) network \<Rightarrow> 'n \<Rightarrow> 'n \<Rightarrow> ('w, 'b) flashblock \<Rightarrow> bool" where
  "received nw a b fb \<longleftrightarrow> idx fb \<in> received_from (nw_conn nw a b) (p_payload_id fb)"

lemma has_update [simp]:
  "has (nw\<lparr>nw_left := l\<rparr>) a fb = has nw a fb" "has (nw\<lparr>nw_rx := rx\<rparr>) a fb = has nw a fb"
  "has (nw\<lparr>nw_wire := w\<rparr>) a fb = has nw a fb" "has (nw\<lparr>nw_conn := c\<rparr>) a fb = has nw a fb"
  by (simp_all add: has_def)

lemma received_update [simp]:
  "received (nw\<lparr>nw_left := l\<rparr>) a b fb = received nw a b fb" "received (nw\<lparr>nw_rx := rx\<rparr>) a b fb = received nw a b fb"
  "received (nw\<lparr>nw_wire := w\<rparr>) a b fb = received nw a b fb"
  by (simp_all add: received_def)

text \<open>A state that holds only flashblocks of the payload.\<close>

definition holds_only :: "('w, 'b) flashblock list \<Rightarrow> ('w, 'b) FlashblocksP2PState \<Rightarrow> bool" where
  "holds_only fbs st \<longleftrightarrow> settled st \<and> (\<forall>i fb. cached st i = Some fb \<longrightarrow> fb \<in> set fbs)"

definition net_inv ::
  "((FlashblockMetadata, 'w, 'b) FlashblocksP2PMsg \<Rightarrow> bytes) \<Rightarrow> ('n \<Rightarrow> 'n \<Rightarrow> bool) \<Rightarrow> 'n \<Rightarrow>
     ('w, 'b) flashblock list \<Rightarrow> ('n, 'w, 'b) network \<Rightarrow> bool" where
  "net_inv enc links origin fbs nw \<longleftrightarrow>
     (\<forall>a. holds_only fbs (nw_state nw a) \<and> nw_stream nw a = emitted (nw_state nw a)) \<and>
     (\<forall>a b. \<forall>m \<in> set (nw_rx nw a b). \<exists>fb \<in> set fbs. m = Ok (peer_msg enc fb) \<and> has nw a fb) \<and>
     (\<forall>a b. \<forall>buf \<in> set (nw_wire nw a b). \<exists>fb \<in> set fbs. buf = enc (FlashblocksPayloadMsg fb) \<and> has nw a fb) \<and>
     (\<forall>a b. \<forall>fb \<in> set fbs. received nw a b fb \<longrightarrow> has nw a fb \<and> has nw b fb) \<and>
     (\<forall>a b. \<forall>fb \<in> set fbs. links a b \<longrightarrow> has nw a fb \<longrightarrow> Ok (peer_msg enc fb) \<in> set (nw_rx nw a b) \<or>
        enc (FlashblocksPayloadMsg fb) \<in> set (nw_wire nw a b) \<or> has nw b fb) \<and>
     (\<exists>before. fbs = before @ nw_left nw \<and> (\<forall>fb \<in> set before. has nw origin fb))"

lemma net_invD:
  assumes "net_inv enc links origin fbs nw"
  shows "holds_only fbs (nw_state nw a)" and "nw_stream nw a = emitted (nw_state nw a)"
    and "m \<in> set (nw_rx nw a b) \<Longrightarrow> \<exists>fb \<in> set fbs. m = Ok (peer_msg enc fb) \<and> has nw a fb"
    and "buf \<in> set (nw_wire nw a b) \<Longrightarrow> \<exists>fb \<in> set fbs. buf = enc (FlashblocksPayloadMsg fb) \<and> has nw a fb"
    and "fb \<in> set fbs \<Longrightarrow> received nw a b fb \<Longrightarrow> has nw a fb \<and> has nw b fb"
    and "fb \<in> set fbs \<Longrightarrow> links a b \<Longrightarrow> has nw a fb \<Longrightarrow> Ok (peer_msg enc fb) \<in> set (nw_rx nw a b) \<or>
        enc (FlashblocksPayloadMsg fb) \<in> set (nw_wire nw a b) \<or> has nw b fb"
    and "\<exists>before. fbs = before @ nw_left nw \<and> (\<forall>fb \<in> set before. has nw origin fb)"
  using assms by (simp_all add: net_inv_def)

lemma net_invI:
  assumes "\<And>a. holds_only fbs (nw_state nw a)" and "\<And>a. nw_stream nw a = emitted (nw_state nw a)"
    and "\<And>a b m. m \<in> set (nw_rx nw a b) \<Longrightarrow> \<exists>fb \<in> set fbs. m = Ok (peer_msg enc fb) \<and> has nw a fb"
    and "\<And>a b buf. buf \<in> set (nw_wire nw a b) \<Longrightarrow> \<exists>fb \<in> set fbs. buf = enc (FlashblocksPayloadMsg fb) \<and> has nw a fb"
    and "\<And>a b fb. fb \<in> set fbs \<Longrightarrow> received nw a b fb \<Longrightarrow> has nw a fb \<and> has nw b fb"
    and "\<And>a b fb. fb \<in> set fbs \<Longrightarrow> links a b \<Longrightarrow> has nw a fb \<Longrightarrow> Ok (peer_msg enc fb) \<in> set (nw_rx nw a b) \<or>
        enc (FlashblocksPayloadMsg fb) \<in> set (nw_wire nw a b) \<or> has nw b fb"
    and "\<exists>before. fbs = before @ nw_left nw \<and> (\<forall>fb \<in> set before. has nw origin fb)"
  shows "net_inv enc links origin fbs nw"
  using assms by (simp add: net_inv_def)

lemma publishable_facts:
  assumes "publishable cod valid fbs"
  shows "fb \<in> set fbs \<Longrightarrow> idx fb \<le> MAX_FLASHBLOCK_INDEX"
    and "fb \<in> set fbs \<Longrightarrow> fits_frame (encode cod) (now, fb)" and "fb \<in> set fbs \<Longrightarrow> valid (FlashblocksPayloadMsg fb)"
    and "fb \<in> set fbs \<Longrightarrow> fb' \<in> set fbs \<Longrightarrow> p_payload_id fb = p_payload_id fb'"
    and "fb \<in> set fbs \<Longrightarrow> fb' \<in> set fbs \<Longrightarrow> idx fb = idx fb' \<Longrightarrow> fb = fb'"
proof -
  have wf: "flashblocks_wf fbs" and len: "length fbs \<le> BROADCAST_BUFFER_CAPACITY"
    using assms by (simp_all add: publishable_def)
  have at: "\<exists>i < length fbs. fbs ! i = fb \<and> idx fb = i" if "fb \<in> set fbs" for fb
    using that flashblocks_wfD(4) [OF wf] len
    by (fastforce simp: in_set_conv_nth unat_of_nat BROADCAST_BUFFER_CAPACITY_def)
  show "fb \<in> set fbs \<Longrightarrow> idx fb \<le> MAX_FLASHBLOCK_INDEX"
    using at [of fb] len by (auto simp: BROADCAST_BUFFER_CAPACITY_def MAX_FLASHBLOCK_INDEX_def)
  show "fb \<in> set fbs \<Longrightarrow> fb' \<in> set fbs \<Longrightarrow> idx fb = idx fb' \<Longrightarrow> fb = fb'" using at by metis
  show "fb \<in> set fbs \<Longrightarrow> fb' \<in> set fbs \<Longrightarrow> p_payload_id fb = p_payload_id fb'"
    using flashblocks_wfD(3) [OF wf] by metis
  show "fb \<in> set fbs \<Longrightarrow> fits_frame (encode cod) (now, fb)" "fb \<in> set fbs \<Longrightarrow> valid (FlashblocksPayloadMsg fb)"
    using assms by (simp_all add: publishable_def fits_frame_def)
qed

text \<open>The copies of a flashblock under way from \<open>a\<close> to \<open>b\<close>, with the one that \<open>b\<close> has marked as received.\<close>

definition copies ::
  "((FlashblockMetadata, 'w, 'b) FlashblocksP2PMsg \<Rightarrow> bytes) \<Rightarrow> ('n, 'w, 'b) network \<Rightarrow> 'n \<Rightarrow> 'n \<Rightarrow>
     ('w, 'b) flashblock \<Rightarrow> nat" where
  "copies enc nw a b fb = count_list (nw_rx nw a b) (Ok (peer_msg enc fb)) +
     count_list (nw_wire nw a b) (enc (FlashblocksPayloadMsg fb)) + of_bool (received nw b a fb)"

definition once_inv ::
  "((FlashblockMetadata, 'w, 'b) FlashblocksP2PMsg \<Rightarrow> bytes) \<Rightarrow> ('w, 'b) flashblock list \<Rightarrow> ('n, 'w, 'b) network \<Rightarrow> bool" where
  "once_inv enc fbs nw \<longleftrightarrow> (\<forall>a b. \<forall>fb \<in> set fbs. copies enc nw a b fb \<le> of_bool (has nw a fb))"

lemma peer_msg_inj:
  assumes "publishable cod valid fbs" and "fb \<in> set fbs" and "g \<in> set fbs"
  shows "peer_msg enc fb = peer_msg enc g \<longleftrightarrow> fb = g"
  using publishable_facts(5) [OF assms] by (auto simp: peer_msg_def)

lemma encode_msg_inj:
  assumes "publishable cod valid fbs" and "rlp_codec cod valid" and "fb \<in> set fbs" and "g \<in> set fbs"
  shows "encode cod (FlashblocksPayloadMsg fb) = encode cod (FlashblocksPayloadMsg g) \<longleftrightarrow> fb = g"
  using rlp_codec.encode_inj [OF assms(2)] publishable_facts(3) [OF assms(1)] assms(3,4)
  by (metis FlashblocksP2PMsg.inject)

text \<open>Publishing a flashblock of the payload at a node that holds only such.\<close>

lemma publish_held:
  assumes "publishable cod valid fbs" and "fb \<in> set fbs" and "holds_only fbs st"
    and "publish (encode cod) now st fb = (st', es)"
  shows "holds_only fbs st'" and "cached st' = (cached st)(idx fb \<mapsto> fb)"
    and "emitted st' = emitted st @ streamed es"
    and "sent_to_peers es = (if cached st (idx fb) = Some fb then [] else [peer_msg (encode cod) fb])"
proof -
  note J = publishable_facts [OF assms(1)]
  have settled: "settled st" and wf: "buffer_wf st" using assms(3) by (simp_all add: holds_only_def settled_def)
  have held: "cached st i = Some g \<longrightarrow> g \<in> set fbs \<and> idx g = i \<and> p_payload_id g = s_payload_id st" for i g
    using assms(3) wf by (auto simp: holds_only_def buffer_wf_def)
  have track: "cached (track_payload st fb) = cached st"
  proof (cases "p_payload_id fb = s_payload_id st")
    case False
    have "cached st i = None" for i
      using held [of i] J(4) [OF assms(2)] False by (metis not_Some_eq)
    then show ?thesis by (simp add: fun_eq_iff cached_track)
  qed (simp add: track_same)
  have same: "g = fb" if "cached st (idx fb) = Some g" for g
    using held [of "idx fb" g] that J(5) assms(2) by metis
  have em_track: "emitted (track_payload st fb) = emitted st"
  proof (cases "p_payload_id fb = s_payload_id st")
    case False
    have "cached st i = None" for i
      using held [of i] J(4) [OF assms(2)] False by (metis not_Some_eq)
    then have "s_flashblock_index st = 0" using wf by (auto simp: buffer_wf_def)
    then show ?thesis using False by (simp add: track_payload_def emitted_def)
  qed (simp add: track_same)
  show em: "emitted st' = emitted st @ streamed es"
    using publish_streams [OF wf, of "encode cod" now fb] assms(4) em_track by simp
  have main: "settled st' \<and> cached st' = (cached st)(idx fb \<mapsto> fb) \<and>
      sent_to_peers es = (if cached st (idx fb) = Some fb then [] else [peer_msg (encode cod) fb])"
  proof (cases "cached st (idx fb)")
    case None
    then have new: "cached (track_payload st fb) (idx fb) = None" by (simp add: track)
    from publish_accepted [OF settled J(2) [OF assms(2)] J(1) [OF assms(2)] new, of now] assms(4)
    have "settled st'" "cached st' = (cached st)(idx fb \<mapsto> fb)" by (simp_all add: track)
    moreover have "sent_to_peers es = [peer_msg (encode cod) fb]"
      using sent_publish [of "encode cod" now st fb] assms(4) new J(1,2) [OF assms(2)] by (simp add: peer_msg_def)
    ultimately show ?thesis using None by simp
  next
    case (Some g)
    then have "publish (encode cod) now st fb = (track_payload st fb, [])" by (intro publish_ignored) (simp add: track)
    with Some same assms(4) settled_track [OF settled] show ?thesis by (auto simp: track)
  qed
  then show "cached st' = (cached st)(idx fb \<mapsto> fb)"
    "sent_to_peers es = (if cached st (idx fb) = Some fb then [] else [peer_msg (encode cod) fb])" by simp_all
  show "holds_only fbs st'" using main assms(2,3) by (auto simp: holds_only_def)
qed

text \<open>A publication at a node keeps the invariant, with the flashblock held by it afterwards.\<close>

lemma spread_simps [simp]:
  "nw_left (spread deliver links a st es nw) = nw_left nw" "nw_conn (spread deliver links a st es nw) = nw_conn nw"
  "nw_wire (spread deliver links a st es nw) = nw_wire nw" "nw_state (spread deliver links a st es nw) = (nw_state nw)(a := st)"
  by (simp_all add: spread_def)

lemma has_spread:
  assumes "cached st = (cached (nw_state nw a))(idx fb \<mapsto> fb)"
    and "\<And>g. g \<in> set fbs \<Longrightarrow> idx g = idx fb \<Longrightarrow> g = fb" and "g \<in> set fbs"
  shows "has (spread deliver links a st es nw) x g \<longleftrightarrow> has nw x g \<or> x = a \<and> g = fb"
  using assms by (auto simp: has_def)

text \<open>A queue holds each flashblock of its node at most once, so that the capacity of its channel suffices.\<close>

lemma queue_bound:
  assumes "publishable cod valid fbs" and "net_inv (encode cod) links origin fbs nw" and "once_inv (encode cod) fbs nw"
  shows "length (nw_rx nw a b) \<le> card {fb \<in> set fbs. has nw a fb}"
proof -
  let ?msg = "\<lambda>fb. Ok (peer_msg (encode cod) fb) :: (unit, PeerMsg) result"
  have elem: "\<exists>fb \<in> set fbs. m = ?msg fb \<and> has nw a fb" if "m \<in> set (nw_rx nw a b)" for m
    using net_invD(3) [OF assms(2) that] .
  have "count_list (nw_rx nw a b) m \<le> 1" if m: "m \<in> set (nw_rx nw a b)" for m
  proof -
    obtain fb where fb: "fb \<in> set fbs" "m = ?msg fb" using elem [OF m] by blast
    then have "copies (encode cod) nw a b fb \<le> 1"
      using assms(3) unfolding once_inv_def by (metis (full_types) of_bool_less_eq_one order_trans)
    with fb(2) show ?thesis by (simp add: copies_def)
  qed
  then have "distinct (nw_rx nw a b)"
    unfolding distinct_count_atmost_1 count_mset
    by (metis count_list_0_iff le_antisym less_one linorder_not_less)
  then have "length (nw_rx nw a b) = card (set (nw_rx nw a b))" by (simp add: distinct_card)
  also have "\<dots> \<le> card (?msg ` {fb \<in> set fbs. has nw a fb})" by (rule card_mono) (use elem in auto)
  also have "\<dots> \<le> card {fb \<in> set fbs. has nw a fb}" by (rule card_image_le) simp
  finally show ?thesis .
qed

lemma spread_rx:
  assumes "publishable cod valid fbs" and "net_inv (encode cod) links origin fbs nw" and "fb \<in> set fbs"
    and "publish (encode cod) now (nw_state nw a) fb = (st, es)"
    and "keeps_up deliver" and "once_inv (encode cod) fbs nw"
  shows "nw_rx (spread deliver links a st es nw) x y = nw_rx nw x y @
    (if x = a \<and> links a y \<and> \<not> has nw a fb then [Ok (peer_msg (encode cod) fb)] else [])"
proof -
  have sent: "sent_to_peers es = (if has nw a fb then [] else [peer_msg (encode cod) fb])"
    using publish_held(4) [OF assms(1,3) net_invD(1) [OF assms(2)] assms(4)] by (simp add: has_def)
  have "length (nw_rx nw a y) + length (sent_to_peers es) \<le> card (set fbs)"
  proof -
    have "{g \<in> set fbs. has nw a g} \<subset> set fbs" if "\<not> has nw a fb" using that assms(3) by blast
    then have "\<not> has nw a fb \<Longrightarrow> card {g \<in> set fbs. has nw a g} < card (set fbs)" by (simp add: psubset_card_mono)
    moreover have "card {g \<in> set fbs. has nw a g} \<le> card (set fbs)" by (rule card_mono) auto
    ultimately show ?thesis using queue_bound [OF assms(1,2,6), of a y]
      by (cases "has nw a fb") (simp_all add: sent)
  qed
  also have "\<dots> \<le> BROADCAST_BUFFER_CAPACITY"
    using assms(1) card_length [of fbs] unfolding publishable_def by linarith
  finally have "deliver (nw_rx nw a y) (sent_to_peers es) = append_msgs (nw_rx nw a y) (sent_to_peers es)"
    using assms(5) by (simp add: keeps_up_def)
  then show ?thesis by (auto simp: spread_def append_msgs_def sent)
qed

lemma spread_keeps:
  assumes "publishable cod valid fbs" and "net_inv (encode cod) links origin fbs nw" and "fb \<in> set fbs"
    and "publish (encode cod) now (nw_state nw a) fb = (st, es)"
    and "keeps_up deliver" and "once_inv (encode cod) fbs nw"
  shows "net_inv (encode cod) links origin fbs (spread deliver links a st es nw)"
    and "has (spread deliver links a st es nw) a fb" and "has nw x g \<Longrightarrow> g \<in> set fbs \<Longrightarrow> has (spread deliver links a st es nw) x g"
proof -
  let ?nw = "spread deliver links a st es nw"
  note J = publishable_facts [OF assms(1)]
  have held: "holds_only fbs (nw_state nw a)" and stream: "nw_stream nw a = emitted (nw_state nw a)"
    using assms(2) by (simp_all add: net_inv_def)
  note pub = publish_held [OF assms(1,3) held assms(4)]
  have has: "has ?nw x g \<longleftrightarrow> has nw x g \<or> x = a \<and> g = fb" if "g \<in> set fbs" for x g
    by (rule has_spread [OF pub(2) _ that]) (use J(5) assms(3) in blast)
  show "has ?nw a fb" "has nw x g \<Longrightarrow> g \<in> set fbs \<Longrightarrow> has ?nw x g" using has assms(3) by simp_all
  note rx = spread_rx [OF assms]
  have received: "received ?nw x y g = received nw x y g" for x y g by (simp add: received_def)
  have streams: "nw_stream ?nw x = (if x = a then emitted st else nw_stream nw x)" for x
    using pub(3) stream by (simp add: spread_def)
  show "net_inv (encode cod) links origin fbs ?nw"
  proof (rule net_invI)
    note inv = net_invD [OF assms(2)]
    show "holds_only fbs (nw_state ?nw x)" for x using inv(1) pub(1) by simp
    show "nw_stream ?nw x = emitted (nw_state ?nw x)" for x using inv(2) by (simp add: streams)
    show "\<exists>g \<in> set fbs. m = Ok (peer_msg (encode cod) g) \<and> has ?nw x g" if "m \<in> set (nw_rx ?nw x y)" for x y m
    proof (cases "m \<in> set (nw_rx nw x y)")
      case True
      with inv(3) [of m x y] has show ?thesis by blast
    next
      case False
      with that has assms(3) show ?thesis by (auto simp: rx split: if_splits)
    qed
    show "\<exists>g \<in> set fbs. buf = encode cod (FlashblocksPayloadMsg g) \<and> has ?nw x g" if "buf \<in> set (nw_wire ?nw x y)" for x y buf
      using inv(4) [of buf x y] that has by auto
    show "has ?nw x g \<and> has ?nw y g" if "g \<in> set fbs" "received ?nw x y g" for x y g
      using inv(5) [of g x y] that has by (simp add: received)
    show "Ok (peer_msg (encode cod) g) \<in> set (nw_rx ?nw x y) \<or> encode cod (FlashblocksPayloadMsg g) \<in> set (nw_wire ?nw x y) \<or> has ?nw y g"
      if "g \<in> set fbs" "links x y" "has ?nw x g" for x y g
    proof (cases "has nw x g")
      case True
      with inv(6) [of g x y] that has show ?thesis by (auto simp: rx)
    next
      case False
      with that has show ?thesis by (auto simp: rx)
    qed
    show "\<exists>before. fbs = before @ nw_left ?nw \<and> (\<forall>g \<in> set before. has ?nw origin g)"
      using inv(7) has by (metis UnCI set_append spread_simps(1))
  qed
qed

text \<open>Taking bytes that the peer already has off the wire, and marking a flashblock as received.\<close>

lemma at_pair_apply: "at_pair f a b v x y = (if x = a \<and> y = b then v else f x y)"
  by (simp add: at_pair_def)

lemma consumed_keeps:
  assumes "publishable cod valid fbs" and "rlp_codec cod valid" and "net_inv (encode cod) links origin fbs nw"
    and "fb \<in> set fbs" and "has nw a fb" and "has nw b fb"
    and "nw_wire nw a b = encode cod (FlashblocksPayloadMsg fb) # wire"
    and "received_from conn (p_payload_id fb) \<subseteq> insert (idx fb) (received_from (nw_conn nw b a) (p_payload_id fb))"
  shows "net_inv (encode cod) links origin fbs
    (nw\<lparr>nw_wire := at_pair (nw_wire nw) a b wire, nw_conn := at_pair (nw_conn nw) b a conn\<rparr>)" (is "net_inv _ _ _ _ ?nw")
proof (rule net_invI)
  note J = publishable_facts [OF assms(1)] and inv = net_invD [OF assms(3)]
  show "holds_only fbs (nw_state ?nw x)" "nw_stream ?nw x = emitted (nw_state ?nw x)" for x using inv(1,2) by simp_all
  show "\<exists>g \<in> set fbs. m = Ok (peer_msg (encode cod) g) \<and> has ?nw x g" if "m \<in> set (nw_rx ?nw x y)" for x y m
    using inv(3) [of m x y] that by simp
  show "\<exists>g \<in> set fbs. buf = encode cod (FlashblocksPayloadMsg g) \<and> has ?nw x g" if "buf \<in> set (nw_wire ?nw x y)" for x y buf
    using inv(4) [of buf x y] that assms(7) by (auto simp: at_pair_apply split: if_splits)
  show "has ?nw x g \<and> has ?nw y g" if "g \<in> set fbs" "received ?nw x y g" for x y g
  proof (cases "x = b \<and> y = a \<and> g = fb")
    case True
    with assms(5,6) show ?thesis by simp
  next
    case False
    have "received nw x y g"
      using that False assms(8) J(4,5) [OF that(1) assms(4)]
      by (auto simp: received_def at_pair_apply split: if_splits)
    with inv(5) that(1) show ?thesis by simp
  qed
  show "Ok (peer_msg (encode cod) g) \<in> set (nw_rx ?nw x y) \<or> encode cod (FlashblocksPayloadMsg g) \<in> set (nw_wire ?nw x y) \<or> has ?nw y g"
    if "g \<in> set fbs" "links x y" "has ?nw x g" for x y g
  proof -
    have "g = fb" if "encode cod (FlashblocksPayloadMsg g) = encode cod (FlashblocksPayloadMsg fb)"
      using rlp_codec.encode_inj [OF assms(2) J(3) J(3) that] \<open>g \<in> set fbs\<close> assms(4) by simp
    then show ?thesis
      using inv(6) [OF that(1,2)] that(3) assms(6,7) by (auto simp: at_pair_apply)
  qed
  show "\<exists>before. fbs = before @ nw_left ?nw \<and> (\<forall>g \<in> set before. has ?nw origin g)"
    using inv(7) by simp
qed

text \<open>Taking an item off a queue.\<close>

lemma take_peer_msg_of:
  "take_peer_msg conn (Ok (peer_msg enc fb) # rx) =
     (if idx fb \<in> received_from conn (p_payload_id fb) then None else Some (enc (FlashblocksPayloadMsg fb)), rx)"
  by (auto simp: peer_msg_def received_from_def)

lemma at_pair_same [simp]: "at_pair f a b (f a b) = f"
  by (simp add: at_pair_def)

lemma takes_keeps:
  assumes "publishable cod valid fbs" and "net_inv (encode cod) links origin fbs nw"
    and "take_peer_msg (nw_conn nw a b) (nw_rx nw a b) = (out, rx)"
  shows "net_inv (encode cod) links origin fbs (nw\<lparr>nw_rx := at_pair (nw_rx nw) a b rx,
      nw_wire := at_pair (nw_wire nw) a b (nw_wire nw a b @ (case out of Some bytes \<Rightarrow> [bytes] | None \<Rightarrow> []))\<rparr>)"
    (is "net_inv _ _ _ _ ?nw")
proof (cases "nw_rx nw a b")
  case Nil
  with assms(3) have "out = None" "rx = nw_rx nw a b" by simp_all
  with assms(2) show ?thesis by simp
next
  case (Cons m rest)
  note J = publishable_facts [OF assms(1)] and inv = net_invD [OF assms(2)]
  obtain fb where fb: "fb \<in> set fbs" "m = Ok (peer_msg (encode cod) fb)" "has nw a fb"
    using inv(3) [of m a b] Cons by auto
  with assms(3) Cons have rx: "rx = rest"
    and out: "out = (if received nw a b fb then None else Some (encode cod (FlashblocksPayloadMsg fb)))"
    by (simp_all add: take_peer_msg_of received_def)
  have wire: "nw_wire ?nw x y = nw_wire nw x y @
      (if x = a \<and> y = b \<and> \<not> received nw a b fb then [encode cod (FlashblocksPayloadMsg fb)] else [])" for x y
    by (simp add: at_pair_apply out)
  have queue: "nw_rx ?nw x y = (if x = a \<and> y = b then rest else nw_rx nw x y)" for x y
    by (simp add: at_pair_apply rx)
  show ?thesis
  proof (rule net_invI)
    show "holds_only fbs (nw_state ?nw x)" "nw_stream ?nw x = emitted (nw_state ?nw x)" for x using inv(1,2) by simp_all
    show "\<exists>g \<in> set fbs. n = Ok (peer_msg (encode cod) g) \<and> has ?nw x g" if "n \<in> set (nw_rx ?nw x y)" for x y n
    proof -
      have "n \<in> set (nw_rx nw x y)" using that Cons by (auto simp: rx at_pair_apply split: if_splits)
      from inv(3) [OF this] show ?thesis by simp
    qed
    show "\<exists>g \<in> set fbs. buf = encode cod (FlashblocksPayloadMsg g) \<and> has ?nw x g" if "buf \<in> set (nw_wire ?nw x y)" for x y buf
      using inv(4) [of buf x y] that fb unfolding wire by (auto split: if_splits)
    show "has ?nw x g \<and> has ?nw y g" if "g \<in> set fbs" "received ?nw x y g" for x y g
      using inv(5) that by simp
    show "Ok (peer_msg (encode cod) g) \<in> set (nw_rx ?nw x y) \<or> encode cod (FlashblocksPayloadMsg g) \<in> set (nw_wire ?nw x y) \<or> has ?nw y g"
      if "g \<in> set fbs" "links x y" "has ?nw x g" for x y g
    proof -
      have "g = fb" if "peer_msg (encode cod) g = peer_msg (encode cod) fb"
        using J(5) [OF \<open>g \<in> set fbs\<close> fb(1)] that by (simp add: peer_msg_def)
      then show ?thesis
        using inv(6) [OF that(1,2)] inv(5) [OF fb(1), of a b] that(3) Cons fb(2) unfolding wire queue
        by (auto split: if_splits)
    qed
    show "\<exists>before. fbs = before @ nw_left ?nw \<and> (\<forall>g \<in> set before. has ?nw origin g)"
      using inv(7) by simp
  qed
qed

lemma start_inv: "net_inv enc links origin fbs (start_network fbs)"
proof (rule net_invI)
  show "\<exists>before. fbs = before @ nw_left (start_network fbs) \<and> (\<forall>fb \<in> set before. has (start_network fbs) origin fb)"
    by (intro exI [of _ "[]"]) (simp add: start_network_def)
  show "holds_only fbs (nw_state (start_network fbs) a)" for a
    by (simp add: start_network_def holds_only_def cached_def) (simp add: default_p2p_state_def)
qed (simp_all add: start_network_def has_def received_def received_from_def new_connection_def
    emitted_def default_p2p_state_def cached_def)

text \<open>Handling a message of the peer publishes its flashblock, also when the connection had received it before:
  then the node holds it and the publication does nothing.\<close>

lemma handle_held:
  assumes "publishable cod valid fbs" and "net_inv (encode cod) links origin fbs nw" and "fb \<in> set fbs"
    and "handle_flashblocks_payload_v1 False (encode cod) now (nw_conn nw b a) (nw_state nw b) fb =
      (Ok (conn, st, es) :: (unit, _) result)"
  shows "publish (encode cod) now (nw_state nw b) fb = (st, published es)"
    and "received_from conn (p_payload_id fb) = insert (idx fb) (received_from (nw_conn nw b a) (p_payload_id fb))"
proof -
  have bound: "idx fb \<le> MAX_FLASHBLOCK_INDEX" using publishable_facts(1) [OF assms(1,3)] .
  have dup: "publish (encode cod) now (nw_state nw b) fb = (nw_state nw b, [])"
    if "idx fb \<in> received_from (nw_conn nw b a) (p_payload_id fb)"
  proof -
    have "has nw b fb" using net_invD(5) [OF assms(2,3), of b a] that by (simp add: received_def)
    moreover have "buffer_wf (nw_state nw b)"
      using net_invD(1) [OF assms(2)] by (simp add: holds_only_def settled_def)
    ultimately have "p_payload_id fb = s_payload_id (nw_state nw b)" "cached (nw_state nw b) (idx fb) \<noteq> None"
      unfolding has_def buffer_wf_def by blast+
    then have "track_payload (nw_state nw b) fb = nw_state nw b" "cached (nw_state nw b) (idx fb) \<noteq> None"
      by (simp_all only: track_same not_False_eq_True)
    then show ?thesis by (simp add: publish_ignored)
  qed
  have "publish (encode cod) now (nw_state nw b) fb = (st, published es) \<and>
      received_from conn (p_payload_id fb) = insert (idx fb) (received_from (nw_conn nw b a) (p_payload_id fb))"
  proof (cases rule: handle_cases [where debug = False and enc = "encode cod" and now = now and conn = "nw_conn nw b a"
        and st = "nw_state nw b" and fb = fb and ?'e = unit])
    case (duplicate conn')
    with assms(4) dup show ?thesis by (auto simp: insert_absorb)
  next
    case (forwarded conn')
    with assms(4) show ?thesis by (auto simp: prod_eq_iff)
  qed (use bound assms(4) in simp_all)
  then show "publish (encode cod) now (nw_state nw b) fb = (st, published es)"
    "received_from conn (p_payload_id fb) = insert (idx fb) (received_from (nw_conn nw b a) (p_payload_id fb))" by simp_all
qed

text \<open>The steps of a network that keeps the invariant, each by what it does.\<close>

lemma net_step_cases [consumes 4, case_names publishes takes handles]:
  assumes "net_step deliver cod links origin nw nw'" and "publishable cod valid fbs" and "rlp_codec cod valid"
    and "net_inv (encode cod) links origin fbs nw"
  obtains fb rest now st es where "nw_left nw = fb # rest" "fb \<in> set fbs"
      "publish (encode cod) now (nw_state nw origin) fb = (st, es)"
      "nw' = (spread deliver links origin st es nw)\<lparr>nw_left := rest\<rparr>"
  | a b out rx where "links a b" "take_peer_msg (nw_conn nw a b) (nw_rx nw a b) = (out, rx)"
      "nw' = nw\<lparr>nw_rx := at_pair (nw_rx nw) a b rx, nw_wire := at_pair (nw_wire nw) a b
        (nw_wire nw a b @ (case out of Some bytes \<Rightarrow> [bytes] | None \<Rightarrow> []))\<rparr>"
  | a b fb wire now st es conn where "links a b" "fb \<in> set fbs" "has nw a fb"
      "nw_wire nw a b = encode cod (FlashblocksPayloadMsg fb) # wire"
      "publish (encode cod) now (nw_state nw b) fb = (st, es)"
      "received_from conn (p_payload_id fb) = insert (idx fb) (received_from (nw_conn nw b a) (p_payload_id fb))"
      "nw' = (spread deliver links b st es nw)\<lparr>nw_wire := at_pair (nw_wire (spread deliver links b st es nw)) a b wire,
        nw_conn := at_pair (nw_conn (spread deliver links b st es nw)) b a conn\<rparr>"
  using assms(1)
proof cases
  case (publishes fb rest now st es)
  have "nw' = (spread deliver links origin st es nw)\<lparr>nw_left := rest\<rparr>"
    unfolding publishes(1) by (simp add: spread_def cong: if_cong)
  moreover have "fb \<in> set fbs" using net_invD(7) [OF assms(4)] publishes(2) by auto
  ultimately show ?thesis by (rule that(1) [OF publishes(2) _ publishes(3), rotated])
next
  case (takes a b out rx)
  show ?thesis by (rule that(2) [OF takes(2,3,1)])
next
  case (handles a b buf wire fb extra now conn st es)
  obtain g where g: "g \<in> set fbs" "buf = encode cod (FlashblocksPayloadMsg g)" "has nw a g"
    using net_invD(4) [OF assms(4), of buf a b] handles(3) by auto
  have fb: "fb = g"
    using handles(4) rlp_codec.decode_encode_all [OF assms(3) publishable_facts(3) [OF assms(2) g(1)]] g(2) by simp
  have "nw' = (spread deliver links b st (published es) nw)\<lparr>
      nw_wire := at_pair (nw_wire (spread deliver links b st (published es) nw)) a b wire,
      nw_conn := at_pair (nw_conn (spread deliver links b st (published es) nw)) b a conn\<rparr>"
    unfolding handles(1) by (simp add: spread_def cong: if_cong)
  with that(3) [OF handles(2) g(1,3) handles(3) [unfolded g(2)]] handle_held [OF assms(2,4) g(1) handles(5) [unfolded fb]]
  show ?thesis by simp
qed

lemma net_step_keeps:
  assumes "net_step deliver cod links origin nw nw'" and "publishable cod valid fbs" and "rlp_codec cod valid"
    and "net_inv (encode cod) links origin fbs nw" and "once_inv (encode cod) fbs nw" and "keeps_up deliver"
  shows "net_inv (encode cod) links origin fbs nw'"
  using assms(1-4)
proof (cases rule: net_step_cases)
  case (publishes fb rest now st es)
  note spread = spread_keeps [OF assms(2,4) publishes(2,3) assms(6,5)]
  obtain before where before: "fbs = before @ fb # rest" "\<forall>g \<in> set before. has nw origin g"
    using net_invD(7) [OF assms(4)] publishes(1) by auto
  note inv' = net_invD [OF spread(1)]
  show ?thesis
  proof (rule net_invI)
    show "\<exists>before. fbs = before @ nw_left nw' \<and> (\<forall>g \<in> set before. has nw' origin g)"
      using before spread(2,3) by (intro exI [of _ "before @ [fb]"]) (auto simp: publishes(4))
  qed (use inv' in \<open>simp_all add: publishes(4)\<close>)
next
  case (takes a b out rx)
  then show ?thesis using takes_keeps [OF assms(2,4) takes(2)] by simp
next
  case (handles a b fb wire now st es conn)
  note spread = spread_keeps [OF assms(2,4) handles(2,5) assms(6,5)]
  show ?thesis
    unfolding handles(7)
    by (rule consumed_keeps [OF assms(2,3) spread(1) handles(2) spread(3) [OF handles(3,2)] spread(2)])
      (use handles(4,6) in simp_all)
qed

section \<open>A flashblock crosses a link once\<close>

lemma spread_once:
  assumes "publishable cod valid fbs" and "net_inv (encode cod) links origin fbs nw"
    and "once_inv (encode cod) fbs nw" and "fb \<in> set fbs"
    and "publish (encode cod) now (nw_state nw a) fb = (st, es)" and "keeps_up deliver"
  shows "once_inv (encode cod) fbs (spread deliver links a st es nw)"
  unfolding once_inv_def
proof (intro allI ballI)
  fix x y g
  assume g: "g \<in> set fbs"
  let ?nw = "spread deliver links a st es nw"
  note pub = publish_held [OF assms(1,4) net_invD(1) [OF assms(2)] assms(5)]
  have has: "has ?nw x g \<longleftrightarrow> has nw x g \<or> x = a \<and> g = fb"
    by (rule has_spread [OF pub(2) _ g]) (use publishable_facts(5) [OF assms(1)] assms(4) in blast)
  have old: "copies (encode cod) nw x y g \<le> of_bool (has nw x g)" using assms(3) g by (simp add: once_inv_def)
  note rx = spread_rx [OF assms(1,2,4,5,6,3)]
  have "copies (encode cod) ?nw x y g = copies (encode cod) nw x y g +
      of_bool (x = a \<and> links a y \<and> \<not> has nw a fb \<and> fb = g)"
    using peer_msg_inj [OF assms(1,4) g] by (auto simp: copies_def rx received_def)
  with old has show "copies (encode cod) ?nw x y g \<le> of_bool (has ?nw x g)" by (cases "has nw a fb") auto
qed

lemma takes_once:
  assumes "publishable cod valid fbs" and "rlp_codec cod valid" and "net_inv (encode cod) links origin fbs nw"
    and "once_inv (encode cod) fbs nw"
    and "take_peer_msg (nw_conn nw a b) (nw_rx nw a b) = (out, rx)"
  shows "once_inv (encode cod) fbs (nw\<lparr>nw_rx := at_pair (nw_rx nw) a b rx,
      nw_wire := at_pair (nw_wire nw) a b (nw_wire nw a b @ (case out of Some bytes \<Rightarrow> [bytes] | None \<Rightarrow> []))\<rparr>)"
    (is "once_inv _ _ ?nw")
proof (cases "nw_rx nw a b")
  case Nil
  with assms(5) have "out = None" "rx = nw_rx nw a b" by simp_all
  with assms(4) show ?thesis by simp
next
  case (Cons m rest)
  obtain fb where fb: "fb \<in> set fbs" "m = Ok (peer_msg (encode cod) fb)"
    using net_invD(3) [OF assms(3), of m a b] Cons by auto
  with assms(5) Cons have rx: "rx = rest"
    and out: "out = None \<or> out = Some (encode cod (FlashblocksPayloadMsg fb))"
    by (auto simp: take_peer_msg_of split: if_splits)
  show ?thesis
    unfolding once_inv_def
  proof (intro allI ballI)
    fix x y g
    assume g: "g \<in> set fbs"
    have "copies (encode cod) ?nw x y g \<le> copies (encode cod) nw x y g"
      using out peer_msg_inj [OF assms(1) fb(1) g] encode_msg_inj [OF assms(1,2) fb(1) g] Cons fb(2)
      by (auto simp: copies_def at_pair_apply rx)
    with assms(4) g show "copies (encode cod) ?nw x y g \<le> of_bool (has ?nw x g)"
      unfolding once_inv_def by (fastforce dest: order_trans)
  qed
qed

lemma consumed_once:
  assumes "publishable cod valid fbs" and "rlp_codec cod valid" and "once_inv (encode cod) fbs nw"
    and "fb \<in> set fbs" and "nw_wire nw a b = encode cod (FlashblocksPayloadMsg fb) # wire"
    and "received_from conn (p_payload_id fb) \<subseteq> insert (idx fb) (received_from (nw_conn nw b a) (p_payload_id fb))"
  shows "once_inv (encode cod) fbs
    (nw\<lparr>nw_wire := at_pair (nw_wire nw) a b wire, nw_conn := at_pair (nw_conn nw) b a conn\<rparr>)" (is "once_inv _ _ ?nw")
  unfolding once_inv_def
proof (intro allI ballI)
  fix x y g
  assume g: "g \<in> set fbs"
  have "copies (encode cod) ?nw x y g \<le> copies (encode cod) nw x y g"
  proof (cases "x = a \<and> y = b")
    case True
    have "received ?nw b a g \<longrightarrow> received nw b a g \<or> g = fb"
      using assms(6) publishable_facts(4,5) [OF assms(1) g assms(4)] by (auto simp: received_def at_pair_apply)
    with True show ?thesis
      using encode_msg_inj [OF assms(1,2,4) g] by (auto simp: copies_def at_pair_apply assms(5))
  next
    case False
    then have "received ?nw y x g = received nw y x g" by (auto simp: received_def at_pair_apply)
    with False show ?thesis by (auto simp: copies_def at_pair_apply)
  qed
  with assms(3) g show "copies (encode cod) ?nw x y g \<le> of_bool (has ?nw x g)"
    unfolding once_inv_def by (fastforce dest: order_trans)
qed

lemma net_step_once:
  assumes "net_step deliver cod links origin nw nw'" and "publishable cod valid fbs" and "rlp_codec cod valid"
    and "net_inv (encode cod) links origin fbs nw" and "once_inv (encode cod) fbs nw"
    and "keeps_up deliver"
  shows "once_inv (encode cod) fbs nw'"
  using assms(1-4)
proof (cases rule: net_step_cases)
  case (publishes fb rest now st es)
  with spread_once [OF assms(2,4,5) publishes(2,3) assms(6)] show ?thesis by (simp add: once_inv_def copies_def)
next
  case (takes a b out rx)
  with takes_once [OF assms(2-5) takes(2)] show ?thesis by simp
next
  case (handles a b fb wire now st es conn)
  note spread = spread_once [OF assms(2,4,5) handles(2,5) assms(6)]
  show ?thesis
    unfolding handles(7)
    by (rule consumed_once [OF assms(2,3) spread handles(2)]) (use handles(4,6) in simp_all)
qed

lemma start_once: "once_inv enc fbs (start_network fbs)"
  by (simp add: once_inv_def copies_def start_network_def received_def received_from_def new_connection_def)

text \<open>Both hold in every network that is reached from the start.\<close>

lemma reachable_inv:
  assumes "(net_step deliver cod links origin)\<^sup>*\<^sup>* (start_network fbs) nw" and "publishable cod valid fbs" and "rlp_codec cod valid"
    and "keeps_up deliver"
  shows "net_inv (encode cod) links origin fbs nw \<and> once_inv (encode cod) fbs nw"
  using assms(1)
proof (induction rule: rtranclp_induct)
  case base
  show ?case by (simp add: start_inv start_once)
next
  case (step nw nw')
  then show ?case using net_step_keeps [OF step(2) assms(2,3) _ _ assms(4)] net_step_once [OF step(2) assms(2,3) _ _ assms(4)] by simp
qed

section \<open>The steps come to an end\<close>

text \<open>What is still to be done: the flashblocks that are not published or that a node is without, and the
  items of the queues and wires of its links.\<close>

definition missing :: "('w, 'b) flashblock list \<Rightarrow> ('n, 'w, 'b) network \<Rightarrow> 'n \<Rightarrow> ('w, 'b) flashblock set" where
  "missing fbs nw a = {fb \<in> set fbs. \<not> has nw a fb}"

definition link_load :: "('w, 'b) flashblock list \<Rightarrow> ('n, 'w, 'b) network \<Rightarrow> 'n \<times> 'n \<Rightarrow> nat" where
  "link_load fbs nw p = 2 * card (missing fbs nw (fst p)) + 2 * length (nw_rx nw (fst p) (snd p)) +
     length (nw_wire nw (fst p) (snd p))"

definition load :: "('w, 'b) flashblock list \<Rightarrow> ('n \<Rightarrow> 'n \<Rightarrow> bool) \<Rightarrow> ('n, 'w, 'b) network \<Rightarrow> nat" where
  "load fbs links nw = length (nw_left nw) + (\<Sum>p | links (fst p) (snd p). link_load fbs nw p)"

lemma missing_update [simp]:
  "missing fbs (nw\<lparr>nw_left := l\<rparr>) a = missing fbs nw a" "missing fbs (nw\<lparr>nw_rx := rx\<rparr>) a = missing fbs nw a"
  "missing fbs (nw\<lparr>nw_wire := w\<rparr>) a = missing fbs nw a" "missing fbs (nw\<lparr>nw_conn := c\<rparr>) a = missing fbs nw a"
  by (simp_all add: missing_def)

lemma spread_load:
  assumes "publishable cod valid fbs" and "net_inv (encode cod) links origin fbs nw" and "fb \<in> set fbs"
    and "publish (encode cod) now (nw_state nw a) fb = (st, es)" and "links (fst p) (snd p)"
    and "keeps_up deliver" and "once_inv (encode cod) fbs nw"
  shows "link_load fbs (spread deliver links a st es nw) p = link_load fbs nw p"
proof -
  let ?nw = "spread deliver links a st es nw"
  note rx = spread_rx [OF assms(1-4,6,7)]
  note pub = publish_held [OF assms(1,3) net_invD(1) [OF assms(2)] assms(4)]
  have has: "has ?nw x g \<longleftrightarrow> has nw x g \<or> x = a \<and> g = fb" if "g \<in> set fbs" for x g
    by (rule has_spread [OF pub(2) _ that]) (use publishable_facts(5) [OF assms(1)] assms(3) in blast)
  have missing: "missing fbs ?nw x = (if x = a then missing fbs nw x - {fb} else missing fbs nw x)" for x
    using has by (auto simp: missing_def)
  have fin: "finite (missing fbs nw x)" for x by (simp add: missing_def)
  show ?thesis
  proof (cases "fst p = a \<and> \<not> has nw a fb")
    case True
    then have "fb \<in> missing fbs nw a" using assms(3) by (simp add: missing_def)
    then have "card (missing fbs nw a) = Suc (card (missing fbs nw a - {fb}))"
      using fin card_Suc_Diff1 by metis
    moreover have "length (nw_rx ?nw a (snd p)) = Suc (length (nw_rx nw a (snd p)))"
      using True assms(5) by (simp add: rx)
    ultimately show ?thesis using True by (simp add: link_load_def missing)
  next
    case False
    then have "missing fbs ?nw (fst p) = missing fbs nw (fst p)"
      unfolding missing by (auto simp add: missing_def)
    moreover have "nw_rx ?nw (fst p) (snd p) = nw_rx nw (fst p) (snd p)"
      using False by (auto simp: rx)
    ultimately show ?thesis by (simp add: link_load_def)
  qed
qed

lemma load_less:
  assumes "finite {p. links (fst p) (snd p)}" and "links a b" and "length (nw_left nw') \<le> length (nw_left nw)"
    and "\<And>x y. links x y \<Longrightarrow> link_load fbs nw' (x, y) \<le> link_load fbs nw (x, y)"
    and "link_load fbs nw' (a, b) < link_load fbs nw (a, b)"
  shows "load fbs links nw' < load fbs links nw"
proof -
  have "(\<Sum>p | links (fst p) (snd p). link_load fbs nw' p) < (\<Sum>p | links (fst p) (snd p). link_load fbs nw p)"
    by (rule sum_strict_mono_ex1) (use assms(1,2,4,5) in \<open>auto intro!: bexI [of _ "(a, b)"]\<close>)
  with assms(3) show ?thesis by (simp add: load_def)
qed

lemma net_step_load:
  assumes "net_step deliver cod links origin nw nw'" and "publishable cod valid fbs" and "rlp_codec cod valid"
    and "net_inv (encode cod) links origin fbs nw" and "finite {p. links (fst p) (snd p)}" and "nw' \<noteq> nw"
    and "keeps_up deliver" and "once_inv (encode cod) fbs nw"
  shows "load fbs links nw' < load fbs links nw"
  using assms(1-4)
proof (cases rule: net_step_cases)
  case (publishes fb rest now st es)
  have "(\<Sum>p | links (fst p) (snd p). link_load fbs nw' p) = (\<Sum>p | links (fst p) (snd p). link_load fbs nw p)"
    by (rule sum.cong)
      (use spread_load [OF assms(2,4) publishes(2,3) _ assms(7,8)] in \<open>simp_all add: publishes(4) link_load_def\<close>)
  then show ?thesis by (simp add: load_def publishes(1,4))
next
  case (takes a b out rx)
  have "nw_rx nw a b \<noteq> []"
  proof
    assume empty: "nw_rx nw a b = []"
    with takes(2) have "out = None" "rx = nw_rx nw a b" by simp_all
    with takes(3) assms(6) show False by simp
  qed
  then have shrinks: "length (nw_rx nw a b) = Suc (length rx)"
    using takes(2) by (cases "(nw_conn nw a b, nw_rx nw a b)" rule: take_peer_msg.cases) (auto split: if_splits)
  show ?thesis
    by (rule load_less [OF assms(5) takes(1)])
      (auto simp: takes(3) link_load_def at_pair_apply shrinks split: option.splits)
next
  case (handles a b fb wire now st es conn)
  show ?thesis
    by (rule load_less [OF assms(5) handles(1)])
      (use spread_load [OF assms(2,4) handles(2,5) _ assms(7,8), of "(_, _)"] handles(4) in
        \<open>auto simp: handles(1,7) link_load_def at_pair_apply\<close>)
qed

lemma steps_load:
  assumes "((\<lambda>x y. net_step deliver cod links origin x y \<and> y \<noteq> x) ^^ n) (start_network fbs) nw"
    and "publishable cod valid fbs" and "rlp_codec cod valid" and "finite {p. links (fst p) (snd p)}"
    and "keeps_up deliver"
  shows "n + load fbs links nw \<le> load fbs links (start_network fbs) \<and>
    (net_step deliver cod links origin)\<^sup>*\<^sup>* (start_network fbs) nw"
  using assms(1)
proof (induction n arbitrary: nw)
  case (Suc n)
  then obtain mid where mid: "((\<lambda>x y. net_step deliver cod links origin x y \<and> y \<noteq> x) ^^ n) (start_network fbs) mid"
    "net_step deliver cod links origin mid nw" "nw \<noteq> mid" by auto
  note IH = Suc.IH [OF mid(1)]
  have inv: "net_inv (encode cod) links origin fbs mid" "once_inv (encode cod) fbs mid"
    using reachable_inv [OF conjunct2 [OF IH] assms(2,3,5)] by simp_all
  from net_step_load [OF mid(2) assms(2,3) inv(1) assms(4) mid(3) assms(5) inv(2)] IH mid(2) show ?case by auto
qed simp

lemma start_load:
  assumes "finite {p. links (fst p) (snd p)}"
  shows "load fbs links (start_network fbs) \<le> length fbs * (1 + 2 * card {p. links (fst p) (snd p)})"
proof -
  have "link_load fbs (start_network fbs) p \<le> 2 * length fbs" for p :: "'a \<times> 'a"
    by (simp add: link_load_def start_network_def missing_def has_def card_length)
  then have "(\<Sum>p | links (fst p) (snd p). link_load fbs (start_network fbs) p) \<le>
      of_nat (card {p. links (fst p) (snd p)}) * (2 * length fbs)"
    by (intro sum_bounded_above)
  then show ?thesis by (simp add: load_def algebra_simps) (simp add: start_network_def)
qed

section \<open>What the streams carry\<close>

lemma publishable_nth:
  assumes "publishable cod valid fbs"
  shows "fb \<in> set fbs \<Longrightarrow> idx fb < length fbs \<and> fbs ! idx fb = fb" and "i < length fbs \<Longrightarrow> idx (fbs ! i) = i"
proof -
  show at: "idx (fbs ! i) = i" if "i < length fbs" for i
    using assms that flashblocks_wfD(4) [of fbs i]
    by (auto simp: publishable_def unat_of_nat BROADCAST_BUFFER_CAPACITY_def)
  show "fb \<in> set fbs \<Longrightarrow> idx fb < length fbs \<and> fbs ! idx fb = fb"
    using at by (metis in_set_conv_nth)
qed

lemma holds_only_emitted:
  assumes "publishable cod valid fbs" and "holds_only fbs st"
  shows "emitted st = take (s_flashblock_index st) fbs" and "s_flashblock_index st \<le> length fbs"
proof -
  have wf: "buffer_wf st" using assms(2) by (simp add: holds_only_def settled_def)
  have at: "i < length fbs \<and> cached st i = Some (fbs ! i)" if "i < s_flashblock_index st" for i
  proof -
    obtain fb where fb: "cached st i = Some fb" using wf \<open>i < s_flashblock_index st\<close> by (auto simp: buffer_wf_def)
    with wf assms(2) have "idx fb = i" "fb \<in> set fbs" by (auto simp: buffer_wf_def holds_only_def)
    with fb publishable_nth(1) [OF assms(1)] show ?thesis by auto
  qed
  then show "s_flashblock_index st \<le> length fbs" by (meson linorder_not_less order_less_irrefl)
  with at show "emitted st = take (s_flashblock_index st) fbs"
    unfolding emitted_conv_cached [OF wf] by (auto intro!: nth_equalityI)
qed

lemma holds_all_emitted:
  assumes "publishable cod valid fbs" and "holds_only fbs (nw_state nw a)" and "\<And>fb. fb \<in> set fbs \<Longrightarrow> has nw a fb"
  shows "emitted (nw_state nw a) = fbs"
proof -
  have "\<not> s_flashblock_index (nw_state nw a) < length fbs"
  proof
    assume less: "s_flashblock_index (nw_state nw a) < length fbs"
    then have "has nw a (fbs ! s_flashblock_index (nw_state nw a))" using assms(3) by simp
    then have "cached (nw_state nw a) (s_flashblock_index (nw_state nw a)) \<noteq> None"
      using publishable_nth(2) [OF assms(1) less] by (simp add: has_def)
    then show False using assms(2) by (simp add: holds_only_def settled_def)
  qed
  with holds_only_emitted [OF assms(1,2)] show ?thesis by simp
qed

text \<open>
  A message under way decodes, and its handling is a publication.
\<close>

lemma wire_message_handled:
  assumes "rlp_codec cod valid" and "publishable cod valid fbs"
    and "net_inv (encode cod) links origin fbs nw" and "once_inv (encode cod) fbs nw"
    and "buf \<in> set (nw_wire nw a b)"
  obtains fb conn st es where "fb \<in> set fbs" "decode cod buf = Ok (FlashblocksPayloadMsg fb, [])"
    "(handle_flashblocks_payload_v1 False (encode cod) now (nw_conn nw b a) (nw_state nw b) fb :: ('e, _) result) =
       Ok (conn, st, map Published es)"
proof -
  obtain fb where fb: "fb \<in> set fbs" "buf = encode cod (FlashblocksPayloadMsg fb)"
    using net_invD(4) [OF assms(3,5)] by auto
  have "count_list (nw_wire nw a b) buf \<noteq> 0" using assms(5) by (simp add: count_list_0_iff)
  moreover have "copies (encode cod) nw a b fb \<le> 1" 
    using assms(4) fb(1) unfolding once_inv_def by (metis (full_types) of_bool_less_eq_one order_trans)
  ultimately have "\<not> received nw b a fb" using fb(2) by (auto simp: copies_def)
  then have new: "idx fb \<notin> received_from (nw_conn nw b a) (p_payload_id fb)" by (simp add: received_def)
  have dec: "decode cod buf = Ok (FlashblocksPayloadMsg fb, [])"
    using rlp_codec.decode_encode_all [OF assms(1) publishable_facts(3) [OF assms(2) fb(1)]] fb(2) by simp
  show ?thesis
    using publishable_facts(1) [OF assms(2) fb(1)] new that [OF fb(1) dec]
    by (cases rule: handle_cases [where debug = False and enc = "encode cod" and now = now and conn = "nw_conn nw b a"
          and st = "nw_state nw b" and fb = fb and ?'e = 'e]) (auto simp: panics_on_def)
qed

text \<open>
  C13: Safety of the network. Whatever the order of the steps, what a node has streamed is a
  prefix of the payload's flashblocks, so that no two subscribers of any nodes ever see different flashblocks
  at a position, and it buffers nothing else.
\<close>

theorem network_streams_prefix:
  assumes "rlp_codec cod valid" and "publishable cod valid fbs" and "keeps_up deliver"
    and "(net_step deliver cod links origin)\<^sup>*\<^sup>* (start_network fbs) nw"
  shows "prefix (nw_stream nw a) fbs \<and> (\<forall>i fb. cached (nw_state nw a) i = Some fb \<longrightarrow> fb \<in> set fbs \<and> idx fb = i)"
proof -
  have inv: "net_inv (encode cod) links origin fbs nw" using reachable_inv [OF assms(4,2,1,3)] by simp
  note holds = net_invD(1) [OF inv, of a]
  have "nw_stream nw a = take (s_flashblock_index (nw_state nw a)) fbs"
    using net_invD(2) [OF inv, of a] holds_only_emitted(1) [OF assms(2) holds] by simp
  then have "prefix (nw_stream nw a) fbs" by (simp add: take_is_prefix)
  with holds show ?thesis by (auto simp: holds_only_def settled_def buffer_wf_def)
qed

text \<open>
  C14: No honest peer is penalised. In every reachable network, each message under way decodes to a
  flashblock of the payload, and its handling at the peer succeeds and is a publication only: the relaying of
  the nodes never produces the duplicates for which \<open>handle_flashblocks_payload_v1\<close> lowers a reputation.
\<close>

theorem honest_peers_unpenalised:
  assumes "rlp_codec cod valid" and "publishable cod valid fbs" and "keeps_up deliver"
    and "(net_step deliver cod links origin)\<^sup>*\<^sup>* (start_network fbs) nw" and "buf \<in> set (nw_wire nw a b)"
  shows "\<exists>fb conn st es. fb \<in> set fbs \<and> decode cod buf = Ok (FlashblocksPayloadMsg fb, []) \<and>
    (handle_flashblocks_payload_v1 False (encode cod) now (nw_conn nw b a) (nw_state nw b) fb :: ('e, _) result) =
       Ok (conn, st, map Published es)"
proof -
  have inv: "net_inv (encode cod) links origin fbs nw" "once_inv (encode cod) fbs nw"
    using reachable_inv [OF assms(4,2,1,3)] by simp_all
  show ?thesis
    by (rule wire_message_handled [OF assms(1,2) inv assms(5), where now = now and ?'e = 'e]) blast
qed

section \<open>All nodes receive all flashblocks\<close>

text \<open>A network that no step changes has published all, and holds nothing in the queues and wires of its links.\<close>

definition at_rest ::
  "(peer_queue \<Rightarrow> PeerMsg list \<Rightarrow> peer_queue) \<Rightarrow> (FlashblockMetadata, 'w, 'b) FlashblocksP2PMsg codec \<Rightarrow> ('n \<Rightarrow> 'n \<Rightarrow> bool) \<Rightarrow> 'n \<Rightarrow> ('n, 'w, 'b) network \<Rightarrow> bool" where
  "at_rest deliver cod links origin nw \<longleftrightarrow> (\<forall>nw'. net_step deliver cod links origin nw nw' \<longrightarrow> nw' = nw)"

lemma at_rest_left:
  assumes "at_rest deliver cod links origin nw"
  shows "nw_left nw = []"
proof (cases "nw_left nw")
  case (Cons fb rest)
  obtain st es where "publish (encode cod) 0 (nw_state nw origin) fb = (st, es)" by fastforce
  from net_step.publishes [OF Cons this, of deliver links] assms
  have "spread deliver links origin st es (nw\<lparr>nw_left := rest\<rparr>) = nw" by (simp add: at_rest_def)
  then have "nw_left (spread deliver links origin st es (nw\<lparr>nw_left := rest\<rparr>)) = nw_left nw" by simp
  then show ?thesis using Cons by simp
qed simp

lemma at_rest_rx:
  assumes "at_rest deliver cod links origin nw" and "links a b"
  shows "nw_rx nw a b = []"
proof -
  obtain out rx where taken: "take_peer_msg (nw_conn nw a b) (nw_rx nw a b) = (out, rx)" by fastforce
  from net_step.takes [where deliver = deliver and cod = cod and origin = origin and links = links and nw = nw and a = a and b = b, OF assms(2) this] assms(1)
  have "nw\<lparr>nw_rx := at_pair (nw_rx nw) a b rx, nw_wire := at_pair (nw_wire nw) a b
      (nw_wire nw a b @ (case out of Some bytes \<Rightarrow> [bytes] | None \<Rightarrow> []))\<rparr> = nw" (is "?nw = nw") by (simp add: at_rest_def)
  then have "nw_rx ?nw a b = nw_rx nw a b" by simp
  then have "rx = nw_rx nw a b" by (simp add: at_pair_apply)
  with taken show ?thesis
    by (cases "(nw_conn nw a b, nw_rx nw a b)" rule: take_peer_msg.cases) (auto split: if_splits)
qed

lemma at_rest_wire:
  assumes "at_rest deliver cod links origin nw" and "links a b" and "rlp_codec cod valid" and "publishable cod valid fbs"
    and "net_inv (encode cod) links origin fbs nw" and "once_inv (encode cod) fbs nw"
  shows "nw_wire nw a b = []"
proof (cases "nw_wire nw a b")
  case (Cons buf wire)
  obtain fb conn st es where fb: "decode cod buf = Ok (FlashblocksPayloadMsg fb, [])"
    "(handle_flashblocks_payload_v1 False (encode cod) 0 (nw_conn nw b a) (nw_state nw b) fb :: (unit, _) result) =
       Ok (conn, st, map Published es)"
    by (rule wire_message_handled [OF assms(3-6), where ?'e = unit and now = 0 and buf = buf and a = a and b = b])
      (use Cons in auto)
  let ?nw = "spread deliver links b st (published (map Published es)) (nw\<lparr>nw_wire := at_pair (nw_wire nw) a b wire,
      nw_conn := at_pair (nw_conn nw) b a conn\<rparr>)"
  have "net_step deliver cod links origin nw ?nw"
    by (rule net_step.handles [where deliver = deliver and links = links and nw = nw and a = a and b = b, OF assms(2) Cons fb])
  then have "?nw = nw" using assms(1) unfolding at_rest_def by blast
  then have "nw_wire ?nw a b = nw_wire nw a b" by (rule arg_cong)
  then show ?thesis using Cons by (simp add: at_pair_apply)
qed simp

text \<open>
  A reachable network that is at rest has delivered the whole payload.
\<close>

lemma rest_delivers:
  assumes "rlp_codec cod valid" and "publishable cod valid fbs" and "keeps_up deliver"
    and "(net_step deliver cod links origin)\<^sup>*\<^sup>* (start_network fbs) nw"
    and "at_rest deliver cod links origin nw" and "links\<^sup>*\<^sup>* origin a"
  shows "nw_stream nw a = fbs"
proof -
  have inv: "net_inv (encode cod) links origin fbs nw" "once_inv (encode cod) fbs nw"
    using reachable_inv [OF assms(4,2,1,3)] by simp_all
  have "has nw a fb" if "fb \<in> set fbs" for fb
    using assms(6)
  proof (induction rule: rtranclp_induct)
    case base
    show ?case using net_invD(7) [OF inv(1)] at_rest_left [OF assms(5)] that by auto
  next
    case (step x y)
    with net_invD(6) [OF inv(1) that, of x y] at_rest_rx [OF assms(5) step(2)] at_rest_wire [OF assms(5) step(2) assms(1,2) inv]
    show ?case by simp
  qed
  then show ?thesis
    using holds_all_emitted [OF assms(2) net_invD(1) [OF inv(1)]] net_invD(2) [OF inv(1)] by simp
qed

text \<open>
  C3: Delivery to every node. In a reachable network that is at rest, every node that the links
  connect to the publishing one, over however many relays, has streamed all flashblocks of the payload, in
  order and each once.
\<close>

theorem network_delivers:
  assumes "rlp_codec cod valid" and "publishable cod valid fbs" and "keeps_up deliver"
    and "(net_step deliver cod links origin)\<^sup>*\<^sup>* (start_network fbs) nw"
    and "at_rest deliver cod links origin nw" and "links\<^sup>*\<^sup>* origin a"
  shows "nw_stream nw a = fbs"
  using assms by (rule rest_delivers)

lemma reaches_rest:
  assumes "rlp_codec cod valid" and "publishable cod valid fbs" and "keeps_up deliver" and "finite {p. links (fst p) (snd p)}"
    and "(net_step deliver cod links origin)\<^sup>*\<^sup>* (start_network fbs) nw"
  shows "\<exists>nw'. (net_step deliver cod links origin)\<^sup>*\<^sup>* nw nw' \<and> at_rest deliver cod links origin nw'"
  using assms(5)
proof (induction "load fbs links nw" arbitrary: nw rule: less_induct)
  case less
  show ?case
  proof (cases "at_rest deliver cod links origin nw")
    case False
    then obtain mid where mid: "net_step deliver cod links origin nw mid" "mid \<noteq> nw" by (auto simp: at_rest_def)
    have "load fbs links mid < load fbs links nw"
      using net_step_load [OF mid(1) assms(2,1) _ assms(4) mid(2) assms(3)] reachable_inv [OF less(2) assms(2,1,3)] by simp
    moreover have "(net_step deliver cod links origin)\<^sup>*\<^sup>* (start_network fbs) mid" using less(2) mid(1) by simp
    ultimately obtain nw' where "(net_step deliver cod links origin)\<^sup>*\<^sup>* mid nw'" "at_rest deliver cod links origin nw'"
      using less(1) by blast
    with mid(1) show ?thesis by (meson converse_rtranclp_into_rtranclp)
  qed blast
qed

text \<open>
  C5: A network settles. A step that changes something is a publication, an item taken off a queue
  or a message handled; there are at most one such step per flashblock and two per flashblock and link,
  in whatever order the nodes step, so that no flashblock circulates in a cycle of the network; and wherever
  the steps have led, they can be continued until the network is at rest.
\<close>

theorem network_settles:
  assumes "rlp_codec cod valid" and "publishable cod valid fbs" and "keeps_up deliver" and "finite {p. links (fst p) (snd p)}"
    and "((\<lambda>x y. net_step deliver cod links origin x y \<and> y \<noteq> x) ^^ n) (start_network fbs) nw"
  shows "n \<le> length fbs * (1 + 2 * card {p. links (fst p) (snd p)}) \<and>
    (\<exists>nw'. (net_step deliver cod links origin)\<^sup>*\<^sup>* nw nw' \<and> at_rest deliver cod links origin nw')"
proof -
  note steps = steps_load [OF assms(5,2,1,4,3)]
  with start_load [OF assms(4), of fbs] reaches_rest [OF assms(1-4) conjunct2 [OF steps]] show ?thesis by simp
qed

section \<open>The steps are those of the poll loop\<close>

lemma append_msgs_simps [simp]:
  "append_msgs rx [] = rx" "append_msgs (append_msgs rx ms) ns = append_msgs rx (ms @ ns)"
  by (simp_all add: append_msgs_def)

text \<open>The network after a call of \<open>poll_next\<close>: what the call leaves of the connection and its queue, with what it
  published spread to the other queues and the stream, and the bytes it returned on the wire.\<close>

definition after_poll ::
  "(peer_queue \<Rightarrow> PeerMsg list \<Rightarrow> peer_queue) \<Rightarrow> ('n \<Rightarrow> 'n \<Rightarrow> bool) \<Rightarrow> 'n \<Rightarrow> 'n \<Rightarrow> FlashblocksConnection \<Rightarrow> ('w, 'b) FlashblocksP2PState \<Rightarrow> peer_queue \<Rightarrow>
     bytes list \<Rightarrow> ('w, 'b) conn_effect list \<Rightarrow> poll \<Rightarrow> ('n, 'w, 'b) network \<Rightarrow> ('n, 'w, 'b) network" where
  "after_poll deliver links b a conn st rx incoming es res nw = nw\<lparr>nw_conn := at_pair (nw_conn nw) b a conn,
     nw_state := (nw_state nw)(b := st),
     nw_rx := (\<lambda>x y. if x = b \<and> y = a then rx
       else if x = b \<and> links b y then deliver (nw_rx nw x y) (sent_to_peers (published es)) else nw_rx nw x y),
     nw_wire := at_pair (at_pair (nw_wire nw) a b incoming) b a
       (nw_wire nw b a @ (case res of Ready (Some bytes) \<Rightarrow> [bytes] | _ \<Rightarrow> [])),
     nw_stream := (nw_stream nw)(b := nw_stream nw b @ streamed (published es))\<rparr>"

lemma after_takes:
  assumes "links b a" and "take_peer_msg (nw_conn nw b a) (nw_rx nw b a) = (out, rx)" and "a \<noteq> b"
  shows "net_step append_msgs cod links origin nw (after_poll append_msgs links b a (nw_conn nw b a) (nw_state nw b) rx (nw_wire nw a b) []
    (case out of Some bytes \<Rightarrow> Ready (Some bytes) | None \<Rightarrow> Pending armed) nw)"
proof -
  have "after_poll append_msgs links b a (nw_conn nw b a) (nw_state nw b) rx (nw_wire nw a b) []
      (case out of Some bytes \<Rightarrow> Ready (Some bytes) | None \<Rightarrow> Pending armed) nw =
    nw\<lparr>nw_rx := at_pair (nw_rx nw) b a rx,
      nw_wire := at_pair (nw_wire nw) b a (nw_wire nw b a @ (case out of Some bytes \<Rightarrow> [bytes] | None \<Rightarrow> []))\<rparr>"
    using assms(3) by (intro network.equality) (auto simp: after_poll_def fun_eq_iff at_pair_apply split: option.split)
  with net_step.takes [where links = links and nw = nw and a = b and b = a, OF assms(1,2)] show ?thesis by metis
qed

lemma after_handles:
  assumes "links a b" and "links b a" and "a \<noteq> b" and "nw_wire nw a b = buf # wire"
    and "decode cod buf = Ok (FlashblocksPayloadMsg fb, extra)"
    and "handle_flashblocks_payload_v1 False (encode cod) now (nw_conn nw b a) (nw_state nw b) fb =
      (Ok (conn, st, es) :: (unit, _) result)"
  shows "net_step append_msgs cod links origin nw (after_poll append_msgs links b a conn st
    (append_msgs (nw_rx nw b a) (sent_to_peers (published es))) wire es (Pending armed) nw)"
proof -
  have "after_poll append_msgs links b a conn st (append_msgs (nw_rx nw b a) (sent_to_peers (published es))) wire es (Pending armed) nw =
    spread append_msgs links b st (published es)
      (nw\<lparr>nw_wire := at_pair (nw_wire nw) a b wire, nw_conn := at_pair (nw_conn nw) b a conn\<rparr>)"
    using assms(2,3) by (intro network.equality) (auto simp: after_poll_def spread_def fun_eq_iff at_pair_apply)
  with net_step.handles [where links = links and nw = nw and a = a and b = b, OF assms(1,4-6)] show ?thesis by metis
qed

lemma after_poll_after_poll:
  assumes "a \<noteq> b"
  shows "after_poll append_msgs links b a conn st rx incoming es res (after_poll append_msgs links b a conn' st' rx' incoming' es' (Pending armed) nw) =
    after_poll append_msgs links b a conn st rx incoming (es' @ es) res nw"
  using assms by (intro network.equality) (auto simp: after_poll_def fun_eq_iff at_pair_apply)

lemma after_poll_fields:
  assumes "a \<noteq> b"
  shows "nw_conn (after_poll deliver links b a conn st rx incoming es res nw) b a = conn"
    "nw_state (after_poll deliver links b a conn st rx incoming es res nw) b = st"
    "nw_rx (after_poll deliver links b a conn st rx incoming es res nw) b a = rx"
    "nw_wire (after_poll deliver links b a conn st rx incoming es res nw) a b = incoming"
  using assms by (simp_all add: after_poll_def at_pair_apply)

lemma poll_reaches:
  assumes "links a b" and "links b a" and "a \<noteq> b" and "nw_wire nw a b = map snd inbox @ later"
    and "poll_next False cod append_msgs closed armed (nw_conn nw b a) (nw_state nw b) (nw_rx nw b a) inbox =
      (Ok ((conn, st, rx, inbox'), es, res) :: (unit, _) result)"
    and "penalties BadMessage es = 0"
  shows "(net_step append_msgs cod links origin)\<^sup>*\<^sup>* nw (after_poll append_msgs links b a conn st rx (map snd inbox' @ later) es res nw)"
  using assms(4-6)
proof (induction inbox arbitrary: nw armed es)
  case Nil
  obtain out rx1 where taken: "take_peer_msg (nw_conn nw b a) (nw_rx nw b a) = (out, rx1)" by fastforce
  note step = after_takes [where links = links and nw = nw and a = a and b = b and cod = cod and origin = origin and armed = "armed \<or> nw_rx nw b a = []", OF assms(2) taken assms(3)]
  have "conn = nw_conn nw b a \<and> st = nw_state nw b \<and> rx = rx1 \<and> es = [] \<and> inbox' = [] \<and>
      (case res of Ready (Some bytes) \<Rightarrow> [bytes] | _ \<Rightarrow> []) = (case out of Some bytes \<Rightarrow> [bytes] | None \<Rightarrow> [])"
    using Nil(2) taken by (auto simp: poll_next.simps [where inbox = "[]"] split: option.splits if_splits)
  then have "after_poll append_msgs links b a conn st rx (map snd inbox' @ later) es res nw =
      after_poll append_msgs links b a (nw_conn nw b a) (nw_state nw b) rx1 (nw_wire nw a b) []
        (case out of Some bytes \<Rightarrow> Ready (Some bytes) | None \<Rightarrow> Pending (armed \<or> nw_rx nw b a = [])) nw"
    using Nil(1) by (simp add: after_poll_def split: option.split)
  with step show ?case by (metis r_into_rtranclp)
next
  case (Cons i inbox)
  obtain now buf where i: "i = (now, buf)" by fastforce
  obtain out rx1 where taken: "take_peer_msg (nw_conn nw b a) (nw_rx nw b a) = (out, rx1)" by fastforce
  note step = after_takes [where links = links and nw = nw and a = a and b = b and cod = cod and origin = origin and armed = armed, OF assms(2) taken assms(3)]
  show ?case
  proof (cases out)
    case (Some bytes)
    with Cons.prems taken step show ?thesis
      by (auto simp: poll_next.simps [where inbox = "_ # _"])
  next
    case None
    obtain fb extra conn2 st2 es1 es2 where dec: "decode cod buf = Ok (FlashblocksPayloadMsg fb, extra)"
      and handled: "handle_flashblocks_payload_v1 False (encode cod) now (nw_conn nw b a) (nw_state nw b) fb =
        (Ok (conn2, st2, es1) :: (unit, _) result)"
      and rest: "poll_next False cod append_msgs closed (armed \<or> nw_rx nw b a = []) conn2 st2
        (append_msgs rx1 (sent_to_peers (published es1))) inbox = (Ok ((conn, st, rx, inbox'), es2, res) :: (unit, _) result)"
      and es: "es = es1 @ es2"
      using Cons.prems(2,3) None taken i
      by (auto simp: poll_next.simps [where inbox = "_ # _"] penalties_def split: result.splits FlashblocksP2PMsg.splits)
    let ?nw1 = "after_poll append_msgs links b a (nw_conn nw b a) (nw_state nw b) rx1 (nw_wire nw a b) [] (Pending armed) nw"
    let ?nw2 = "after_poll append_msgs links b a conn2 st2 (append_msgs rx1 (sent_to_peers (published es1))) (map snd inbox @ later) es1
      (Pending armed) ?nw1"
    note at = after_poll_fields [OF assms(3)]
    have "nw_wire ?nw1 a b = buf # map snd inbox @ later" using Cons.prems(1) by (simp add: at i)
    from after_handles [where origin = origin and armed = armed, OF assms(1-3) this dec, unfolded at, OF handled]
    have "net_step append_msgs cod links origin ?nw1 ?nw2" .
    moreover have "penalties BadMessage es2 = 0" using Cons.prems(3) es by (simp add: penalties_def)
    then have "(net_step append_msgs cod links origin)\<^sup>*\<^sup>* ?nw2 (after_poll append_msgs links b a conn st rx (map snd inbox' @ later) es2 res ?nw2)"
      using rest by (intro Cons.IH [where armed = "armed \<or> nw_rx nw b a = []"]) (simp_all add: at)
    ultimately show ?thesis
      using step unfolding after_poll_after_poll [OF assms(3)] es None option.case append_Nil
      by (meson converse_rtranclp_into_rtranclp)
  qed
qed

text \<open>
  C15: A call of \<open>poll_next\<close> that ends without a bad message is a sequence of steps of the
  network: from the state of the connection's node and the bytes that the peer sent, the steps lead to the
  state, connection, queues and stream that the call leaves, with the bytes it returns on the wire.
\<close>

theorem poll_next_is_net_steps:
  assumes "links a b" and "links b a" and "a \<noteq> b" and "nw_wire nw a b = map snd inbox @ later"
    and "poll_next False cod append_msgs closed armed (nw_conn nw b a) (nw_state nw b) (nw_rx nw b a) inbox =
      (Ok ((conn, st, rx, inbox'), es, res) :: (unit, _) result)"
    and "penalties BadMessage es = 0"
  shows "\<exists>nw'. (net_step append_msgs cod links origin)\<^sup>*\<^sup>* nw nw' \<and> nw_conn nw' b a = conn \<and> nw_state nw' b = st \<and>
    nw_rx nw' b a = rx \<and> nw_wire nw' a b = map snd inbox' @ later \<and>
    nw_wire nw' b a = nw_wire nw b a @ (case res of Ready (Some bytes) \<Rightarrow> [bytes] | _ \<Rightarrow> []) \<and>
    nw_stream nw' b = nw_stream nw b @ streamed (published es) \<and>
    (\<forall>y. links b y \<and> y \<noteq> a \<longrightarrow> nw_rx nw' b y = append_msgs (nw_rx nw b y) (sent_to_peers (published es)))"
  by (rule exI, intro conjI, rule poll_reaches [where origin = origin, OF assms])
    (use assms(3) in \<open>auto simp: after_poll_def at_pair_apply\<close>)

section \<open>The tasks of the nodes\<close>

text \<open>
  The same network at the granularity of the code: a publication, or a whole call of \<open>poll_next\<close> on a
  connection with any number of the messages that have arrived, each with the clock reading at its handling. What
  the broadcast channel makes of a queue is \<open>deliver\<close>. A task is labelled with what it did.
\<close>

inductive task_step ::
  "(peer_queue \<Rightarrow> PeerMsg list \<Rightarrow> peer_queue) \<Rightarrow> (FlashblockMetadata, 'w, 'b) FlashblocksP2PMsg codec \<Rightarrow> ('n \<Rightarrow> 'n \<Rightarrow> bool) \<Rightarrow> 'n \<Rightarrow>
     ('n, 'w, 'b) network \<Rightarrow> ('w, 'b) conn_effect list \<Rightarrow> ('n, 'w, 'b) network \<Rightarrow> bool"
  for deliver cod links origin where
  publishes: "nw_left nw = fb # rest \<Longrightarrow> publish (encode cod) now (nw_state nw origin) fb = (st, es) \<Longrightarrow>
    task_step deliver cod links origin nw (map Published es) (spread deliver links origin st es (nw\<lparr>nw_left := rest\<rparr>))"
| polls: "links a b \<Longrightarrow> links b a \<Longrightarrow> a \<noteq> b \<Longrightarrow> nw_wire nw a b = map snd inbox @ later \<Longrightarrow>
    poll_next False cod deliver False False (nw_conn nw b a) (nw_state nw b) (nw_rx nw b a) inbox =
      (Ok ((conn, st, rx, inbox'), es, res) :: (unit, _) result) \<Longrightarrow>
    task_step deliver cod links origin nw es (after_poll deliver links b a conn st rx (map snd inbox' @ later) es res nw)"

lemma task_is_net_steps:
  assumes "task_step append_msgs cod links origin nw es nw'" and "penalties BadMessage es = 0"
  shows "(net_step append_msgs cod links origin)\<^sup>*\<^sup>* nw nw'"
  using assms
proof (cases rule: task_step.cases)
  case (publishes fb rest now st es)
  then show ?thesis by (metis net_step.publishes r_into_rtranclp)
next
  case (polls a b inbox later conn st rx inbox' res)
  then show ?thesis using poll_reaches [where origin = origin, OF polls(2-6)] assms(2) by simp
qed

lemma step_takes:
  assumes "links b a" and "take_peer_msg (nw_conn nw b a) (nw_rx nw b a) = (out, rx)"
  obtains nw' where "net_step deliver cod links origin nw nw'" "nw_conn nw' = nw_conn nw" "nw_state nw' = nw_state nw"
    "nw_stream nw' = nw_stream nw" "nw_rx nw' = at_pair (nw_rx nw) b a rx"
    "nw_wire nw' = at_pair (nw_wire nw) b a (nw_wire nw b a @ (case out of Some bytes \<Rightarrow> [bytes] | None \<Rightarrow> []))"
  using net_step.takes [where links = links and nw = nw and a = b and b = a, OF assms, of deliver cod origin] that by simp

section \<open>A line of three nodes\<close>

text \<open>Node 1 relays between the others; the payload has two flashblocks.\<close>

definition line_links :: "nat \<Rightarrow> nat \<Rightarrow> bool" where
  "line_links a b \<longleftrightarrow> (a, b) \<in> {(0, 1), (1, 0), (1, 2), (2, 1)}"

definition line_payload :: "(u64, bytes) flashblock list" where
  "line_payload = [wire_example 0 (Some default_base), wire_example 1 None]"

lemma line_links_finite: "finite {p. line_links (fst p) (snd p)}"
  by (simp add: line_links_def)

lemma line_reaches: "line_links\<^sup>*\<^sup>* 0 2"
proof -
  have "line_links 0 1" "line_links 1 2" by (simp_all add: line_links_def)
  then show ?thesis by (meson rtranclp.simps)
qed

lemma line_publishable:
  "publishable (msg_codec number_codec spec_codecs) (msg_valid spec_delta_valid base_addressable spec_codecs) line_payload"
proof -
  have "flashblocks_wf line_payload"
    by (auto simp: flashblocks_wf_def line_payload_def wire_example_def less_Suc_eq)
  with wire_example_fits(1) wire_example_fits(2) [where now = 0] show ?thesis
    by (simp add: publishable_def line_payload_def BROADCAST_BUFFER_CAPACITY_def fits_frame_def)
qed

text \<open>Channels that lose everything beyond their capacity.\<close>

definition lossy_channel :: "peer_queue \<Rightarrow> PeerMsg list \<Rightarrow> peer_queue" where
  "lossy_channel rx ms = (if length rx + length ms \<le> BROADCAST_BUFFER_CAPACITY then append_msgs rx ms else [Err ()])"

lemma lossy_keeps_up: "keeps_up lossy_channel"
  by (simp add: keeps_up_def lossy_channel_def)

abbreviation line_network :: "(nat, u64, bytes) network" where
  "line_network \<equiv> start_network line_payload"

abbreviation line_step :: "(nat, u64, bytes) network \<Rightarrow> (nat, u64, bytes) network \<Rightarrow> bool" where
  "line_step \<equiv> net_step lossy_channel (msg_codec number_codec spec_codecs) line_links 0"

lemma line_start:
  obtains nw where "line_step line_network nw" "nw \<noteq> line_network"
proof -
  let ?cod = "msg_codec number_codec spec_codecs"
  have left: "nw_left line_network = wire_example 0 (Some default_base) # [wire_example 1 None]"
    by (simp add: start_network_def line_payload_def)
  obtain st es where pub: "publish (encode ?cod) 0 (nw_state line_network 0)
      (wire_example 0 (Some default_base)) = (st, es)" by fastforce
  let ?nw = "spread lossy_channel line_links 0 st es (line_network\<lparr>nw_left := [wire_example 1 None]\<rparr>)"
  have "nw_left ?nw \<noteq> nw_left line_network" by (simp add: left)
  then have "?nw \<noteq> line_network" by metis
  with net_step.publishes [OF left pub] that show ?thesis by blast
qed

lemmas line_facts = spec.message.rlp_codec_axioms line_publishable lossy_keeps_up

theorem network_settles_witness:
  "\<exists>nw. ((\<lambda>x y. line_step x y \<and> y \<noteq> x) ^^ 1) line_network nw \<and>
     (1 :: nat) \<le> length line_payload * (1 + 2 * card {p. line_links (fst p) (snd p)}) \<and>
     (\<exists>nw'. line_step\<^sup>*\<^sup>* nw nw' \<and> at_rest lossy_channel (msg_codec number_codec spec_codecs) line_links 0 nw')"
proof -
  obtain nw where "line_step line_network nw" "nw \<noteq> line_network" by (rule line_start)
  then have one: "((\<lambda>x y. line_step x y \<and> y \<noteq> x) ^^ 1) line_network nw" by auto
  from network_settles [OF line_facts line_links_finite this] one show ?thesis by blast
qed

theorem network_streams_prefix_witness:
  "\<exists>nw. line_step\<^sup>*\<^sup>* line_network nw \<and> nw \<noteq> line_network \<and> prefix (nw_stream nw 0) line_payload"
proof -
  obtain nw where nw: "line_step line_network nw" "nw \<noteq> line_network" by (rule line_start)
  then have "line_step\<^sup>*\<^sup>* line_network nw" by blast
  from network_streams_prefix [OF line_facts this, of 0] this nw(2) show ?thesis by blast
qed

text \<open>Its first flashblock is published and taken off the queue to node 1.\<close>

lemma line_sends:
  obtains nw where "line_step\<^sup>*\<^sup>* line_network nw"
    "encode (msg_codec number_codec spec_codecs) (FlashblocksPayloadMsg (wire_example 0 (Some default_base))) \<in> set (nw_wire nw 0 1)"
proof -
  let ?cod = "msg_codec number_codec spec_codecs" and ?fb = "wire_example 0 (Some default_base)"
  have left: "nw_left line_network = ?fb # [wire_example 1 None]"
    by (simp add: start_network_def line_payload_def)
  obtain st es where pub: "publish (encode ?cod) 0 (nw_state line_network 0) ?fb = (st, es)" by fastforce
  let ?nw = "spread lossy_channel line_links 0 st es (line_network\<lparr>nw_left := [wire_example 1 None]\<rparr>)"
  have first: "line_step line_network ?nw" by (rule net_step.publishes [OF left pub])
  have "holds_only line_payload (nw_state line_network 0)"
    using net_invD(1) [OF start_inv] .
  from publish_held(4) [OF line_publishable _ this pub]
  have "sent_to_peers es = [peer_msg (encode ?cod) ?fb]" by (simp add: line_payload_def start_network_def)
  then have rx: "nw_rx ?nw 0 1 = [Ok (peer_msg (encode ?cod) ?fb)]"
    by (simp add: spread_def lossy_channel_def BROADCAST_BUFFER_CAPACITY_def append_msgs_def start_network_def line_links_def)
  have "nw_conn ?nw 0 1 = new_connection" by (simp add: start_network_def)
  with first rx obtain mid where mid: "line_step line_network mid" "nw_rx mid 0 1 = [Ok (peer_msg (encode ?cod) ?fb)]"
    "nw_conn mid 0 1 = new_connection" by blast
  have take: "take_peer_msg (nw_conn mid 0 1) (nw_rx mid 0 1) = (Some (encode ?cod (FlashblocksPayloadMsg ?fb)), [])"
    unfolding mid(2,3) take_peer_msg_of by (simp add: received_from_def new_connection_def)
  have link: "line_links 0 1" by (simp add: line_links_def)
  show ?thesis
  proof (rule step_takes [where deliver = lossy_channel and links = line_links and nw = mid and b = 0 and a = 1 and cod = ?cod and origin = 0, OF link take])
    fix nw
    assume last_step: "line_step mid nw" and wire: "nw_wire nw = at_pair (nw_wire mid) 0 1
      (nw_wire mid 0 1 @ (case Some (encode ?cod (FlashblocksPayloadMsg ?fb)) of Some bytes \<Rightarrow> [bytes] | None \<Rightarrow> []))"
    have steps: "line_step\<^sup>*\<^sup>* line_network nw"
      by (rule rtranclp.rtrancl_into_rtrancl [OF r_into_rtranclp [of line_step, OF mid(1)] last_step])
    have "nw_wire nw 0 1 = nw_wire mid 0 1 @ [encode ?cod (FlashblocksPayloadMsg ?fb)]"
      by (simp only: wire at_pair_apply option.case simp_thms if_True)
    then show thesis by (intro that [OF steps]) (simp only: set_append list.set Un_iff insert_iff simp_thms)
  qed
qed

theorem honest_peers_unpenalised_witness:
  "\<exists>nw :: (nat, u64, bytes) network. \<exists>buf fb conn st es. line_step\<^sup>*\<^sup>* line_network nw \<and> buf \<in> set (nw_wire nw 0 1) \<and>
     fb \<in> set line_payload \<and> decode (msg_codec number_codec spec_codecs) buf = Ok (FlashblocksPayloadMsg fb, []) \<and>
     (handle_flashblocks_payload_v1 False (encode (msg_codec number_codec spec_codecs)) 0 (nw_conn nw 1 0) (nw_state nw 1) fb
       :: (unit, _) result) = Ok (conn, st, map Published es)"
proof -
  obtain nw where nw: "line_step\<^sup>*\<^sup>* line_network nw"
    "encode (msg_codec number_codec spec_codecs) (FlashblocksPayloadMsg (wire_example 0 (Some default_base))) \<in> set (nw_wire nw 0 1)"
    by (rule line_sends)
  from honest_peers_unpenalised [OF line_facts this, where ?'e = unit and now = 0] nw show ?thesis by blast
qed

theorem network_delivers_witness:
  "\<exists>nw. line_step\<^sup>*\<^sup>* line_network nw \<and> nw_stream nw 2 = line_payload"
proof -
  obtain nw where nw: "line_step\<^sup>*\<^sup>* line_network nw"
    "at_rest lossy_channel (msg_codec number_codec spec_codecs) line_links 0 nw"
    using reaches_rest [OF line_facts line_links_finite rtranclp.rtrancl_refl] by blast
  with network_delivers [OF line_facts nw line_reaches] show ?thesis by blast
qed

text \<open>A poll that drops a queue item, handles a message and relays it.\<close>

definition polled_network :: "(nat, unit, unit) network" where
  "polled_network = (start_network [])\<lparr>nw_rx := at_pair (\<lambda>_ _. []) 1 0 [Err ()], nw_wire := at_pair (\<lambda>_ _. []) 0 1 [[0]]\<rparr>"

lemma probe_published:
  "publish probe_bytes 0 default_p2p_state (probe 7 0) =
     (\<lparr>s_payload_id = 7, s_payload_timestamp = 0, s_flashblock_timestamp = 0, s_flashblock_index = 1,
        s_flashblocks = [Some (probe 7 0)]\<rparr>,
      [ToPeers (PeerFlashblocksPayload 7 0 [0]), ToStream (probe 7 0)])"
  by (simp add: publish_def track_payload_def default_p2p_state_def MAX_FLASHBLOCK_INDEX_def MAX_FRAME_def grow_to_def
      emit_ready.simps get_def probe_bytes_def) (simp add: probe_def default_metadata_def)

lemma polled_result:
  "poll_next False probe_codec append_msgs False False new_connection default_p2p_state [Err ()] [(0, [0])] =
     (Ok ((\<lparr>c_payload_id = 7, c_received = [True]\<rparr>, fst (publish probe_bytes 0 default_p2p_state (probe 7 0)), [], []),
       map Published (snd (publish probe_bytes 0 default_p2p_state (probe 7 0))), Pending False) :: (unit, _) result)"
proof -
  have "(handle_flashblocks_payload_v1 False probe_bytes 0 new_connection default_p2p_state (probe 7 0) :: (unit, _) result) =
      Ok (\<lparr>c_payload_id = 7, c_received = [True]\<rparr>, fst (publish probe_bytes 0 default_p2p_state (probe 7 0)),
        map Published (snd (publish probe_bytes 0 default_p2p_state (probe 7 0))))"
    by (simp add: handle_flashblocks_payload_v1_def track_peer_payload_def new_connection_def MAX_FLASHBLOCK_INDEX_def
        grow_to_def split_beta)
  then show ?thesis
    by (subst poll_next.simps) (simp add: probe_codec_def poll_next.simps [where inbox = "[]"] probe_published append_msgs_def get_def)
qed

theorem poll_next_is_net_steps_witness:
  "\<exists>nw'. (net_step append_msgs probe_codec line_links 0)\<^sup>*\<^sup>* polled_network nw' \<and> nw_stream nw' 1 = [probe 7 0]"
proof -
  have links: "line_links 0 1" "line_links 1 0" "(0 :: nat) \<noteq> 1" by (simp_all add: line_links_def)
  have at: "nw_wire polled_network 0 1 = map snd [(0 :: i64, [0])] @ []" "nw_conn polled_network 1 0 = new_connection"
    "nw_state polled_network 1 = default_p2p_state" "nw_rx polled_network 1 0 = [Err ()]" "nw_stream polled_network 1 = []"
    by (simp_all add: polled_network_def start_network_def at_pair_apply)
  from poll_next_is_net_steps [where links = line_links and origin = 0, OF links at(1) polled_result [folded at(2-4)]]
  show ?thesis by (simp add: penalties_def probe_published at del: One_nat_def) blast
qed

end
