(* ===== verification/Wakeups.thy ===== *)
theory Wakeups
  imports Connection
begin

text \<open>
  The task that polls a connection, \<open>poll_next\<close> of \<^verbatim>\<open>src/flashblocks/connection.rs\<close>, and what wakes it. A task is
  polled only after it was woken. The streams that \<open>poll_next\<close> reads follow the contract of polling: one that is
  pending keeps the waker of the task, and wakes the task once, when something comes in. So a broadcast message
  wakes the task only if the last poll found the queue \<open>peer_rx\<close> pending, which is what \<open>Pending True\<close> records.
\<close>

section \<open>The task\<close>

text \<open>
  The connection with its shared state, its queue and what has arrived from the peer; whether the queue holds the
  task's waker, whether the task has been woken, whether its stream goes on; and the bytes sent to the peer.
\<close>

record ('w, 'b) conn_task =
  k_conn :: FlashblocksConnection
  k_state :: "('w, 'b) FlashblocksP2PState"
  k_rx :: peer_queue
  k_inbox :: "(i64 \<times> bytes) list"
  k_armed :: bool
  k_woken :: bool
  k_open :: bool
  k_sent :: "bytes list"

text \<open>A message is broadcast, bytes of the peer arrive, something else wakes the task, or the task gets its turn.\<close>

datatype task_event = Broadcasts PeerMsg | Arrives "i64 \<times> bytes" | Nudges | Turn

text \<open>
  A turn of a task that was woken is a poll. The task stays awake when it got bytes to send, since it then polls again,
  and when a flashblock was sent on during the poll, since that goes to its own queue as well.
\<close>

definition turn ::
  "(FlashblockMetadata, 'w, 'b) FlashblocksP2PMsg codec \<Rightarrow> (peer_queue \<Rightarrow> PeerMsg list \<Rightarrow> peer_queue) \<Rightarrow>
     ('w, 'b) conn_task \<Rightarrow> ('w, 'b) conn_task" where
  "turn cod deliver s =
     (if \<not> k_woken s \<or> \<not> k_open s then s
      else case poll_next False cod deliver False False (k_conn s) (k_state s) (k_rx s) (k_inbox s) :: (unit, _) result of
        Ok ((conn, st, rx, inbox), es, res) \<Rightarrow>
          s\<lparr>k_conn := conn, k_state := st, k_rx := rx, k_inbox := inbox, k_armed := (res = Pending True),
            k_woken := (case res of Pending _ \<Rightarrow> sent_to_peers (published es) \<noteq> [] | Ready out \<Rightarrow> out \<noteq> None),
            k_open := (res \<noteq> Ready None),
            k_sent := k_sent s @ (case res of Ready (Some bytes) \<Rightarrow> [bytes] | _ \<Rightarrow> [])\<rparr>
      | _ \<Rightarrow> s\<lparr>k_open := False\<rparr>)"

fun on_event ::
  "(FlashblockMetadata, 'w, 'b) FlashblocksP2PMsg codec \<Rightarrow> (peer_queue \<Rightarrow> PeerMsg list \<Rightarrow> peer_queue) \<Rightarrow>
     ('w, 'b) conn_task \<Rightarrow> task_event \<Rightarrow> ('w, 'b) conn_task" where
  "on_event cod deliver s (Broadcasts m) =
     s\<lparr>k_rx := deliver (k_rx s) [m], k_woken := (k_woken s \<or> k_armed s), k_armed := False\<rparr>"
| "on_event cod deliver s (Arrives i) = s\<lparr>k_inbox := k_inbox s @ [i], k_woken := True\<rparr>"
| "on_event cod deliver s Nudges = s\<lparr>k_woken := True\<rparr>"
| "on_event cod deliver s Turn = turn cod deliver s"

abbreviation task_events ::
  "(FlashblockMetadata, 'w, 'b) FlashblocksP2PMsg codec \<Rightarrow> (peer_queue \<Rightarrow> PeerMsg list \<Rightarrow> peer_queue) \<Rightarrow>
     ('w, 'b) conn_task \<Rightarrow> task_event list \<Rightarrow> ('w, 'b) conn_task" where
  "task_events cod deliver \<equiv> foldl (on_event cod deliver)"

text \<open>The messages among the events.\<close>

fun broadcasts :: "task_event list \<Rightarrow> PeerMsg list" where
  "broadcasts [] = []"
| "broadcasts (Broadcasts m # es) = m # broadcasts es"
| "broadcasts (e # es) = broadcasts es"

section \<open>A turn without messages of the peer\<close>

lemma turn_idle:
  assumes "k_woken s" and "k_open s" and "k_inbox s = []" and "take_peer_msg (k_conn s) (k_rx s) = (None, rx)"
  shows "turn cod deliver s = s\<lparr>k_rx := rx, k_armed := (k_rx s = []), k_woken := False\<rparr>"
  using assms by (simp add: turn_def poll_next.simps [where inbox = "[]"])

lemma turn_sends:
  assumes "k_woken s" and "k_open s" and "take_peer_msg (k_conn s) (k_rx s) = (Some bytes, rx)"
  shows "turn cod deliver s = s\<lparr>k_rx := rx, k_armed := False, k_sent := k_sent s @ [bytes]\<rparr>"
  using assms by (cases "k_inbox s") (simp_all add: turn_def poll_next.simps [where inbox = "_ # _"] poll_next.simps [where inbox = "[]"])

lemma turn_asleep: "\<not> k_woken s \<Longrightarrow> turn cod deliver s = s"
  by (simp add: turn_def)

text \<open>A task that sleeps while the queue does not hold its waker sleeps through every broadcast.\<close>

lemma sleeps_on:
  assumes "\<not> k_woken s" and "\<not> k_armed s" and "set es \<subseteq> insert Turn (range Broadcasts)"
  shows "task_events cod deliver s es = s\<lparr>k_rx := foldl (\<lambda>rx m. deliver rx [m]) (k_rx s) (broadcasts es)\<rparr>"
  using assms
proof (induction es arbitrary: s)
  case (Cons e es)
  then consider m where "e = Broadcasts m" | "e = Turn" by auto
  then show ?case
  proof cases
    case 1
    with Cons.prems Cons.IH [of "on_event cod deliver s e"] show ?thesis by simp
  next
    case 2
    with Cons.prems Cons.IH [of s] show ?thesis by (simp add: turn_asleep)
  qed
qed simp

section \<open>A lost wakeup\<close>

text \<open>
  C40: Which turns of a connection's task lose a wakeup. Let the task be awake with no bytes of the peer to handle and
  with nothing to send at the head of its queue. If the queue is empty, the turn is safe: the next message that is
  broadcast wakes the task, and its next turn sends it (unless it is an echo). But if the turn drops an item, an echo
  of the peer's or the error of a receiver that lagged, \<open>poll_next\<close> does not look at the queue again before it
  returns pending, and the queue does not hold the waker: however many messages are broadcast and however many turns
  the task gets, it sleeps, nothing is sent, and the items behind the dropped one and all later ones stay in the
  queue. Only bytes of the peer or some other cause wake it; then what waited is sent.
\<close>

theorem dropped_item_loses_wakeup:
  fixes s :: "('w, 'b) conn_task"
  assumes "k_woken s" and "k_open s" and "k_inbox s = []" and "take_peer_msg (k_conn s) (k_rx s) = (None, rx)"
  shows "(k_rx s = [] \<longrightarrow>
      (\<forall>m bytes rest. take_peer_msg (k_conn s) (deliver [] [m]) = (Some bytes, rest) \<longrightarrow>
         k_sent (task_events cod deliver s [Turn, Broadcasts m, Turn]) = k_sent s @ [bytes])) \<and>
    (k_rx s \<noteq> [] \<longrightarrow>
      (\<forall>es. set es \<subseteq> insert Turn (range Broadcasts) \<longrightarrow>
         (let t = task_events cod deliver s (Turn # es) in
          \<not> k_woken t \<and> k_sent t = k_sent s \<and> k_rx t = foldl (\<lambda>rx m. deliver rx [m]) rx (broadcasts es) \<and>
          (\<forall>bytes rest. take_peer_msg (k_conn s) (k_rx t) = (Some bytes, rest) \<longrightarrow>
             k_sent (task_events cod deliver t [Nudges, Turn]) = k_sent s @ [bytes]))))"
proof (intro conjI impI allI)
  fix m bytes rest
  assume "k_rx s = []" and "take_peer_msg (k_conn s) (deliver [] [m]) = (Some bytes, rest)"
  with assms show "k_sent (task_events cod deliver s [Turn, Broadcasts m, Turn]) = k_sent s @ [bytes]"
    by (simp add: turn_idle turn_sends)
next
  fix es :: "task_event list"
  assume "k_rx s \<noteq> []" and es: "set es \<subseteq> insert Turn (range Broadcasts)"
  with assms have "turn cod deliver s = s\<lparr>k_rx := rx, k_armed := False, k_woken := False\<rparr>" by (simp add: turn_idle)
  then have "task_events cod deliver s (Turn # es) =
      s\<lparr>k_armed := False, k_woken := False, k_rx := foldl (\<lambda>rx m. deliver rx [m]) rx (broadcasts es)\<rparr>"
    using sleeps_on [OF _ _ es, of "s\<lparr>k_rx := rx, k_armed := False, k_woken := False\<rparr>" cod deliver] by simp
  with assms show "let t = task_events cod deliver s (Turn # es) in
      \<not> k_woken t \<and> k_sent t = k_sent s \<and> k_rx t = foldl (\<lambda>rx m. deliver rx [m]) rx (broadcasts es) \<and>
      (\<forall>bytes rest. take_peer_msg (k_conn s) (k_rx t) = (Some bytes, rest) \<longrightarrow>
         k_sent (task_events cod deliver t [Nudges, Turn]) = k_sent s @ [bytes])"
    by (auto simp: Let_def turn_sends)
qed

definition lagged_task :: "(unit, unit) conn_task" where
  "lagged_task = \<lparr>k_conn = new_connection, k_state = default_p2p_state, k_rx = [Err (), Ok (PeerFlashblocksPayload 7 0 [1])],
     k_inbox = [], k_armed = False, k_woken = True, k_open = True, k_sent = []\<rparr>"

text \<open>Behind a lag error a message waits, and so does the next one; when something else wakes the task it goes out.\<close>

theorem dropped_item_loses_wakeup_witness:
  "let events = [Turn, Broadcasts (PeerFlashblocksPayload 7 1 [2]), Turn, Turn];
       t = task_events probe_codec append_msgs lagged_task events in
   k_sent t = [] \<and> k_rx t = [Ok (PeerFlashblocksPayload 7 0 [1]), Ok (PeerFlashblocksPayload 7 1 [2])] \<and>
   k_sent (task_events probe_codec append_msgs t [Nudges, Turn]) = [[1]]"
proof -
  let ?es = "[Broadcasts (PeerFlashblocksPayload 7 1 [2]), Turn, Turn]"
  have task: "k_woken lagged_task" "k_open lagged_task" "k_inbox lagged_task = []"
    "take_peer_msg (k_conn lagged_task) (k_rx lagged_task) = (None, [Ok (PeerFlashblocksPayload 7 0 [1])])"
    "k_rx lagged_task \<noteq> []" "k_sent lagged_task = []" "k_conn lagged_task = new_connection"
    by (simp_all add: lagged_task_def)
  have "set ?es \<subseteq> insert Turn (range Broadcasts)" by simp
  define t where "t = task_events probe_codec append_msgs lagged_task (Turn # ?es)"
  from dropped_item_loses_wakeup [OF task(1-4), of append_msgs probe_codec] task(5) \<open>set ?es \<subseteq> _\<close>
  have t: "k_sent t = k_sent lagged_task \<and>
      k_rx t = foldl (\<lambda>rx m. append_msgs rx [m]) [Ok (PeerFlashblocksPayload 7 0 [1])] (broadcasts ?es) \<and>
      (\<forall>bytes rest. take_peer_msg (k_conn lagged_task) (k_rx t) = (Some bytes, rest) \<longrightarrow>
         k_sent (task_events probe_codec append_msgs t [Nudges, Turn]) = k_sent lagged_task @ [bytes])"
    unfolding t_def Let_def by blast
  then have rx: "k_rx t = [Ok (PeerFlashblocksPayload 7 0 [1]), Ok (PeerFlashblocksPayload 7 1 [2])]"
    by (simp add: append_msgs_def)
  then have "take_peer_msg (k_conn lagged_task) (k_rx t) = (Some [1], [Ok (PeerFlashblocksPayload 7 1 [2])])"
    by (simp add: task(7) new_connection_def)
  with t rx show ?thesis unfolding Let_def t_def [symmetric] by (simp only: task(6) append_Nil simp_thms)
qed

end
