(* ===== verification/Overlap.thy ===== *)
theory Overlap
  imports Network
begin

text \<open>
  A network in which two payloads overlap: the publisher starts the next payload while a flashblock of the
  last one is still under way. The tasks of a node run as the code runs them: a publication, or \<open>poll_next\<close>
  on a connection with everything that has arrived from the peer, again and again until it is pending.
\<close>

section \<open>Tasks\<close>

datatype 'n task = Publishes | Drains 'n 'n

definition broadcast :: "'n \<Rightarrow> PeerMsg list \<Rightarrow> 'n list \<Rightarrow> ('n \<Rightarrow> 'n \<Rightarrow> peer_queue) \<Rightarrow> 'n \<Rightarrow> 'n \<Rightarrow> peer_queue" where
  "broadcast a ms ys rx = foldr (\<lambda>y rx. at_pair rx a y (append_msgs (rx a y) ms)) ys rx"

text \<open>One call of \<open>poll_next\<close> at \<open>b\<close> with peer \<open>a\<close>, of whose messages \<open>k\<close> are ready; the nodes have lists of peers.\<close>

definition poll_once ::
  "(FlashblockMetadata, 'w, 'b) FlashblocksP2PMsg codec \<Rightarrow> ('n \<Rightarrow> 'n list) \<Rightarrow> 'n \<Rightarrow> 'n \<Rightarrow> nat \<Rightarrow> ('n, 'w, 'b) network \<Rightarrow>
     (('n, 'w, 'b) network \<times> ('w, 'b) conn_effect list \<times> poll \<times> nat) option" where
  "poll_once cod peers b a k nw =
     (case poll_next False cod append_msgs False False (nw_conn nw b a) (nw_state nw b) (nw_rx nw b a)
         (map (Pair 0) (take k (nw_wire nw a b))) :: (unit, _) result of
        Ok ((conn, st, rx, inbox), es, res) \<Rightarrow>
          Some (nw\<lparr>nw_conn := at_pair (nw_conn nw) b a conn, nw_state := (nw_state nw)(b := st),
             nw_rx := at_pair (broadcast b (sent_to_peers (published es)) (removeAll a (peers b)) (nw_rx nw)) b a rx,
             nw_wire := at_pair (at_pair (nw_wire nw) a b (map snd inbox @ drop k (nw_wire nw a b))) b a
               (nw_wire nw b a @ (case res of Ready (Some bytes) \<Rightarrow> [bytes] | _ \<Rightarrow> [])),
             nw_stream := (nw_stream nw)(b := nw_stream nw b @ streamed (published es))\<rparr>, es, res, length inbox)
      | _ \<Rightarrow> None)"

text \<open>Every call that returns bytes takes an item off the queue, so that the calls are no more than there are items.\<close>

fun drain ::
  "nat \<Rightarrow> (FlashblockMetadata, 'w, 'b) FlashblocksP2PMsg codec \<Rightarrow> ('n \<Rightarrow> 'n list) \<Rightarrow> 'n \<Rightarrow> 'n \<Rightarrow> nat \<Rightarrow> ('n, 'w, 'b) network \<Rightarrow>
     (('n, 'w, 'b) network \<times> ('w, 'b) conn_effect list) option" where
  "drain 0 cod peers b a k nw = None"
| "drain (Suc fuel) cod peers b a k nw =
     (case poll_once cod peers b a k nw of
        None \<Rightarrow> None
      | Some (nw, es, Ready (Some bytes), k) \<Rightarrow> map_option (\<lambda>(nw, es'). (nw, es @ es')) (drain fuel cod peers b a k nw)
      | Some (nw, es, _, _) \<Rightarrow> Some (nw, es))"

fun run_task ::
  "(FlashblockMetadata, 'w, 'b) FlashblocksP2PMsg codec \<Rightarrow> ('n \<Rightarrow> 'n list) \<Rightarrow> 'n \<Rightarrow> 'n task \<Rightarrow> ('n, 'w, 'b) network \<Rightarrow>
     (('n, 'w, 'b) network \<times> ('w, 'b) conn_effect list) option" where
  "run_task cod peers origin Publishes nw =
     (case nw_left nw of [] \<Rightarrow> None
      | fb # rest \<Rightarrow>
          (let (st, es) = publish (encode cod) 0 (nw_state nw origin) fb
           in Some (nw\<lparr>nw_left := rest, nw_state := (nw_state nw)(origin := st),
                nw_rx := broadcast origin (sent_to_peers es) (peers origin) (nw_rx nw),
                nw_stream := (nw_stream nw)(origin := nw_stream nw origin @ streamed es)\<rparr>, [])))"
| "run_task cod peers origin (Drains b a) nw =
     drain (Suc (length (nw_rx nw b a) + length (nw_wire nw a b))) cod peers b a (length (nw_wire nw a b)) nw"

fun run_tasks ::
  "(FlashblockMetadata, 'w, 'b) FlashblocksP2PMsg codec \<Rightarrow> ('n \<Rightarrow> 'n list) \<Rightarrow> 'n \<Rightarrow> 'n task list \<Rightarrow> ('n, 'w, 'b) network \<Rightarrow>
     (('n, 'w, 'b) network \<times> ('w, 'b) conn_effect list) option" where
  "run_tasks cod peers origin [] nw = Some (nw, [])"
| "run_tasks cod peers origin (t # ts) nw =
     (case run_task cod peers origin t nw of
        None \<Rightarrow> None
      | Some (nw, es) \<Rightarrow> map_option (\<lambda>(nw, es'). (nw, es @ es')) (run_tasks cod peers origin ts nw))"

section \<open>The tasks are steps of the network\<close>

abbreviation linked :: "('n \<Rightarrow> 'n list) \<Rightarrow> 'n \<Rightarrow> 'n \<Rightarrow> bool" where
  "linked peers a b \<equiv> b \<in> set (peers a)"

fun task_ok :: "('n \<Rightarrow> 'n list) \<Rightarrow> 'n task \<Rightarrow> bool" where
  "task_ok peers Publishes = True"
| "task_ok peers (Drains b a) = (linked peers a b \<and> linked peers b a \<and> a \<noteq> b)"

lemma broadcast_apply:
  assumes "distinct ys"
  shows "broadcast a ms ys rx x y = (if x = a \<and> y \<in> set ys then append_msgs (rx x y) ms else rx x y)"
  using assms by (induction ys) (auto simp: broadcast_def at_pair_apply)

lemma poll_once_steps:
  assumes "poll_once cod peers b a k nw = Some (nw', es, res, k')" and "task_ok peers (Drains b a)"
    and "\<And>a. distinct (peers a)" and "penalties BadMessage es = 0"
  shows "(net_step append_msgs cod (linked peers) origin)\<^sup>*\<^sup>* nw nw'"
proof -
  obtain conn st rx inbox where poll: "poll_next False cod append_msgs False False (nw_conn nw b a) (nw_state nw b)
      (nw_rx nw b a) (map (Pair 0) (take k (nw_wire nw a b))) = (Ok ((conn, st, rx, inbox), es, res) :: (unit, _) result)"
    and nw': "nw' = nw\<lparr>nw_conn := at_pair (nw_conn nw) b a conn, nw_state := (nw_state nw)(b := st),
        nw_rx := at_pair (broadcast b (sent_to_peers (published es)) (removeAll a (peers b)) (nw_rx nw)) b a rx,
        nw_wire := at_pair (at_pair (nw_wire nw) a b (map snd inbox @ drop k (nw_wire nw a b))) b a
          (nw_wire nw b a @ (case res of Ready (Some bytes) \<Rightarrow> [bytes] | _ \<Rightarrow> [])),
        nw_stream := (nw_stream nw)(b := nw_stream nw b @ streamed (published es))\<rparr>"
    using assms(1) by (auto simp: poll_once_def split: result.splits prod.splits)
  have links: "linked peers a b" "linked peers b a" "a \<noteq> b" using assms(2) by simp_all
  have "nw_wire nw a b = map snd (map (Pair (0 :: i64)) (take k (nw_wire nw a b))) @ drop k (nw_wire nw a b)"
    by (simp add: comp_def)
  from poll_reaches [where origin = origin, OF links this poll assms(4)]
  have "(net_step append_msgs cod (linked peers) origin)\<^sup>*\<^sup>* nw
      (after_poll append_msgs (linked peers) b a conn st rx (map snd inbox @ drop k (nw_wire nw a b)) es res nw)" .
  moreover have "after_poll append_msgs (linked peers) b a conn st rx (map snd inbox @ drop k (nw_wire nw a b)) es res nw = nw'"
    unfolding nw' using links(3) assms(3) [of b]
    by (intro network.equality) (auto simp: after_poll_def fun_eq_iff at_pair_apply broadcast_apply distinct_removeAll)
  ultimately show ?thesis by simp
qed

lemma drain_steps:
  assumes "drain fuel cod peers b a k nw = Some (nw', es)" and "task_ok peers (Drains b a)"
    and "\<And>a. distinct (peers a)" and "penalties BadMessage es = 0"
  shows "(net_step append_msgs cod (linked peers) origin)\<^sup>*\<^sup>* nw nw'"
  using assms(1,4)
proof (induction fuel arbitrary: k nw es)
  case (Suc fuel)
  obtain mid es1 res k' where poll: "poll_once cod peers b a k nw = Some (mid, es1, res, k')"
    using Suc.prems(1) by (auto split: option.splits)
  note step = poll_once_steps [OF poll assms(2,3)]
  consider bytes es2 where "res = Ready (Some bytes)" "drain fuel cod peers b a k' mid = Some (nw', es2)" "es = es1 @ es2"
    | "nw' = mid" "es = es1"
    using Suc.prems(1) poll by (auto split: option.splits poll.splits)
  then show ?case
  proof cases
    case 1
    then have "penalties BadMessage es1 = 0" "penalties BadMessage es2 = 0" using Suc.prems(2) by (simp_all add: penalties_def)
    with step Suc.IH [OF 1(2)] show ?thesis by (meson rtranclp_trans)
  next
    case 2
    with step Suc.prems(2) show ?thesis by simp
  qed
qed simp

lemma run_task_steps:
  assumes "run_task cod peers origin t nw = Some (nw', es)" and "task_ok peers t" and "\<And>a. distinct (peers a)"
    and "penalties BadMessage es = 0"
  shows "(net_step append_msgs cod (linked peers) origin)\<^sup>*\<^sup>* nw nw'"
proof (cases t)
  case Publishes
  then obtain fb rest st out where left: "nw_left nw = fb # rest"
    and pub: "publish (encode cod) 0 (nw_state nw origin) fb = (st, out)"
    and nw': "nw' = nw\<lparr>nw_left := rest, nw_state := (nw_state nw)(origin := st),
        nw_rx := broadcast origin (sent_to_peers out) (peers origin) (nw_rx nw),
        nw_stream := (nw_stream nw)(origin := nw_stream nw origin @ streamed out)\<rparr>"
    using assms(1) by (auto split: list.splits prod.splits)
  have "nw' = spread append_msgs (linked peers) origin st out (nw\<lparr>nw_left := rest\<rparr>)"
    unfolding nw' by (intro network.equality) (auto simp: spread_def broadcast_apply [OF assms(3)] fun_eq_iff)
  with net_step.publishes [OF left pub] show ?thesis by (metis r_into_rtranclp)
qed (use assms drain_steps in \<open>fastforce simp del: drain.simps\<close>)

lemma run_tasks_steps:
  assumes "run_tasks cod peers origin ts nw = Some (nw', es)" and "\<And>t. t \<in> set ts \<Longrightarrow> task_ok peers t"
    and "\<And>a. distinct (peers a)" and "penalties BadMessage es = 0"
  shows "(net_step append_msgs cod (linked peers) origin)\<^sup>*\<^sup>* nw nw'"
  using assms(1,2,4)
proof (induction ts arbitrary: nw es)
  case (Cons t ts)
  obtain mid es1 es2 where t: "run_task cod peers origin t nw = Some (mid, es1)"
    and ts: "run_tasks cod peers origin ts mid = Some (nw', es2)" and es: "es = es1 @ es2"
    using Cons.prems(1) by (auto split: option.splits)
  have "penalties BadMessage es1 = 0" "penalties BadMessage es2 = 0" using Cons.prems(3) es by (simp_all add: penalties_def)
  with run_task_steps [OF t _ assms(3)] Cons.IH [OF ts] Cons.prems(2) show ?case by (meson list.set_intros rtranclp_trans)
qed simp

lemma run_tasks_append:
  "run_tasks cod peers origin (ts @ us) nw =
     (case run_tasks cod peers origin ts nw of
        None \<Rightarrow> None
      | Some (nw, es) \<Rightarrow> map_option (\<lambda>(nw, es'). (nw, es @ es')) (run_tasks cod peers origin us nw))"
  by (induction ts arbitrary: nw) (auto simp: option.map_comp comp_def case_prod_unfold option.map_ident split: option.splits)

text \<open>A network with nothing left to publish, queued or under way is at rest.\<close>

lemma quiet_at_rest:
  assumes "nw_left nw = []" and "\<And>a b. links a b \<Longrightarrow> nw_rx nw a b = [] \<and> nw_wire nw a b = []"
  shows "at_rest deliver cod links origin nw"
  unfolding at_rest_def
proof (intro allI impI)
  fix nw'
  assume "net_step deliver cod links origin nw nw'"
  then show "nw' = nw"
  proof (cases rule: net_step.cases)
    case (takes a b out rx)
    with assms(2) [OF takes(2)] show ?thesis
      by (intro network.equality) (auto simp: fun_eq_iff at_pair_apply)
  qed (use assms in auto)
qed

section \<open>Three nodes that are all connected\<close>

definition triangle :: "nat \<Rightarrow> nat list" where
  "triangle a = (if a = 0 then [1, 2] else if a = 1 then [0, 2] else if a = 2 then [0, 1] else [])"

lemma triangle_linked: "linked triangle a b \<longleftrightarrow> a \<noteq> b \<and> a \<in> {0, 1, 2} \<and> b \<in> {0, 1, 2}"
  by (auto simp: triangle_def)

lemma triangle_distinct: "distinct (triangle a)"
  by (simp add: triangle_def)

text \<open>The flashblock \<open>A\<close> of one payload and the first two flashblocks \<open>B\<close> and \<open>C\<close> of the next one.\<close>

definition overlapping ::
  "(FlashblockMetadata, 'w, 'b) FlashblocksP2PMsg codec \<Rightarrow> ('w, 'b) flashblock \<Rightarrow> ('w, 'b) flashblock \<Rightarrow> ('w, 'b) flashblock \<Rightarrow> bool" where
  "overlapping cod A B C \<longleftrightarrow> p_payload_id A \<noteq> 0 \<and> p_payload_id B \<noteq> 0 \<and> p_payload_id A \<noteq> p_payload_id B \<and>
     p_payload_id C = p_payload_id B \<and> p_index A = 0 \<and> p_index B = 0 \<and> p_index C = 1 \<and>
     (\<forall>fb \<in> {A, B, C}. \<not> MAX_FRAME < length (encode cod (FlashblocksPayloadMsg fb)) \<and>
        decode cod (encode cod (FlashblocksPayloadMsg fb)) = Ok (FlashblocksPayloadMsg fb, []))"

lemma overlappingI:
  assumes "rlp_codec cod valid" and "\<And>fb. fb \<in> {A, B, C} \<Longrightarrow> valid (FlashblocksPayloadMsg fb) \<and>
      length (encode cod (FlashblocksPayloadMsg fb)) \<le> MAX_FRAME"
    and "p_payload_id A \<noteq> 0" and "p_payload_id B \<noteq> 0" and "p_payload_id A \<noteq> p_payload_id B" and "p_payload_id C = p_payload_id B"
    and "p_index A = 0" and "p_index B = 0" and "p_index C = 1"
  shows "overlapping cod A B C"
  using assms(2-9) rlp_codec.decode_encode_all [OF assms(1)] by (auto simp: overlapping_def not_less)

text \<open>The same as equations that evaluate the tasks.\<close>

definition overlap_facts ::
  "(FlashblockMetadata, 'w, 'b) FlashblocksP2PMsg codec \<Rightarrow> ('w, 'b) flashblock \<Rightarrow> ('w, 'b) flashblock \<Rightarrow> ('w, 'b) flashblock \<Rightarrow>
     payload_id \<Rightarrow> payload_id \<Rightarrow> bytes \<Rightarrow> bytes \<Rightarrow> bytes \<Rightarrow> bool" where
  "overlap_facts cod A B C p q bA bB bC \<longleftrightarrow>
     p_payload_id A = p \<and> p_payload_id B = q \<and> p_payload_id C = q \<and> p_index A = 0 \<and> p_index B = 0 \<and> p_index C = 1 \<and>
     encode cod (FlashblocksPayloadMsg A) = bA \<and> encode cod (FlashblocksPayloadMsg B) = bB \<and>
     encode cod (FlashblocksPayloadMsg C) = bC \<and>
     \<not> MAX_FRAME < length bA \<and> \<not> MAX_FRAME < length bB \<and> \<not> MAX_FRAME < length bC \<and>
     decode cod bA = Ok (FlashblocksPayloadMsg A, []) \<and> decode cod bB = Ok (FlashblocksPayloadMsg B, []) \<and>
     decode cod bC = Ok (FlashblocksPayloadMsg C, []) \<and> p \<noteq> 0 \<and> q \<noteq> 0 \<and> p \<noteq> q \<and> q \<noteq> p"

lemma overlapping_facts:
  assumes "overlapping cod A B C"
  obtains p q bA bB bC where "overlap_facts cod A B C p q bA bB bC"
  by (rule that [of "p_payload_id A" "p_payload_id B" "encode cod (FlashblocksPayloadMsg A)"
        "encode cod (FlashblocksPayloadMsg B)" "encode cod (FlashblocksPayloadMsg C)"])
    (use assms in \<open>auto simp: overlap_facts_def overlapping_def\<close>)

lemmas task_simps = poll_once_def start_network_def default_p2p_state_def new_connection_def publish_def
  track_payload_def track_peer_payload_def handle_flashblocks_payload_v1_def MAX_FLASHBLOCK_INDEX_def grow_to_def get_def
  emit_ready.simps poll_next.simps broadcast_def at_pair_def triangle_def append_msgs_def Let_def

section \<open>A payload that stops\<close>

definition stopping_schedule :: "nat task list" where
  "stopping_schedule = [Publishes, Drains 0 2, Drains 2 0, Drains 2 1, Drains 1 2, Drains 1 0, Publishes, Drains 0 1, Publishes,
     Drains 1 0, Drains 1 2, Drains 2 1, Drains 0 2, Drains 2 0, Drains 0 2, Drains 2 1, Drains 1 2, Drains 1 0, Drains 0 1, Drains 1 0]"

lemma stopping_run:
  assumes "overlapping cod A B C"
  shows "case run_tasks cod triangle 0 stopping_schedule (start_network [A, B, C]) of None \<Rightarrow> False
    | Some (nw, es) \<Rightarrow> nw_left nw = [] \<and> (\<forall>a b. linked triangle a b \<longrightarrow> nw_rx nw a b = [] \<and> nw_wire nw a b = []) \<and>
        nw_stream nw 0 = [A, B, A, B, C] \<and> nw_stream nw 1 = [A, B, C] \<and> nw_stream nw 2 = [A, B, A] \<and>
        penalties AlreadySeenTransaction es = 2 \<and> penalties BadMessage es = 0"
proof -
  obtain p q bA bB bC where facts: "overlap_facts cod A B C p q bA bB bC" using overlapping_facts [OF assms] .
  show ?thesis
    unfolding stopping_schedule_def
    by (simp add: task_simps facts [unfolded overlap_facts_def] penalties_def triangle_linked
        cong: if_weak_cong option.case_cong_weak)
qed

lemma stopping_tasks: "t \<in> set stopping_schedule \<Longrightarrow> task_ok triangle t"
  by (auto simp: stopping_schedule_def triangle_def)

text \<open>
  C9: Overlapping payloads stop a stream. Three connected nodes that all follow the protocol, and a
  publisher that sends one flashblock of a payload and two of the next. There is a run of the nodes, in which every
  call of \<open>poll_next\<close> finds all that has arrived, after which the network is at rest, everything was
  published, sent and handled, and yet the stream of a node ends before the second flashblock of the new payload: it
  has the first payload twice. Two messages cost a peer reputation that followed the protocol.
\<close>

theorem overlapping_payloads_stop:
  assumes "rlp_codec cod valid" and "\<And>fb. fb \<in> {A, B, C} \<Longrightarrow> valid (FlashblocksPayloadMsg fb) \<and>
      length (encode cod (FlashblocksPayloadMsg fb)) \<le> MAX_FRAME"
    and "p_payload_id A \<noteq> 0" and "p_payload_id B \<noteq> 0" and "p_payload_id A \<noteq> p_payload_id B" and "p_payload_id C = p_payload_id B"
    and "p_index A = 0" and "p_index B = 0" and "p_index C = 1"
  shows "\<exists>nw es. run_tasks cod triangle 0 stopping_schedule (start_network [A, B, C]) = Some (nw, es) \<and>
    (net_step append_msgs cod (linked triangle) 0)\<^sup>*\<^sup>* (start_network [A, B, C]) nw \<and>
    at_rest append_msgs cod (linked triangle) 0 nw \<and>
    nw_stream nw 0 = [A, B, A, B, C] \<and> nw_stream nw 1 = [A, B, C] \<and> nw_stream nw 2 = [A, B, A] \<and>
    penalties AlreadySeenTransaction es = 2"
proof -
  obtain nw es where run: "run_tasks cod triangle 0 stopping_schedule (start_network [A, B, C]) = Some (nw, es)"
    and rest: "nw_left nw = []" "\<forall>a b. linked triangle a b \<longrightarrow> nw_rx nw a b = [] \<and> nw_wire nw a b = []"
    and streams: "nw_stream nw 0 = [A, B, A, B, C]" "nw_stream nw 1 = [A, B, C]" "nw_stream nw 2 = [A, B, A]"
    and penalties: "penalties AlreadySeenTransaction es = 2" "penalties BadMessage es = 0"
    using stopping_run [OF overlappingI [OF assms]] by (auto split: option.splits)
  have "at_rest append_msgs cod (linked triangle) 0 nw" using rest by (intro quiet_at_rest) blast+
  with run streams penalties run_tasks_steps [OF run stopping_tasks triangle_distinct] show ?thesis by blast
qed

section \<open>A payload that never stops\<close>

definition rolling_start :: "nat task list" where
  "rolling_start = [Publishes, Publishes, Drains 0 2, Drains 2 0, Publishes, Drains 2 1, Drains 0 1, Drains 1 2, Drains 1 0,
     Drains 0 1, Drains 1 2, Drains 1 2, Drains 2 1, Drains 2 0, Drains 0 2, Drains 0 1, Drains 1 0, Drains 2 0]"

text \<open>A round in which every connection of every node is polled until it is pending.\<close>

definition round_robin :: "nat task list" where
  "round_robin = [Drains 2 1, Drains 0 2, Drains 2 0, Drains 0 1, Drains 1 2, Drains 1 0]"

text \<open>The network in which the flashblocks go round.\<close>

definition rolling ::
  "(FlashblockMetadata, 'w, 'b) FlashblocksP2PMsg codec \<Rightarrow> ('w, 'b) flashblock \<Rightarrow> ('w, 'b) flashblock \<Rightarrow> ('w, 'b) flashblock \<Rightarrow>
     (nat, 'w, 'b) network \<Rightarrow> bool" where
  "rolling cod A B C nw \<longleftrightarrow> (
     let msg = (\<lambda>fb. Ok (PeerFlashblocksPayload (p_payload_id fb) (unat (p_index fb)) (encode cod (FlashblocksPayloadMsg fb))));
         conn = (\<lambda>received. \<lparr>c_payload_id = p_payload_id B, c_received = received\<rparr>);
         state = (\<lambda>first index fbs. \<lparr>s_payload_id = p_payload_id B,
           s_payload_timestamp = unwrap_or (m_flashblock_timestamp (p_metadata first)) 0, s_flashblock_timestamp = 0,
           s_flashblock_index = index, s_flashblocks = fbs\<rparr>)
     in nw_left nw = [] \<and>
       nw_state nw 0 = state C 0 [None, Some C] \<and> nw_state nw (Suc 0) = state C 0 [None, Some C] \<and> nw_state nw 2 = state B 1 [Some B, None] \<and>
       nw_conn nw 0 2 = conn [False, True] \<and> nw_conn nw 0 (Suc 0) = conn [True] \<and>
       nw_conn nw (Suc 0) 2 = conn [True] \<and> nw_conn nw (Suc 0) 0 = conn [False, True] \<and>
       nw_conn nw 2 (Suc 0) = conn [False, True] \<and> nw_conn nw 2 0 = conn [True, False] \<and>
       nw_rx nw 0 2 = [] \<and> nw_rx nw 0 (Suc 0) = [] \<and> nw_rx nw (Suc 0) 0 = [] \<and> nw_rx nw 2 0 = [] \<and>
       nw_rx nw (Suc 0) 2 = [msg A, msg C] \<and> nw_rx nw 2 (Suc 0) = [msg A, msg B] \<and>
       nw_wire nw 0 2 = [] \<and> nw_wire nw 0 (Suc 0) = [] \<and> nw_wire nw (Suc 0) 0 = [] \<and> nw_wire nw (Suc 0) 2 = [] \<and>
       nw_wire nw 2 0 = [] \<and> nw_wire nw 2 (Suc 0) = [])"

lemma rolling_starts:
  assumes "overlapping cod A B C"
  shows "case run_tasks cod triangle 0 rolling_start (start_network [A, B, C]) of None \<Rightarrow> False
    | Some (nw, es) \<Rightarrow> rolling cod A B C nw \<and> penalties AlreadySeenTransaction es = 0 \<and> penalties BadMessage es = 0"
proof -
  obtain p q bA bB bC where facts: "overlap_facts cod A B C p q bA bB bC" using overlapping_facts [OF assms] .
  show ?thesis
    unfolding rolling_start_def
    by (simp add: rolling_def task_simps facts [unfolded overlap_facts_def] penalties_def
        cong: if_weak_cong option.case_cong_weak)
qed

lemma rolling_goes_on:
  assumes "overlapping cod A B C" and "rolling cod A B C nw"
  shows "case run_tasks cod triangle 0 (round_robin @ round_robin @ round_robin) nw of None \<Rightarrow> False
    | Some (nw', es) \<Rightarrow> rolling cod A B C nw' \<and> penalties AlreadySeenTransaction es = 0 \<and> penalties BadMessage es = 0 \<and>
        nw_stream nw' 0 = nw_stream nw 0 @ [A, B, A] \<and> nw_stream nw' 1 = nw_stream nw 1 @ [A, B, A] \<and>
        nw_stream nw' 2 = nw_stream nw 2 @ [A, A, B]"
proof -
  obtain p q bA bB bC where facts: "overlap_facts cod A B C p q bA bB bC" using overlapping_facts [OF assms(1)] .
  note facts = facts [unfolded overlap_facts_def]
  note nw = assms(2) [unfolded rolling_def Let_def, simplified facts]
  show ?thesis
    unfolding round_robin_def
    by (simp add: rolling_def task_simps nw facts penalties_def cong: if_weak_cong option.case_cong_weak)
qed

lemma round_tasks: "t \<in> set rolling_start \<or> t \<in> set round_robin \<Longrightarrow> task_ok triangle t"
  by (auto simp: rolling_start_def round_robin_def triangle_def)

lemma rolling_forever:
  assumes "overlapping cod A B C" and "rolling cod A B C nw"
  shows "\<exists>nw' es. run_tasks cod triangle 0 (concat (replicate n (round_robin @ round_robin @ round_robin))) nw = Some (nw', es) \<and>
    rolling cod A B C nw' \<and> penalties AlreadySeenTransaction es = 0 \<and> penalties BadMessage es = 0 \<and>
    nw_stream nw' 0 = nw_stream nw 0 @ concat (replicate n [A, B, A]) \<and>
    nw_stream nw' 1 = nw_stream nw 1 @ concat (replicate n [A, B, A]) \<and>
    nw_stream nw' 2 = nw_stream nw 2 @ concat (replicate n [A, A, B])"
  using assms(2)
proof (induction n arbitrary: nw)
  case 0
  then show ?case by (simp add: penalties_def)
next
  case (Suc n)
  obtain mid es1 where mid: "run_tasks cod triangle 0 (round_robin @ round_robin @ round_robin) nw = Some (mid, es1)"
    "rolling cod A B C mid" "penalties AlreadySeenTransaction es1 = 0" "penalties BadMessage es1 = 0"
    "nw_stream mid 0 = nw_stream nw 0 @ [A, B, A]" "nw_stream mid 1 = nw_stream nw 1 @ [A, B, A]"
    "nw_stream mid 2 = nw_stream nw 2 @ [A, A, B]"
    using rolling_goes_on [OF assms(1) Suc.prems] by (auto split: option.splits)
  obtain nw' es2 where "run_tasks cod triangle 0 (concat (replicate n (round_robin @ round_robin @ round_robin))) mid = Some (nw', es2)"
    "rolling cod A B C nw'" "penalties AlreadySeenTransaction es2 = 0" "penalties BadMessage es2 = 0"
    "nw_stream nw' 0 = nw_stream mid 0 @ concat (replicate n [A, B, A])"
    "nw_stream nw' 1 = nw_stream mid 1 @ concat (replicate n [A, B, A])"
    "nw_stream nw' 2 = nw_stream mid 2 @ concat (replicate n [A, A, B])"
    using Suc.IH [OF mid(2)] by blast
  with mid show ?case
    by (simp add: run_tasks_append [of _ _ _ "round_robin @ round_robin @ round_robin"] penalties_def del: append_assoc)
qed

text \<open>
  C8: Overlapping payloads circulate for ever. Three connected nodes that all follow the protocol, and a
  publisher that sends one flashblock of a payload and two of the next, and then nothing more. There is a run of
  the nodes after which the flashblocks go round the network: in every round every connection of every node is polled until it
  is pending, with everything that has arrived, and three rounds later the network is as before, but the stream of
  every node has three flashblocks more, for ever, while no node penalises another. With a single payload a network comes
  to rest.
\<close>

theorem overlapping_payloads_circulate:
  assumes "rlp_codec cod valid" and "\<And>fb. fb \<in> {A, B, C} \<Longrightarrow> valid (FlashblocksPayloadMsg fb) \<and>
      length (encode cod (FlashblocksPayloadMsg fb)) \<le> MAX_FRAME"
    and "p_payload_id A \<noteq> 0" and "p_payload_id B \<noteq> 0" and "p_payload_id A \<noteq> p_payload_id B" and "p_payload_id C = p_payload_id B"
    and "p_index A = 0" and "p_index B = 0" and "p_index C = 1"
  shows "(\<forall>a b. linked triangle b a \<longleftrightarrow> Drains b a \<in> set round_robin) \<and>
    (\<exists>s0 s1 s2. \<forall>n. \<exists>nw es.
      run_tasks cod triangle 0 (rolling_start @ concat (replicate n (round_robin @ round_robin @ round_robin)))
        (start_network [A, B, C]) = Some (nw, es) \<and>
      (net_step append_msgs cod (linked triangle) 0)\<^sup>*\<^sup>* (start_network [A, B, C]) nw \<and> nw_left nw = [] \<and>
      nw_stream nw 0 = s0 @ concat (replicate n [A, B, A]) \<and> nw_stream nw 1 = s1 @ concat (replicate n [A, B, A]) \<and>
      nw_stream nw 2 = s2 @ concat (replicate n [A, A, B]) \<and> penalties AlreadySeenTransaction es = 0)"
proof -
  have all: "linked triangle b a \<longleftrightarrow> Drains b a \<in> set round_robin" for a b
    by (auto simp: triangle_linked round_robin_def)
  have ov: "overlapping cod A B C" by (rule overlappingI [OF assms])
  obtain nw0 es0 where start: "run_tasks cod triangle 0 rolling_start (start_network [A, B, C]) = Some (nw0, es0)"
    "rolling cod A B C nw0" "penalties AlreadySeenTransaction es0 = 0" "penalties BadMessage es0 = 0"
    using rolling_starts [OF ov] by (auto split: option.splits)
  have "\<exists>nw es. run_tasks cod triangle 0 (rolling_start @ concat (replicate n (round_robin @ round_robin @ round_robin)))
        (start_network [A, B, C]) = Some (nw, es) \<and>
      (net_step append_msgs cod (linked triangle) 0)\<^sup>*\<^sup>* (start_network [A, B, C]) nw \<and> nw_left nw = [] \<and>
      nw_stream nw 0 = nw_stream nw0 0 @ concat (replicate n [A, B, A]) \<and>
      nw_stream nw 1 = nw_stream nw0 1 @ concat (replicate n [A, B, A]) \<and>
      nw_stream nw 2 = nw_stream nw0 2 @ concat (replicate n [A, A, B]) \<and> penalties AlreadySeenTransaction es = 0" for n
  proof -
    obtain nw es where nw: "run_tasks cod triangle 0 (concat (replicate n (round_robin @ round_robin @ round_robin))) nw0 = Some (nw, es)"
      "rolling cod A B C nw" "penalties AlreadySeenTransaction es = 0" "penalties BadMessage es = 0"
      "nw_stream nw 0 = nw_stream nw0 0 @ concat (replicate n [A, B, A])"
      "nw_stream nw 1 = nw_stream nw0 1 @ concat (replicate n [A, B, A])"
      "nw_stream nw 2 = nw_stream nw0 2 @ concat (replicate n [A, A, B])"
      using rolling_forever [OF ov start(2)] by blast
    have run: "run_tasks cod triangle 0 (rolling_start @ concat (replicate n (round_robin @ round_robin @ round_robin)))
        (start_network [A, B, C]) = Some (nw, es0 @ es)"
      using start(1) nw(1) by (simp add: run_tasks_append)
    have pen: "penalties BadMessage (es0 @ es) = 0" "penalties AlreadySeenTransaction (es0 @ es) = 0"
      using start(3,4) nw(3,4) by (simp_all add: penalties_def)
    have "task_ok triangle t" if "t \<in> set (rolling_start @ concat (replicate n (round_robin @ round_robin @ round_robin)))" for t
      using that round_tasks [of t] by (auto split: if_splits)
    from run_tasks_steps [OF run this triangle_distinct pen(1)] run pen(2) nw show ?thesis
      by (auto simp: rolling_def Let_def)
  qed
  with all show ?thesis by blast
qed

section \<open>Overlapping payloads of the probe codec\<close>

definition two_payload_codec :: "(FlashblockMetadata, unit, unit) FlashblocksP2PMsg codec" where
  "two_payload_codec = \<lparr>encode = (\<lambda>m. case m of FlashblocksPayloadMsg fb \<Rightarrow> [ucast (p_payload_id fb), ucast (p_index fb)]),
     encoded_length = (\<lambda>_. 2),
     decode = (\<lambda>buf. case buf of pid # index # rest \<Rightarrow> Ok (FlashblocksPayloadMsg (probe (ucast pid) (ucast index)), rest)
       | _ \<Rightarrow> Err InputTooShort)\<rparr>"

lemma two_payload_codec_ok:
  "rlp_codec two_payload_codec (\<lambda>m. case m of FlashblocksPayloadMsg fb \<Rightarrow>
     fb = probe (ucast (ucast (p_payload_id fb) :: u8)) (ucast (ucast (p_index fb) :: u8)))"
  by unfold_locales (auto simp: two_payload_codec_def split: list.split FlashblocksP2PMsg.splits)

theorem overlapping_payloads_stop_witness:
  "\<exists>nw. (net_step append_msgs two_payload_codec (linked triangle) 0)\<^sup>*\<^sup>* (start_network [probe 7 0, probe 8 0, probe 8 1]) nw \<and>
     at_rest append_msgs two_payload_codec (linked triangle) 0 nw \<and> nw_stream nw 2 = [probe 7 0, probe 8 0, probe 7 0]"
  using overlapping_payloads_stop [OF two_payload_codec_ok, of "probe 7 0" "probe 8 0" "probe 8 1"]
  by (fastforce simp: two_payload_codec_def MAX_FRAME_def)

theorem overlapping_payloads_circulate_witness:
  "\<exists>nw. (net_step append_msgs two_payload_codec (linked triangle) 0)\<^sup>*\<^sup>* (start_network [probe 7 0, probe 8 0, probe 8 1]) nw \<and>
     nw_left nw = [] \<and> 300 \<le> length (nw_stream nw 0)"
proof -
  have "\<exists>s0 s1 s2. \<forall>n. \<exists>nw es.
      run_tasks two_payload_codec triangle 0 (rolling_start @ concat (replicate n (round_robin @ round_robin @ round_robin)))
        (start_network [probe 7 0, probe 8 0, probe 8 1]) = Some (nw, es) \<and>
      (net_step append_msgs two_payload_codec (linked triangle) 0)\<^sup>*\<^sup>* (start_network [probe 7 0, probe 8 0, probe 8 1]) nw \<and> nw_left nw = [] \<and>
      nw_stream nw 0 = s0 @ concat (replicate n [probe 7 0, probe 8 0, probe 7 0]) \<and>
      nw_stream nw 1 = s1 @ concat (replicate n [probe 7 0, probe 8 0, probe 7 0]) \<and>
      nw_stream nw 2 = s2 @ concat (replicate n [probe 7 0, probe 7 0, probe 8 0]) \<and> penalties AlreadySeenTransaction es = 0"
    by (rule overlapping_payloads_circulate [OF two_payload_codec_ok, THEN conjunct2])
      (auto simp: two_payload_codec_def MAX_FRAME_def)
  then obtain s0 nw where "(net_step append_msgs two_payload_codec (linked triangle) 0)\<^sup>*\<^sup>* (start_network [probe 7 0, probe 8 0, probe 8 1]) nw"
    "nw_left nw = []" "nw_stream nw 0 = s0 @ concat (replicate 100 [probe 7 0, probe 8 0, probe 7 0])" by meson
  then show ?thesis by (intro exI [of _ nw]) (simp add: length_concat sum_list_replicate)
qed

end
