(* ===== verification/EndToEnd.thy ===== *)
theory EndToEnd
  imports PublishStep Network
begin

text \<open>
  From the job of one node to the state of another: what the steps of a job send, what the peers
  receive, and what a follower collects and builds.
\<close>

section \<open>What a job sends\<close>

text \<open>Pushed one after the other, flashblocks are appended, or the collection is the last part of them.\<close>

lemma foldl_pushed:
  "foldl pushed fbs l = fbs @ l \<or> (\<exists>k < length l. foldl pushed fbs l = drop k l)"
proof (induction l rule: rev_induct)
  case Nil
  then show ?case by simp
next
  case (snoc fb l)
  show ?case
  proof (cases "starts_new (foldl pushed fbs l) fb")
    case True
    then have "foldl pushed fbs (l @ [fb]) = drop (length l) (l @ [fb])" by (simp add: pushed_def)
    then show ?thesis by (metis length_append_singleton lessI)
  next
    case False
    then have eq: "foldl pushed fbs (l @ [fb]) = foldl pushed fbs l @ [fb]" by (simp add: pushed_def)
    from snoc show ?thesis
    proof (elim disjE exE conjE)
      fix k assume "k < length l" and "foldl pushed fbs l = drop k l"
      with eq show ?thesis by (intro disjI2 exI [of _ k]) simp
    qed (use eq in simp)
  qed
qed

text \<open>The effects of the steps are those of publishing the flashblocks that were pushed.\<close>

lemma step_effects:
  assumes "flashblocks_wf (se_flashblocks node)"
    and "step debug encode_msg env chain spans blk clock self node payload = ((self', node', ms, es), r)"
  obtains ps where "se_p2p node' = fst (run (publish_step encode_msg) (se_p2p node) ps)"
    "es = map OverP2P (snd (run (publish_step encode_msg) (se_p2p node) ps))"
    "se_flashblocks node' = foldl pushed (se_flashblocks node) (map snd ps)" "length ps \<le> 1"
    "flashblocks_wf (se_flashblocks node')"
proof (cases "build_op_built_payload debug env chain blk (pf_block_number self) payload")
  case (Ok bp)
  let ?fb = "step_flashblock env chain blk clock self payload bp"
  obtain published_node outcome where
    built: "publish_built_payload encode_msg (ck_p2p clock) node ?fb bp = (published_node, outcome)" by fastforce
  show thesis
    using assms(1) built
  proof (cases rule: publish_built_cases)
    case stored
    with assms(2) Ok built that [of "[(ck_p2p clock, ?fb)]"] push_accepts(2) [OF assms(1)] show thesis
      by (auto simp: step_def Let_def split: prod.splits)
  next
    case (refused e)
    with assms Ok built that [of "[]"] show thesis by (simp add: step_def Let_def)
  qed
qed (use assms that [of "[]"] in \<open>auto simp: step_def\<close>)

lemma run_steps_effects:
  assumes "flashblocks_wf (se_flashblocks node)"
    and "run_steps grow debug encode_msg env chain spans blk self node p inputs = ((self', node', ms, es), r)"
  shows "\<exists>ps. es = map OverP2P (snd (run (publish_step encode_msg) (se_p2p node) ps)) \<and>
    se_p2p node' = fst (run (publish_step encode_msg) (se_p2p node) ps) \<and>
    se_flashblocks node' = foldl pushed (se_flashblocks node) (map snd ps) \<and> length ps \<le> length inputs"
  using assms
proof (induction inputs arbitrary: self node p ms es)
  case Nil
  then show ?case by (intro exI [of _ "[]"]) simp
next
  case (Cons input inputs)
  obtain clock span where input: "input = (clock, span)" by fastforce
  obtain self1 node1 ms1 es1 r1 where
    step: "step debug encode_msg env chain spans blk clock self node (grow p span) = ((self1, node1, ms1, es1), r1)"
    by (metis prod_cases4 surj_pair)
  from Cons.prems(1) step obtain ps1 where ps1: "se_p2p node1 = fst (run (publish_step encode_msg) (se_p2p node) ps1)"
    "es1 = map OverP2P (snd (run (publish_step encode_msg) (se_p2p node) ps1))"
    "se_flashblocks node1 = foldl pushed (se_flashblocks node) (map snd ps1)" "length ps1 \<le> 1"
    and wf: "flashblocks_wf (se_flashblocks node1)" by (rule step_effects)
  show ?case
  proof (cases "\<exists>p1. r1 = Ok p1")
    case True
    then obtain p1 ms2 es2 where
      rest: "run_steps grow debug encode_msg env chain spans blk self1 node1 p1 inputs = ((self', node', ms2, es2), r)"
      and es: "es = es1 @ es2"
      using Cons.prems(2) by (auto simp: input step split: prod.splits)
    from Cons.IH [OF wf rest] obtain ps2 where "es2 = map OverP2P (snd (run (publish_step encode_msg) (se_p2p node1) ps2))"
      "se_p2p node' = fst (run (publish_step encode_msg) (se_p2p node1) ps2)"
      "se_flashblocks node' = foldl pushed (se_flashblocks node1) (map snd ps2)" "length ps2 \<le> length inputs" by blast
    with ps1 show ?thesis
      by (intro exI [of _ "ps1 @ ps2"]) (auto simp: es run_append Let_def split: prod.splits)
  next
    case False
    then have "node' = node1" "es = es1"
      using Cons.prems(2) by (auto simp: input step split: result.splits)
    with ps1 show ?thesis by (intro exI [of _ ps1]) auto
  qed
qed

section \<open>A payload published in sequence\<close>

text \<open>The flashblocks of a valid collection, published in their order, are streamed as they are.\<close>

lemma wf_indices:
  assumes "flashblocks_wf fbs" and "length fbs < 2 ^ 64"
  shows "map (\<lambda>fb. unat (p_index fb)) fbs = [0..<length fbs]"
  using assms(2) flashblocks_wfD(4) [OF assms(1)]
  by (intro nth_equalityI) (simp_all add: unat_of_nat)

lemma stream_of_collection:
  assumes "flashblocks_wf (map snd ps)" and "length ps \<le> Suc MAX_FLASHBLOCK_INDEX"
    and "buffer_wf st" and "s_payload_id st \<noteq> p_payload_id (snd (hd ps))"
    and "\<And>i. i \<in> set ps \<Longrightarrow> fits_frame encode_msg i"
  shows "streamed (snd (run (publish_step encode_msg) st ps)) = map snd ps"
proof -
  let ?idx = "\<lambda>fb. unat (p_index fb)"
  have ne: "ps \<noteq> []" using flashblocks_wfD(1) [OF assms(1)] by simp
  have "length (map snd ps) < 2 ^ 64" using assms(2) by (simp add: MAX_FLASHBLOCK_INDEX_def)
  then have indices: "map ?idx (map snd ps) = [0..<length ps]" using wf_indices [OF assms(1)] by simp
  have pid: "p_payload_id (snd i) = p_payload_id (snd (hd ps))" if "i \<in> set ps" for i
    using flashblocks_wfD(3) [OF assms(1), of "snd i"] that ne by (simp add: hd_map)
  have "streamed (snd (run (publish_step encode_msg) st ps)) = sort_key ?idx (map snd ps)"
  proof (rule complete_payload [OF assms(3,4) _ assms(2)])
    have idx: "map (\<lambda>i. ?idx (snd i)) ps = [0..<length ps]" using indices by (simp add: comp_def)
    show "distinct (map (\<lambda>i. ?idx (snd i)) ps)" unfolding idx by simp
    show "set (map (\<lambda>i. ?idx (snd i)) ps) = {0..<length ps}" unfolding idx by simp
    show "0 < length ps" using ne by simp
    show "p_payload_id (snd i) = p_payload_id (snd (hd ps)) \<and> fits_frame encode_msg i" if "i \<in> set ps" for i
      using pid [OF that] assms(5) [OF that] ..
  qed
  also have "\<dots> = map snd ps"
    by (rule sort_key_id_if_sorted) (simp only: indices sorted_upt)
  finally show ?thesis .
qed

section \<open>What a follower builds\<close>

text \<open>
  A new node that processes the flashblocks of a collection without an error: its latest payload
  has the collection's id and the decoded transactions of all its flashblocks.
\<close>

lemma launch_length: "launch debug node self fbs = Some (follower, rs) \<Longrightarrow> length rs = length fbs"
  by (induction fbs arbitrary: self rs) (auto split: option.splits prod.splits)

lemma follower_of_collection:
  assumes "launch debug node (state_executor_new p2p pending) fbs = Some (follower, rs)"
    and "\<And>r. r \<in> set rs \<Longrightarrow> \<exists>x. r = Ok x"
    and "flashblocks_wf fbs" and "length fbs < 2 ^ 64" and "p_payload_id (hd fbs) \<noteq> 0"
    and "recovers_same node" and "map (ne_decode_tx node) (all_transactions fbs) = map Some txs"
  shows "\<exists>payload. se_latest_payload follower = Some (payload, p_index (last fbs)) \<and>
    bp_id payload = p_payload_id (hd fbs) \<and> block_txs (bp_block payload) = txs"
proof -
  note collected = launch_collects [OF assms(1-5)]
  have "length rs = length fbs" using assms(1) by (rule launch_length)
  have "mirrors_collection node follower"
    by (rule launch_keeps_mirror [OF assms(1) latest_mirrors_new assms(6)])
      (use assms(2) \<open>length rs = length fbs\<close> in \<open>metis nth_mem\<close>)
  with collected(1) obtain payload where
    "se_latest_payload follower = Some (payload, p_index (last fbs))" "bp_id payload = p_payload_id (hd fbs)"
    "map (ne_decode_tx node) (all_transactions fbs) = map Some (block_txs (bp_block payload))"
    using collected(2) by (auto simp: latest_mirrors_def carries_def Let_def)
  moreover from this(3) have "block_txs (bp_block payload) = txs"
    using assms(7) by (metis inj_Some map_injective)
  ultimately show ?thesis by blast
qed

lemma last_index_count:
  assumes "flashblocks_wf fbs" and "length fbs = unat n"
  shows "p_index (last fbs) = n - 1"
proof -
  have "1 \<le> unat n" using flashblocks_wfD(1) [OF assms(1)] assms(2) by (cases fbs) auto
  then show ?thesis using last_index_wf [OF assms(1)] by (simp add: assms(2) of_nat_diff)
qed

lemma index_le_last:
  assumes "flashblocks_wf fbs" and "fb \<in> set fbs" and "length fbs < 2 ^ 64"
  shows "p_payload_id fb = p_payload_id (hd fbs) \<and> p_index fb \<le> of_nat (length fbs - 1)"
proof -
  obtain i where i: "i < length fbs" "fb = fbs ! i" using assms(2) by (auto simp: in_set_conv_nth)
  then have "p_index fb = of_nat i" using flashblocks_wfD(4) [OF assms(1)] by simp
  moreover have "unat (of_nat i :: u64) = i" "unat (of_nat (length fbs - 1) :: u64) = length fbs - 1"
    using i(1) assms(3) by (simp_all add: unat_of_nat del: of_nat_diff)
  moreover have "i \<le> length fbs - 1" using i(1) by simp
  ultimately show ?thesis using flashblocks_wfD(3) [OF assms(1)] assms(2) by (simp add: word_le_nat_alt)
qed

text \<open>A job that succeeds ends in step.\<close>

lemma job_Ok_in_step:
  assumes "checkpoint_chain chain grow barrier_cp"
    and "flashblocks_wf (se_flashblocks node)"
    and "p_payload_id (hd (se_flashblocks node)) \<noteq> bc_payload_id blk"
    and "b_timestamp (the (p_base (hd (se_flashblocks node)))) < bc_timestamp blk"
    and "before_job blk now self = (started, started_metrics)" and "pf_block_number self = 0"
    and "inputs \<noteq> []" and "length inputs < 2 ^ 64"
    and "run_steps grow debug encode_msg env chain spans blk started node p inputs = ((self', node', ms, es), Ok p')"
  obtains bp where "in_step chain env blk self' node' p' bp" "length (se_flashblocks node') = length inputs"
proof -
  have "job_outcome chain env blk (length inputs) (job_payloads grow debug env chain blk 0 p (map snd inputs)) any
      ((self', node', ms, es), Ok p')" for any
    unfolding assms(9) [symmetric] using assms(1-8) by (rule job_in_sequence)
  from this [of undefined] show thesis
    using that by (auto simp: job_outcome_def in_step_def split: result.splits)
qed

section \<open>From job to peer\<close>

text \<open>What the effects of a node send over the P2P layer.\<close>

fun over_p2p :: "('tx, 'w, 'b, 'x, 'q) exec_effect list \<Rightarrow> ('w, 'b) effect list" where
  "over_p2p [] = []"
| "over_p2p (OverP2P e # es) = e # over_p2p es"
| "over_p2p (BuiltPayload _ _ # es) = over_p2p es"

lemma over_p2p_map [simp]: "over_p2p (map OverP2P es) = es"
  by (induction es) simp_all

text \<open>A job on a new node that succeeds: its effects are the publications of the collection, in order.\<close>

lemma job_published:
  fixes node' :: "('tx, 'w, 'b, 'log, 'u, 'h, 't, 'q) node"
  assumes "checkpoint_chain chain grow barrier_cp"
    and "bc_payload_id blk \<noteq> 0" and "0 < bc_timestamp blk"
    and "before_job blk now publish_flashblock_new = (started, started_metrics)"
    and "inputs \<noteq> []" and "length inputs \<le> Suc MAX_FLASHBLOCK_INDEX"
    and "run_steps grow debug enc env chain spans blk started
      (state_executor_new default_p2p_state None) p inputs = ((self', node', ms, es), Ok p')"
  shows "\<exists>bp. in_step chain env blk self' node' p' bp \<and> length (se_flashblocks node') = length inputs"
    and "\<exists>ps. over_p2p es = snd (run (publish_step enc) default_p2p_state ps) \<and> map snd ps = se_flashblocks node'"
proof -
  let ?start = "state_executor_new default_p2p_state None :: ('tx, 'w, 'b, 'log, 'u, 'h, 't, 'q) node"
  have start: "flashblocks_wf (se_flashblocks ?start)" "hd (se_flashblocks ?start) = hd default_flashblocks"
    "se_p2p ?start = default_p2p_state"
    by (simp_all add: state_executor_new_def default_flashblocks_wf)
  have bound: "length inputs < 2 ^ 64" using assms(6) by (simp add: MAX_FLASHBLOCK_INDEX_def)
  obtain bp where step: "in_step chain env blk self' node' p' bp" and len: "length (se_flashblocks node') = length inputs"
    by (rule job_Ok_in_step [OF assms(1) start(1) _ _ assms(4) _ assms(5) bound assms(7)])
      (use assms(2,3) in \<open>auto simp: start default_base_def publish_flashblock_new_def\<close>)
  then have pid: "p_payload_id (hd (se_flashblocks node')) = bc_payload_id blk" by (simp add: in_step_def)
  from step len show "\<exists>bp. in_step chain env blk self' node' p' bp \<and> length (se_flashblocks node') = length inputs" by blast
  from run_steps_effects [OF start(1) assms(7), unfolded start(3)] obtain ps where
    es: "es = map OverP2P (snd (run (publish_step enc) default_p2p_state ps))"
    and pushed: "se_flashblocks node' = foldl pushed (se_flashblocks ?start) (map snd ps)"
    and short: "length ps \<le> length inputs" by blast
  have "se_flashblocks node' = map snd ps"
    using foldl_pushed [of "se_flashblocks ?start" "map snd ps"]
  proof (elim disjE exE conjE)
    assume "foldl pushed (se_flashblocks ?start) (map snd ps) = se_flashblocks ?start @ map snd ps"
    then have "hd (se_flashblocks node') = hd default_flashblocks"
      using pushed flashblocks_wfD(1) [OF start(1)] by (simp add: start(2))
    then show ?thesis using pid assms(2) by simp
  next
    fix k assume "k < length (map snd ps)" and "foldl pushed (se_flashblocks ?start) (map snd ps) = drop k (map snd ps)"
    with pushed len short show ?thesis by (cases k) simp_all
  qed
  then show "\<exists>ps. over_p2p es = snd (run (publish_step enc) default_p2p_state ps) \<and> map snd ps = se_flashblocks node'"
    using es by auto
qed

text \<open>What it sends is streamed by a peer as the collection.\<close>

lemma job_received:
  fixes node' :: "('tx, 'w, 'b, 'log, 'u, 'h, 't, 'q) node"
  assumes "checkpoint_chain chain grow barrier_cp"
    and "bc_payload_id blk \<noteq> 0" and "0 < bc_timestamp blk"
    and "before_job blk now publish_flashblock_new = (started, started_metrics)"
    and "inputs \<noteq> []" and "length inputs \<le> Suc MAX_FLASHBLOCK_INDEX"
    and "run_steps grow debug (encode cod) env chain spans blk started
      (state_executor_new default_p2p_state None) p inputs = ((self', node', ms, es), Ok p')"
    and "rlp_codec cod valid"
    and "\<And>fb now. fb \<in> set (se_flashblocks node') \<Longrightarrow>
      valid (FlashblocksPayloadMsg fb) \<and> fits_frame (encode cod) (now, fb)"
    and "map snd inbox = map wire_bytes (sent_to_peers (over_p2p es))"
  shows "\<exists>conn receiver conn_es.
      (poll_next False cod append_msgs False False new_connection default_p2p_state [] inbox :: ('x, _) result) =
        Ok ((conn, receiver, [], []), conn_es, Pending True) \<and>
      streamed (published conn_es) = se_flashblocks node'"
proof -
  note job = job_published [OF assms(1-7)]
  obtain bp where "in_step chain env blk self' node' p' bp" and len: "length (se_flashblocks node') = length inputs"
    using job(1) by blast
  then have wf: "flashblocks_wf (se_flashblocks node')"
    and pid: "p_payload_id (hd (se_flashblocks node')) = bc_payload_id blk" by (simp_all add: in_step_def)
  obtain ps where es: "over_p2p es = snd (run (publish_step (encode cod)) default_p2p_state ps)"
    and fbs: "se_flashblocks node' = map snd ps" using job(2) by metis
  have sent: "valid (FlashblocksPayloadMsg (snd i)) \<and> fits_frame (encode cod) i" if "i \<in> set ps" for i
    using assms(9) [of "snd i" "fst i"] that by (simp add: fbs)
  have index: "unat (p_index fb) \<le> MAX_FLASHBLOCK_INDEX" if "fb \<in> set (map snd ps)" for fb
  proof -
    have "fb \<in> set (se_flashblocks node')" using that by (simp add: fbs)
    from imageI [OF this, of "\<lambda>fb. unat (p_index fb)"]
    have "unat (p_index fb) \<in> set (map (\<lambda>fb. unat (p_index fb)) (se_flashblocks node'))" by (simp only: set_map)
    moreover have "map (\<lambda>fb. unat (p_index fb)) (se_flashblocks node') = [0..<length inputs]"
      using wf_indices [OF wf] len assms(6) by (simp add: MAX_FLASHBLOCK_INDEX_def)
    ultimately show ?thesis using assms(6) by simp
  qed
  have "hd (map snd ps) = snd (hd ps)" using flashblocks_wfD(1) [OF wf] by (simp add: fbs hd_map)
  then have "streamed (snd (run (publish_step (encode cod)) default_p2p_state ps)) = map snd ps"
    using wf len assms(2,6) pid sent by (intro stream_of_collection) (auto simp: fbs)
  moreover have "Connection.mirrors default_p2p_state new_connection default_p2p_state"
    by (simp add: Connection.mirrors_def new_connection_def received_from_def)
  note received = nodes_run [OF _ assms(8) this, of append_msgs "[]" ps inbox, where armed = False and ?'e = 'x]
  ultimately show ?thesis
    using assms(10) sent index by (fastforce simp: quiet_def es fbs)
qed

text \<open>In a network it is a run of publications at its node: the state it leaves is reached.\<close>

lemma job_in_network:
  assumes "run (publish_step (encode cod)) (nw_state nw origin) ps = (st, es)" and "nw_left nw = map snd ps"
    and "keeps_up deliver" and "\<And>y. length (nw_rx nw origin y) + length ps \<le> BROADCAST_BUFFER_CAPACITY"
  shows "\<exists>nw'. (net_step deliver cod links origin)\<^sup>*\<^sup>* nw nw' \<and> nw_left nw' = [] \<and> nw_state nw' origin = st \<and>
    nw_stream nw' origin = nw_stream nw origin @ streamed es \<and>
    (\<forall>y. links origin y \<longrightarrow> nw_rx nw' origin y = append_msgs (nw_rx nw origin y) (sent_to_peers es))"
  using assms(1,2,4)
proof (induction ps arbitrary: nw es)
  case Nil
  then show ?case by (intro exI [of _ nw]) simp
next
  case (Cons i ps)
  obtain st1 es1 where i: "publish_step (encode cod) (nw_state nw origin) i = (st1, es1)" by fastforce
  then have first: "publish (encode cod) (fst i) (nw_state nw origin) (snd i) = (st1, es1)" by (simp add: publish_step_def)
  let ?nw = "spread deliver links origin st1 es1 (nw\<lparr>nw_left := map snd ps\<rparr>)"
  have step: "net_step deliver cod links origin nw ?nw"
    using net_step.publishes [OF _ first] Cons.prems(2) by simp
  have "length (sent_to_peers es1) \<le> 1" using sent_publish [of "encode cod" "fst i" "nw_state nw origin" "snd i"] first by simp
  then have room: "length (nw_rx nw origin y) + length (sent_to_peers es1) \<le> BROADCAST_BUFFER_CAPACITY"
    "length (nw_rx nw origin y) + length (sent_to_peers es1) + length ps \<le> BROADCAST_BUFFER_CAPACITY" for y
    using Cons.prems(3) [of y] by simp_all
  have rx: "nw_rx ?nw origin y = (if links origin y then append_msgs (nw_rx nw origin y) (sent_to_peers es1) else nw_rx nw origin y)" for y
    using assms(3) room(1) [of y] by (simp add: spread_def keeps_up_def)
  obtain es2 where rest: "run (publish_step (encode cod)) (nw_state ?nw origin) ps = (st, es2)" and es: "es = es1 @ es2"
    using Cons.prems(1) i by (auto simp: run.simps split: prod.splits)
  have "length (nw_rx ?nw origin y) + length ps \<le> BROADCAST_BUFFER_CAPACITY" for y
    using room(2) [of y] Cons.prems(3) [of y] by (simp add: rx append_msgs_def)
  from Cons.IH [OF rest _ this] obtain nw' where nw': "(net_step deliver cod links origin)\<^sup>*\<^sup>* ?nw nw'" "nw_left nw' = []"
    "nw_state nw' origin = st" "nw_stream nw' origin = nw_stream ?nw origin @ streamed es2"
    "\<And>y. links origin y \<Longrightarrow> nw_rx nw' origin y = append_msgs (nw_rx ?nw origin y) (sent_to_peers es2)" by auto
  have "(net_step deliver cod links origin)\<^sup>*\<^sup>* nw nw'" using step nw'(1) by (rule converse_rtranclp_into_rtranclp)
  moreover have "nw_stream ?nw origin = nw_stream nw origin @ streamed es1" by (simp add: spread_def)
  ultimately show ?case
    using nw'(2-) by (intro exI [of _ nw']) (simp add: es rx)
qed

text \<open>The latest payload of the publishing node, and of a follower that processed the collection.\<close>

lemma in_step_latest:
  assumes "in_step chain env blk self node p bp"
  shows "se_latest_payload node = Some (bp, of_nat (length (se_flashblocks node) - 1))"
  using assms last_index_count last_index_wf unfolding in_step_def by metis

lemma follower_of_job:
  fixes node :: "('tx, 'w, 'acc list, 'log, 'u, 'h, 't, 'q) node"
    and fenv :: "('e, 'tx, 'w, 'flog, 'fu, 'fi, 'fslot, 'fst, 'fh, 'ft, 's, 'acc, 'inf, 'sto, 'x, 'ctx) node_env"
  assumes "in_step chain env blk self node p bp" and "length (se_flashblocks node) = length inputs"
    and "bc_payload_id blk \<noteq> 0" and "length inputs \<le> Suc MAX_FLASHBLOCK_INDEX"
    and "launch fdebug fenv (state_executor_new p2p None) (se_flashblocks node) = Some (follower, rs)"
    and "\<And>r. r \<in> set rs \<Longrightarrow> \<exists>x. r = Ok x" and "recovers_same fenv"
    and "\<And>tx. tx \<in> set (span_transactions (ch_history chain p)) \<Longrightarrow> ne_decode_tx fenv (tx_encoded (be_tx env) tx) = Some tx"
  shows "\<exists>payload. se_latest_payload follower = Some (payload, of_nat (length inputs - 1)) \<and>
    bp_id payload = bc_payload_id blk \<and> block_txs (bp_block payload) = block_txs (bp_block bp)"
proof -
  note facts = assms(1) [unfolded in_step_def]
  have bound: "length (se_flashblocks node) < 2 ^ 64" using assms(2,4) by (simp add: MAX_FLASHBLOCK_INDEX_def)
  have "map (ne_decode_tx fenv) (all_transactions (se_flashblocks node)) = map Some (block_txs (bp_block bp))"
    using facts assms(8) by simp
  with follower_of_collection [OF assms(5,6) _ bound _ assms(7)] facts assms(3) obtain payload where
    payload: "se_latest_payload follower = Some (payload, p_index (last (se_flashblocks node)))"
    "bp_id payload = bc_payload_id blk" "block_txs (bp_block payload) = block_txs (bp_block bp)" by metis
  moreover have "p_index (last (se_flashblocks node)) = of_nat (length inputs - 1)"
    using last_index_wf facts assms(2) by metis
  ultimately show ?thesis by metis
qed

section \<open>A small publisher and a small follower\<close>

type_synonym small_chain_ctx = "(nat, unit, unit list, (nat, unit, unit list, nat, nat, nat, unit) executed_block) WorldContext"

type_synonym small_payload = "(unit, nat, nat, nat, small_chain_ctx) list_payload"

definition small_env :: "(unit, nat, unit list, nat, nat, unit, unit, unit, nat, unit) build_env" where
  "small_env = example_env []"

definition small_chain :: "(small_payload, (unit, nat, nat, nat) checkpoint, small_chain_ctx, unit list) chain_ops" where
  "small_chain = list_chain []"

lemma small_chain_laws: "checkpoint_chain small_chain list_grow list_barrier"
  unfolding small_chain_def by (rule listed_chain.checkpoint_chain_axioms)

lemma small_chain_simps [simp]:
  "ch_history small_chain p = fst p" "ch_history_staging small_chain p = fst (snd p)"
  "ch_latest_barrier small_chain p = snd (snd p)"
  "ch_barrier_with_context small_chain p k = (fst p @ [list_barrier], [], Some k)"
  "ch_alloy_bal small_chain p = []" "tx_encoded (be_tx small_env) t = [of_nat t]"
  by (simp_all add: small_chain_def list_chain_def small_env_def example_env_def example_tx_def)

definition part_of :: "(nat, unit, nat) block_ctx \<Rightarrow> u64 \<Rightarrow> bytes list \<Rightarrow> (unit, unit list) flashblock \<Rightarrow> bool" where
  "part_of blk index txs fb \<longleftrightarrow> p_payload_id fb = bc_payload_id blk \<and> p_index fb = index \<and> p_base fb = Some (job_base blk) \<and>
     d_transactions (p_diff fb) = txs \<and> d_withdrawals (p_diff fb) = [] \<and> d_block_access_list (p_diff fb) = Some []"

abbreviation block_7 :: "u64 \<Rightarrow> bytes list \<Rightarrow> (unit, unit list) flashblock \<Rightarrow> bool" where
  "block_7 \<equiv> part_of example_block"

lemma block_7_def:
  "block_7 index txs fb \<longleftrightarrow> p_payload_id fb = 7 \<and> p_index fb = index \<and> p_base fb = Some (job_base example_block) \<and>
     d_transactions (p_diff fb) = txs \<and> d_withdrawals (p_diff fb) = [] \<and> d_block_access_list (p_diff fb) = Some []"
  by (simp add: part_of_def bc_payload_id_def) (simp add: example_block_def)

lemma step_part:
  assumes "build_op_built_payload True small_env small_chain blk (pf_block_number self) payload = Ok bp"
    and "pf_block_base self = Some (job_base blk)"
  shows "part_of blk (pf_block_number self)
    (map (\<lambda>t. [of_nat t]) (span_transactions (unpublished_payload small_chain (pf_block_number self) payload)))
    (step_flashblock small_env small_chain blk clock self payload bp)"
proof -
  have "bb_block_access_list (bk_body (bp_block bp)) = Some []"
    using assms(1) by (auto simp: build_op_built_payload_def Let_def split: prod.splits)
  then show ?thesis
    using assms(2) by (simp add: part_of_def published_flashblock_def Let_def)
qed

lemma small_step:
  fixes node :: "(nat, unit, unit list, nat, nat, nat, unit, unit) node"
  assumes "\<exists>bp. build_op_built_payload True small_env small_chain blk (pf_block_number self) payload = Ok bp"
    and "pf_block_base self = Some (job_base blk)" and "flashblocks_wf (se_flashblocks node)"
    and "\<And>fb. part_of blk (pf_block_number self)
      (map (\<lambda>t. [of_nat t]) (span_transactions (unpublished_payload small_chain (pf_block_number self) payload))) fb \<Longrightarrow>
      accepts (se_flashblocks node) fb"
  obtains tms node' ms es fb bp where
    "step True encode_msg small_env small_chain example_spans blk clock self node payload =
       ((self\<lparr>pf_block_number := pf_block_number self + 1, pf_times := tms\<rparr>, node', ms, es),
        Ok (fst payload @ [list_barrier], [], Some (new_context bp)))"
    "se_flashblocks node' = pushed (se_flashblocks node) fb" "flashblocks_wf (se_flashblocks node')"
    "part_of blk (pf_block_number self)
      (map (\<lambda>t. [of_nat t]) (span_transactions (unpublished_payload small_chain (pf_block_number self) payload))) fb"
    "build_op_built_payload True small_env small_chain blk (pf_block_number self) payload = Ok bp"
proof -
  obtain bp where bp: "build_op_built_payload True small_env small_chain blk (pf_block_number self) payload = Ok bp"
    using assms(1) ..
  let ?fb = "step_flashblock small_env small_chain blk clock self payload bp"
  have fb: "part_of blk (pf_block_number self)
      (map (\<lambda>t. [of_nat t]) (span_transactions (unpublished_payload small_chain (pf_block_number self) payload))) ?fb"
    using bp assms(2) by (rule step_part)
  note acc = assms(4) [OF this]
  show thesis
    by (rule step_publishes [OF assms(3) bp acc, where encode_msg = encode_msg and spans = example_spans])
      (use that fb bp push_accepts(2) [OF assms(3) acc] in simp)
qed

lemma small_build_Ok:
  assumes "extract_previous_state True small_env small_chain blk payload = Ok (b0, acc0, bal)"
    and "add_checkpoints small_env (bc_timestamp blk) (bc_base_fee blk)
      (unpublished_payload small_chain n payload) b0 acc0 = Ok (b, acc)"
  shows "\<exists>bp. build_op_built_payload True small_env small_chain blk n payload = Ok bp"
  using assms
  by (simp add: build_op_built_payload_def Let_def withdrawals_fields_def small_env_def example_env_def)

lemma small_checkpoint:
  "\<exists>r. add_checkpoints small_env timestamp base_fee [example_cp t gas] b0 acc0 = Ok r"
  by (simp add: example_cp_def get_def small_env_def example_env_def example_tx_def Let_def
      miner_fee_of_def is_deposit_def build_receipt_at_def deposit_nonce_at_def)

lemma small_build:
  "\<exists>bp. build_op_built_payload True small_env small_chain blk 0 (list_grow job_start [example_cp 0 100]) = Ok bp"
proof -
  let ?p = "list_grow job_start [example_cp 0 100] :: small_payload"
  have "ch_latest_barrier small_chain ?p = None" "unpublished_payload small_chain 0 ?p = [example_cp 0 100]"
    by (simp_all add: unpublished_payload_def list_grow_def job_start_def)
  with small_build_Ok [OF extract_fresh] small_checkpoint show ?thesis by (metis surj_pair)
qed

lemma small_build_next:
  assumes "build_op_built_payload True small_env small_chain example_block 0 (list_grow job_start [example_cp 0 100]) = Ok bp"
  shows "\<exists>bp'. build_op_built_payload True small_env small_chain example_block 1
    (list_grow ([example_cp 0 100, list_barrier], [], Some (new_context bp)) [example_cp 4 21000]) = Ok bp'"
proof -
  let ?q = "list_grow ([example_cp 0 100, list_barrier], [], Some (new_context bp)) [example_cp 4 21000] :: small_payload"
  have "ch_latest_barrier small_chain ?q = Some (new_context bp)" "unpublished_payload small_chain 1 ?q = [example_cp 4 21000]"
    by (simp_all add: unpublished_payload_def list_grow_def)
  moreover obtain acc txs where "carries small_env (bc_payload_id example_block) (bc_timestamp example_block) acc txs bp"
    using assms by (rule build_facts)
  ultimately show ?thesis
    using small_build_Ok extract_carried [where chain = small_chain and payload = ?q and debug = True and blk = example_block]
      small_checkpoint by (metis surj_pair)
qed

lemma small_job:
  "\<exists>self (node :: (nat, unit, unit list, nat, nat, nat, unit, unit) node) ms es p a b.
     run_steps list_grow True encode_msg small_env small_chain example_spans example_block
      (fst (before_job example_block 10 publish_flashblock_new)) publisher_node job_start example_job =
      ((self, node, ms, es), Ok p) \<and> se_flashblocks node = [a, b] \<and>
    block_7 0 [[0]] a \<and> block_7 1 [[4]] b \<and> span_transactions (fst p) = [0, 4]"
proof -
  obtain started ms1 where before: "before_job example_block 10 publish_flashblock_new = (started, ms1)" by fastforce
  then have started: "pf_block_base started = Some (job_base example_block)" "pf_block_number started = 0"
    by (auto simp: before_job_def on_job_started_def publish_flashblock_new_def default_times_def Let_def)
  let ?p = "list_grow job_start [example_cp 0 100] :: small_payload"
  let ?node = "publisher_node :: (nat, unit, unit list, nat, nat, nat, unit, unit) node"
  have p: "fst ?p = [example_cp 0 100]" "span_transactions (unpublished_payload small_chain 0 ?p) = [0]"
    by (simp_all add: list_grow_def job_start_def unpublished_payload_def span_transactions_def example_cp_def)
  obtain tms1 node1 m1 e1 a bp where
    step1: "step True encode_msg small_env small_chain example_spans example_block (at_instant 12) started ?node ?p =
       ((started\<lparr>pf_block_number := 1, pf_times := tms1\<rparr>, node1, m1, e1),
        Ok ([example_cp 0 100, list_barrier], [], Some (new_context bp)))"
    and node1: "se_flashblocks node1 = pushed (se_flashblocks ?node) a" "flashblocks_wf (se_flashblocks node1)"
    and a: "block_7 0 [[0]] a"
    and bp: "build_op_built_payload True small_env small_chain example_block 0 ?p = Ok bp"
  proof (rule small_step [of example_block started ?p ?node encode_msg "at_instant 12"])
    show "accepts (se_flashblocks ?node) fb"
      if "block_7 (pf_block_number started) (map (\<lambda>t. [of_nat t])
        (span_transactions (unpublished_payload small_chain (pf_block_number started) ?p))) fb" for fb
      using that unfolding started block_7_def
      by (simp add: accepts_def starts_new_def job_base_def example_block_def default_base_def)
  qed (use started small_build that p in simp_all)
  have fbs1: "se_flashblocks node1 = [a]"
    using node1(1) a [unfolded block_7_def]
    by (simp add: pushed_def starts_new_def job_base_def example_block_def default_base_def)
  let ?self = "started\<lparr>pf_block_number := 1, pf_times := tms1\<rparr>"
  let ?q = "list_grow ([example_cp 0 100, list_barrier], [], Some (new_context bp)) [example_cp 4 21000] :: small_payload"
  have q: "fst ?q = [example_cp 0 100, list_barrier, example_cp 4 21000]" "span_transactions (unpublished_payload small_chain 1 ?q) = [4]"
    by (simp_all add: list_grow_def unpublished_payload_def span_transactions_def example_cp_def)
  obtain self2 node2 m2 e2 b p2 where
    step2: "step True encode_msg small_env small_chain example_spans example_block (at_instant 15) ?self node1 ?q =
       ((self2, node2, m2, e2), Ok p2)" and p2: "fst p2 = fst ?q @ [list_barrier]"
    and node2: "se_flashblocks node2 = pushed (se_flashblocks node1) b" and b: "block_7 1 [[4]] b"
  proof (rule small_step [of example_block ?self ?q node1 encode_msg "at_instant 15"])
    show "accepts (se_flashblocks node1) fb"
      if "block_7 (pf_block_number ?self) (map (\<lambda>t. [of_nat t])
        (span_transactions (unpublished_payload small_chain (pf_block_number ?self) ?q))) fb" for fb
      using that a by (simp add: accepts_def continues_def block_7_def fbs1)
  qed (use started small_build_next [OF bp] that node1(2) q in simp_all)
  have "se_flashblocks node2 = [a, b]" using node2 a b by (simp add: fbs1 pushed_def starts_new_def block_7_def)
  moreover have "span_transactions (fst p2) = [0, 4]"
    using p2 q by (simp add: span_transactions_def example_cp_def list_barrier_def)
  moreover have "run_steps list_grow True encode_msg small_env small_chain example_spans example_block
      (fst (before_job example_block 10 publish_flashblock_new)) ?node job_start example_job =
      ((self2, node2, m1 @ m2, e1 @ e2), Ok p2)"
    by (simp add: example_job_def before step1 step2)
  ultimately show ?thesis using a b by blast
qed

lemma small_follower:
  assumes "block_7 0 [[0]] a" and "block_7 1 [[4]] b"
  shows "\<exists>follower. launch False (example_node (example_env [])) (state_executor_new p2p None) [a, b] =
    Some (follower, [Ok [], Ok []])"
proof -
  have a: "p_payload_id a = 7" "p_index a = 0" "p_base a = Some (job_base example_block)" "b_timestamp (job_base example_block) = 5"
    "d_transactions (p_diff a) = [[0]]" "d_withdrawals (p_diff a) = []" "d_block_access_list (p_diff a) = Some []"
    and b: "p_payload_id b = 7" "p_index b = 1" "d_transactions (p_diff b) = [[4]]"
    "d_withdrawals (p_diff b) = []" "d_block_access_list (p_diff b) = Some []"
    using assms [unfolded block_7_def] by (simp_all add: job_base_def example_block_def)
  show ?thesis by (simp add: node_simps Let_def a b not_le)
qed

text \<open>A codec for the messages of a table, which writes the index of the flashblock.\<close>

definition table_codec :: "(u8 \<Rightarrow> 'm) \<Rightarrow> ('m \<Rightarrow> u8) \<Rightarrow> 'm codec" where
  "table_codec table key = \<lparr>encode = (\<lambda>m. [key m]), encoded_length = (\<lambda>_. 1),
     decode = (\<lambda>buf. case buf of [] \<Rightarrow> Err InputTooShort | k # rest \<Rightarrow> Ok (table k, rest))\<rparr>"

lemma table_codec_ok: "rlp_codec (table_codec table key) (\<lambda>m. table (key m) = m)"
  by unfold_locales (simp_all add: table_codec_def split: list.split)

fun message_key :: "('m, 'w, 'b) FlashblocksP2PMsg \<Rightarrow> u8" where
  "message_key (FlashblocksPayloadMsg fb) = ucast (p_index fb)"

end
