(* ===== verification/Peering.thy ===== *)
theory Peering
  imports Connection
begin

text \<open>
  How connections come about, the protocol handler of \<^verbatim>\<open>src/flashblocks/p2p.rs\<close>: the handle with its
  channels, the subscriptions, and the connection made for a peer.

  All clones of a \<open>FlashblocksHandle\<close> share one state and two channels: the handle here is that shared
  object, threaded through the operations. A channel is the list of the queues of its receivers, by the
  number of the receiver. What the queue of a receiver is after a message was sent is the channel's affair
  (it may have lagged): the parameters \<open>deliver\<close> and \<open>stream\<close>.
\<close>

section \<open>The handle\<close>

type_synonym ('w, 'b) stream_queue = "(unit, ('w, 'b) flashblock) result list"

record ('w, 'b) FlashblocksHandle =
  fh_state :: "('w, 'b) FlashblocksP2PState"
  fh_peer_tx :: "peer_queue list"
  fh_flashblock_tx :: "('w, 'b) stream_queue list"

definition flashblocks_handle_new :: "('w, 'b) FlashblocksHandle" where
  "flashblocks_handle_new = \<lparr>fh_state = default_p2p_state, fh_peer_tx = [], fh_flashblock_tx = []\<rparr>"

text \<open>\<open>publish_new\<close>: the publication under the lock, with what it sends on both channels.\<close>

definition publish_new ::
  "(peer_queue \<Rightarrow> PeerMsg list \<Rightarrow> peer_queue) \<Rightarrow>
     (('w, 'b) stream_queue \<Rightarrow> ('w, 'b) flashblock list \<Rightarrow> ('w, 'b) stream_queue) \<Rightarrow>
     ((FlashblockMetadata, 'w, 'b) FlashblocksP2PMsg \<Rightarrow> bytes) \<Rightarrow> i64 \<Rightarrow>
     ('w, 'b) FlashblocksHandle \<Rightarrow> ('w, 'b) flashblock \<Rightarrow> ('w, 'b) FlashblocksHandle" where
  "publish_new deliver stream encode_msg now self payload =
     (let (state, effects) = publish encode_msg now (fh_state self) payload
      in self\<lparr>fh_state := state,
              fh_peer_tx := map (\<lambda>rx. deliver rx (sent_to_peers effects)) (fh_peer_tx self),
              fh_flashblock_tx := map (\<lambda>rx. stream rx (streamed effects)) (fh_flashblock_tx self)\<rparr>)"

text \<open>The two halves of \<open>flashblock_stream\<close>: the snapshot under the lock and, after it, the subscription.\<close>

definition subscribe_stream :: "('w, 'b) FlashblocksHandle \<Rightarrow> nat \<times> ('w, 'b) FlashblocksHandle" where
  "subscribe_stream self =
     (length (fh_flashblock_tx self), self\<lparr>fh_flashblock_tx := fh_flashblock_tx self @ [[]]\<rparr>)"

section \<open>The protocol handler\<close>

text \<open>
  \<open>FlashblocksP2PProtocol\<close> has the network handle and the shared handle. Every incoming and outgoing
  connection gets a handler, a peer without the protocol stays connected, and the protocol has one
  message kind.
\<close>

record ('net, 'h) FlashblocksP2PProtocol =
  pr_network :: 'net
  pr_handle :: 'h

definition protocol_new :: "'net \<Rightarrow> 'h \<Rightarrow> ('net, 'h) FlashblocksP2PProtocol" where
  "protocol_new network handle = \<lparr>pr_network = network, pr_handle = handle\<rparr>"

definition capability :: "string \<times> nat" where
  "capability = (''flblk'', 1)"

definition protocol :: "(string \<times> nat) \<times> nat" where
  "protocol = (capability, 1)"

definition on_incoming :: "('net, 'h) FlashblocksP2PProtocol \<Rightarrow> 'addr \<Rightarrow> ('net, 'h) FlashblocksP2PProtocol option" where
  "on_incoming self socket_addr = Some self"

definition on_outgoing ::
  "('net, 'h) FlashblocksP2PProtocol \<Rightarrow> 'addr \<Rightarrow> 'peer \<Rightarrow> ('net, 'h) FlashblocksP2PProtocol option" where
  "on_outgoing self socket_addr peer_id = Some self"

datatype OnNotSupported = KeepAlive

definition on_unsupported_by_peer :: "('net, 'h) FlashblocksP2PProtocol \<Rightarrow> 'peer \<Rightarrow> OnNotSupported" where
  "on_unsupported_by_peer self peer_id = KeepAlive"

text \<open>
  \<open>into_connection\<close>: a new subscription to the peer channel, which sees what is sent from now on, and
  a connection without a payload or received flashblocks.
\<close>

record 'peer peer_connection =
  pc_peer_id :: 'peer
  pc_peer_rx :: nat
  pc_received :: FlashblocksConnection

definition into_connection ::
  "('w, 'b) FlashblocksHandle \<Rightarrow> 'peer \<Rightarrow> 'peer peer_connection \<times> ('w, 'b) FlashblocksHandle" where
  "into_connection handle peer_id =
     (\<lparr>pc_peer_id = peer_id, pc_peer_rx = length (fh_peer_tx handle), pc_received = new_connection\<rparr>,
      handle\<lparr>fh_peer_tx := fh_peer_tx handle @ [[]]\<rparr>)"

text \<open>The publications of a node, one after the other.\<close>

definition publish_all ::
  "((FlashblockMetadata, 'w, 'b) FlashblocksP2PMsg \<Rightarrow> bytes) \<Rightarrow> ('w, 'b) FlashblocksHandle \<Rightarrow>
     (i64 \<times> ('w, 'b) flashblock) list \<Rightarrow> ('w, 'b) FlashblocksHandle" where
  "publish_all encode_msg = foldl (\<lambda>h (now, fb). publish_new append_msgs (\<lambda>rx fbs. rx @ map Ok fbs) encode_msg now h fb)"

section \<open>What a subscription sees\<close>

lemma publish_all_Cons:
  "publish_all enc h (i # is) =
     publish_all enc (publish_new append_msgs (\<lambda>rx fbs. rx @ map Ok fbs) enc (fst i) h (snd i)) is"
  by (simp add: publish_all_def case_prod_unfold)

lemma publish_new_fields:
  "fh_state (publish_new deliver stream enc (fst i) h (snd i)) = fst (publish_step enc (fh_state h) i)"
  "fh_peer_tx (publish_new deliver stream enc (fst i) h (snd i)) =
     map (\<lambda>rx. deliver rx (sent_to_peers (snd (publish_step enc (fh_state h) i)))) (fh_peer_tx h)"
  "fh_flashblock_tx (publish_new deliver stream enc (fst i) h (snd i)) =
     map (\<lambda>rx. stream rx (streamed (snd (publish_step enc (fh_state h) i)))) (fh_flashblock_tx h)"
  by (simp_all add: publish_new_def publish_step_def Let_def case_prod_unfold)

lemma publish_all_run:
  "fh_state (publish_all enc h is) = fst (run (publish_step enc) (fh_state h) is) \<and>
   fh_peer_tx (publish_all enc h is) =
     map (\<lambda>rx. append_msgs rx (sent_to_peers (snd (run (publish_step enc) (fh_state h) is)))) (fh_peer_tx h) \<and>
   fh_flashblock_tx (publish_all enc h is) =
     map (\<lambda>rx. rx @ map Ok (streamed (snd (run (publish_step enc) (fh_state h) is)))) (fh_flashblock_tx h)"
proof (induction "is" arbitrary: h)
  case Nil
  show ?case by (simp add: publish_all_def append_msgs_def)
next
  case (Cons i "is")
  show ?case
    unfolding publish_all_Cons using Cons.IH [of "publish_new append_msgs (\<lambda>rx fbs. rx @ map Ok fbs) enc (fst i) h (snd i)"]
    by (simp add: publish_new_fields append_msgs_def comp_def)
qed

text \<open>
  A new connection sees exactly what is published after it was made: its queue has the messages of the
  later publications, in order; the other connections receive the same behind what they had; and making a
  connection changes neither the state nor the streams.
\<close>

theorem connection_sees_later_publications:
  "let (conn, h') = into_connection h peer; after = publish_all enc h' is; without = publish_all enc h is in
     pc_received conn = new_connection \<and>
     fh_peer_tx after ! pc_peer_rx conn = map Ok (sent_to_peers (snd (run (publish_step enc) (fh_state h) is))) \<and>
     take (pc_peer_rx conn) (fh_peer_tx after) = fh_peer_tx without \<and>
     fh_state after = fh_state without \<and> fh_flashblock_tx after = fh_flashblock_tx without"
  by (simp add: into_connection_def publish_all_run nth_append append_msgs_def)

section \<open>A peer that connects in the middle of a payload\<close>

text \<open>
  The node has the first flashblock of the payload; the peer has only what the connection brought since.
\<close>

definition trails ::
  "payload_id \<Rightarrow> ('w, 'b) FlashblocksP2PState \<Rightarrow> FlashblocksConnection \<Rightarrow> ('w, 'b) FlashblocksP2PState \<Rightarrow> bool" where
  "trails pid sta conn stb \<longleftrightarrow> settled sta \<and> s_payload_id sta = pid \<and> cached sta 0 \<noteq> None \<and> settled stb \<and>
     (\<forall>i \<in> received_from conn pid. cached sta i \<noteq> None) \<and>
     (s_payload_id stb = pid \<longrightarrow> cached stb 0 = None \<and> (\<forall>i. cached stb i \<noteq> None \<longrightarrow> cached sta i \<noteq> None))"

lemma no_first_no_stream:
  assumes "settled st" and "cached st 0 = None"
  shows "emitted st = []"
proof -
  have "s_flashblock_index st = 0" using assms by (auto simp: settled_def buffer_wf_def)
  then show ?thesis by (simp add: emitted_def)
qed

lemma trails_accepted:
  assumes "trails pid sta conn stb" and "fits_frame enc (now, fb)" and "p_payload_id fb = pid"
    and "unat (p_index fb) \<le> MAX_FLASHBLOCK_INDEX" and "cached sta (unat (p_index fb)) = None"
  shows "\<exists>conn'. (handle_flashblocks_payload_v1 False enc now' conn stb fb :: ('e, _) result) =
      Ok (conn', fst (publish enc now' stb fb), map Published (snd (publish enc now' stb fb))) \<and>
      trails pid (fst (publish enc now sta fb)) conn' (fst (publish enc now' stb fb))"
    and "streamed (snd (publish enc now' stb fb)) = []"
proof -
  let ?i = "unat (p_index fb)" and ?stb = "fst (publish enc now' stb fb)" and ?sta = "fst (publish enc now sta fb)"
  note t = assms(1) [unfolded trails_def]
  then have received: "i \<in> received_from conn pid \<Longrightarrow> cached sta i \<noteq> None" for i by simp
  have fits: "fits_frame enc (now', fb)" using assms(2) by (simp add: fits_frame_def)
  have track: "track_payload sta fb = sta" using t assms(3) by (simp add: track_same)
  have behind: "cached (track_payload stb fb) i \<noteq> None \<longrightarrow> cached sta i \<noteq> None \<and> i \<noteq> 0" for i
    using t assms(3) by (cases "i = 0") (auto simp: cached_track)
  then have new: "cached (track_payload stb fb) ?i = None" using assms(5) by blast
  have settled: "settled sta" "settled stb" using t by simp_all
  note acc = publish_accepted [OF settled(1) assms(2,4), unfolded track, OF assms(5)]
    publish_accepted [OF settled(2) fits assms(4) new]
  have first: "?i \<noteq> 0" using t assms(5) by metis
  then have none: "cached ?stb 0 = None" using behind [of 0] acc(4) by auto
  have wf: "buffer_wf sta" "buffer_wf stb" using settled by (simp_all add: settled_def)
  show "streamed (snd (publish enc now' stb fb)) = []"
    using publish_streams [OF wf(2), of enc now' fb] no_first_no_stream [OF acc(3) none] by simp
  have fresh: "?i \<notin> received_from conn (p_payload_id fb)" using received [of ?i] assms(3,5) by metis
  show "\<exists>conn'. (handle_flashblocks_payload_v1 False enc now' conn stb fb :: ('e, _) result) =
      Ok (conn', ?stb, map Published (snd (publish enc now' stb fb))) \<and> trails pid ?sta conn' ?stb"
  proof (cases rule: handle_cases [where debug = False and enc = enc and now = now' and conn = conn
        and st = stb and fb = fb and ?'e = 'e])
    case (forwarded conn')
    have "\<forall>i. cached ?stb i \<noteq> None \<longrightarrow> cached ?sta i \<noteq> None" using behind by (simp add: acc(2,4))
    moreover have "\<forall>i \<in> received_from conn' pid. cached ?sta i \<noteq> None" 
    proof
      fix i
      assume "i \<in> received_from conn' pid"
      then have "i = ?i \<or> i \<in> received_from conn pid" using forwarded(6) assms(3) by simp
      then show "cached ?sta i \<noteq> None" using received [of i] by (auto simp: acc(2))
    qed
    moreover have "s_payload_id ?sta = pid" "cached ?sta 0 \<noteq> None"
      using publish_payload_id [OF wf(1)] assms(3) t by (simp_all add: acc(2))
    ultimately have "trails pid ?sta conn' ?stb" using acc(1,3) none by (simp add: trails_def)
    with forwarded(4) show ?thesis by blast
  qed (use assms(4) fresh in \<open>simp_all add: panics_on_def\<close>)
qed

lemma trails_run:
  assumes "rlp_codec cod valid" and "trails pid sta conn stb" and "quiet conn rx"
    and "\<And>i. i \<in> set is \<Longrightarrow> p_payload_id (snd i) = pid \<and> valid (FlashblocksPayloadMsg (snd i)) \<and>
      fits_frame (encode cod) i \<and> unat (p_index (snd i)) \<le> MAX_FLASHBLOCK_INDEX"
    and "map snd inbox = map wire_bytes (sent_to_peers (snd (run (publish_step (encode cod)) sta is)))"
  shows "\<exists>conn' stb' es armed'.
    (poll_next False cod append_msgs False armed conn stb rx inbox :: ('e, _) result) =
      Ok ((conn', stb', [], []), es, Pending armed') \<and> streamed (published es) = []"
  using assms(2-)
proof (induction "is" arbitrary: sta conn stb rx armed inbox)
  case Nil
  then show ?case by (simp add: poll_quiet_Nil)
next
  case (Cons i "is")
  obtain now fb where i: "i = (now, fb)" by fastforce
  let ?enc = "encode cod" and ?idx = "unat (p_index fb)"
  have fb: "p_payload_id fb = pid" "valid (FlashblocksPayloadMsg fb)" "fits_frame ?enc (now, fb)" "?idx \<le> MAX_FLASHBLOCK_INDEX"
    using Cons.prems(3) [of i] i by simp_all
  have rest: "\<And>i. i \<in> set is \<Longrightarrow> p_payload_id (snd i) = pid \<and> valid (FlashblocksPayloadMsg (snd i)) \<and>
      fits_frame ?enc i \<and> unat (p_index (snd i)) \<le> MAX_FLASHBLOCK_INDEX" using Cons.prems(3) by simp
  have track: "track_payload sta fb = sta" using Cons.prems(1) fb(1) by (simp add: trails_def track_same)
  show ?case
  proof (cases "cached sta ?idx = None")
    case False
    then have pub: "publish ?enc now sta fb = (sta, [])" using publish_ignored [of fb sta ?enc now] by (simp add: track)
    show ?thesis
      using Cons.IH [OF Cons.prems(1,2) rest, of inbox armed] Cons.prems(4) by (simp add: i pub)
  next
    case True
    note acc = trails_accepted [OF Cons.prems(1) fb(3,1,4) True]
    let ?sta = "fst (publish ?enc now sta fb)"
    have sent: "sent_to_peers (snd (publish ?enc now sta fb)) =
        [PeerFlashblocksPayload (p_payload_id fb) ?idx (?enc (FlashblocksPayloadMsg fb))]"
      using fb True by (simp add: sent_publish track)
    then obtain now' inbox' where inbox: "inbox = (now', ?enc (FlashblocksPayloadMsg fb)) # inbox'"
      and inbox': "map snd inbox' = map wire_bytes (sent_to_peers (snd (run (publish_step ?enc) ?sta is)))"
      using Cons.prems(4) by (cases inbox) (auto simp: i wire_bytes_def)
    have dec: "decode cod (?enc (FlashblocksPayloadMsg fb)) = Ok (FlashblocksPayloadMsg fb, [])"
      by (rule rlp_codec.decode_encode_all [OF assms(1) fb(2)])
    let ?stb = "fst (publish ?enc now' stb fb)"
    obtain conn' where handle: "(handle_flashblocks_payload_v1 False ?enc now' conn stb fb :: ('e, _) result) =
        Ok (conn', ?stb, map Published (snd (publish ?enc now' stb fb)))"
      and trails: "trails pid ?sta conn' ?stb" using acc(1) by blast
    note IH = Cons.IH [OF trails handle_quiet [OF handle] rest inbox', of "armed \<or> rx = []"]
    show ?thesis
      using IH acc(2) [of now']
      unfolding inbox poll_quiet_Cons [OF Cons.prems(2) dec handle] by (fastforce simp: i)
  qed
qed

text \<open>
  C27: A late peer streams nothing. When a connection is made while the node already has the first
  flashblock of a payload, then whatever the node publishes of the payload afterwards, the peer decodes it and
  streams nothing: what was published before the connection is never sent to it, and the stream of a payload
  starts at index zero.
\<close>

theorem late_peer_streams_nothing:
  assumes "rlp_codec cod valid"
    and "settled (fh_state h)" and "cached (fh_state h) 0 \<noteq> None"
    and "\<And>i. i \<in> set is \<Longrightarrow> p_payload_id (snd i) = s_payload_id (fh_state h) \<and> valid (FlashblocksPayloadMsg (snd i)) \<and>
      fits_frame (encode cod) i \<and> unat (p_index (snd i)) \<le> MAX_FLASHBLOCK_INDEX"
    and "into_connection h peer = (conn, h')"
    and "fh_peer_tx (publish_all (encode cod) h' is) ! pc_peer_rx conn = map Ok sent" and "map snd inbox = map wire_bytes sent"
  shows "\<exists>conn' receiver es armed.
    (poll_next False cod append_msgs False False new_connection default_p2p_state [] inbox :: ('e, _) result) =
      Ok ((conn', receiver, [], []), es, Pending armed) \<and> streamed (published es) = []"
proof -
  have "trails (s_payload_id (fh_state h)) (fh_state h) new_connection default_p2p_state"
    using assms(2,3) by (simp add: trails_def new_connection_def received_from_def)
  note late = trails_run [OF assms(1) this _ assms(4), of "[]" "is" inbox, where ?'e = 'e and armed = False]
  have "map Ok sent = (map Ok (sent_to_peers (snd (run (publish_step (encode cod)) (fh_state h) is))) :: peer_queue)"
    using assms(5,6) by (auto simp: into_connection_def publish_all_run nth_append append_msgs_def)
  then have "sent = sent_to_peers (snd (run (publish_step (encode cod)) (fh_state h) is))"
    by (rule map_injective) (simp add: inj_def)
  with late assms(7) show ?thesis by (auto simp: quiet_def)
qed

lemma probe_codec_ok: "rlp_codec probe_codec (\<lambda>m. case m of FlashblocksPayloadMsg fb \<Rightarrow> fb = probe 7 (ucast (ucast (p_index fb) :: u8)))"
  by unfold_locales (auto simp: probe_codec_def probe_bytes_def split: list.split FlashblocksP2PMsg.splits)

theorem late_peer_streams_nothing_witness:
  "\<exists>conn' receiver es armed.
    (poll_next False probe_codec append_msgs False False new_connection default_p2p_state [] [(2, [1])] :: (unit, _) result) =
      Ok ((conn', receiver, [], []), es, Pending armed) \<and> streamed (published es) = []"
proof -
  let ?h = "publish_all probe_bytes flashblocks_handle_new [(0, probe 7 0)] :: (unit, unit) FlashblocksHandle"
  let ?later = "[(1 :: i64, probe 7 1)]"
  have enc: "encode probe_codec = probe_bytes" by (simp add: probe_codec_def)
  have first: "settled (fh_state ?h)" "cached (fh_state ?h) = [0 \<mapsto> probe 7 0]" "s_payload_id (fh_state ?h) = 7"
    using publish_accepted [OF settled_default, of probe_bytes 0 "probe 7 0"] publish_payload_id [OF buffer_wf_default, of probe_bytes 0 "probe 7 0"]
    by (simp_all add: publish_all_run flashblocks_handle_new_def run.simps case_prod_unfold Let_def cached_track fun_eq_iff
        MAX_FLASHBLOCK_INDEX_def)
  have sent: "sent_to_peers (snd (run (publish_step probe_bytes) (fh_state ?h) ?later)) = [PeerFlashblocksPayload 7 1 [1]]"
    using first by (simp add: sent_publish cached_track MAX_FLASHBLOCK_INDEX_def probe_bytes_def)
  obtain conn h' where conn: "into_connection ?h ''peer'' = (conn, h')" by fastforce
  have "fh_peer_tx (publish_all (encode probe_codec) h' ?later) ! pc_peer_rx conn = map Ok [PeerFlashblocksPayload 7 1 [1]]"
    using conn sent by (auto simp: into_connection_def publish_all_run nth_append append_msgs_def enc)
  from late_peer_streams_nothing [OF probe_codec_ok first(1) _ _ conn this, of "[(2, [1])]", where ?'e = unit] first
  show ?thesis by (simp add: enc MAX_FLASHBLOCK_INDEX_def wire_bytes_def)
qed

section \<open>A flashblock that does not fit into a frame\<close>

lemma emit_ready_next:
  assumes "cached st (s_flashblock_index st) = Some fb"
  shows "\<exists>st'. snd (emit_ready now st) = fb # snd (emit_ready now st') \<and>
    s_flashblock_index st' = Suc (s_flashblock_index st) \<and> cached st' = cached st"
proof -
  let ?st = "st\<lparr>s_flashblock_timestamp := now, s_flashblock_index := s_flashblock_index st + 1\<rparr>"
  have get: "get (s_flashblocks st) (s_flashblock_index st) = Some (Some fb)"
    using assms by (simp add: cached_def get_def split: if_splits)
  have "snd (emit_ready now st) = fb # snd (emit_ready now ?st)"
    by (subst emit_ready.simps) (simp add: get case_prod_unfold Let_def)
  moreover have "cached ?st = cached st" by (simp add: cached_def fun_eq_iff)
  ultimately show ?thesis by (intro exI [of _ ?st]) simp
qed

lemma publish_keeps_cached:
  assumes "buffer_wf st" and "p_payload_id fb = s_payload_id st" and "cached st k \<noteq> None"
  shows "cached (fst (publish enc now st fb)) k \<noteq> None"
proof (cases rule: publish_cases [where enc = enc and now = now and st = st and fb = fb])
  case (accepted st' events)
  have "buffer_wf (insert_flashblock st fb)" using accepted(1) assms by (simp add: buffer_wf_insert)
  from emit_ready_emits(4) [OF accepted(4) [unfolded track_same [OF assms(2)]] this] accepted(5) assms
  show ?thesis by (simp add: cached_insert)
qed (use assms in \<open>simp_all add: cached_track cached_insert\<close>)

lemma cached_never_sent:
  assumes "buffer_wf st" and "cached st k \<noteq> None" and "\<And>i. i \<in> set is \<Longrightarrow> p_payload_id (snd i) = s_payload_id st"
  shows "k \<notin> peer_index ` set (sent_to_peers (snd (run (publish_step enc) st is)))"
  using assms
proof (induction "is" arbitrary: st)
  case (Cons i "is")
  obtain now fb where i: "i = (now, fb)" by fastforce
  let ?st = "fst (publish enc now st fb)"
  have fb: "p_payload_id fb = s_payload_id st" using Cons.prems(3) [of i] i by simp
  have "buffer_wf ?st" "cached ?st k \<noteq> None" "s_payload_id ?st = s_payload_id st"
    using Cons.prems(1,2) fb by (simp_all add: buffer_wf_publish publish_keeps_cached publish_payload_id)
  then have "k \<notin> peer_index ` set (sent_to_peers (snd (run (publish_step enc) ?st is)))"
    using Cons.prems(3) by (intro Cons.IH) simp_all
  moreover have "k \<notin> peer_index ` set (sent_to_peers (snd (publish enc now st fb)))"
    using Cons.prems(2) fb by (auto simp: sent_publish peer_index_def track_same)
  ultimately show ?case by (auto simp: i)
qed simp

text \<open>
  C37: A flashblock that is too large for a frame is streamed by the node and never sent to its peers. It is
  the next one of the payload, so publishing it streams and sends nothing, but it stays in the buffer; the next
  flashblock then streams both, and whatever of the payload is published later, the first one included, no
  message with its index goes to a peer, so that every peer stops before it.
\<close>

theorem oversized_streamed_never_sent:
  assumes "settled st" and "p_payload_id big = s_payload_id st" and "unat (p_index big) = s_flashblock_index st"
    and "MAX_FRAME < length (enc (FlashblocksPayloadMsg big))"
    and "p_payload_id nxt = s_payload_id st" and "unat (p_index nxt) = Suc (s_flashblock_index st)"
    and "unat (p_index nxt) \<le> MAX_FLASHBLOCK_INDEX" and "cached st (unat (p_index nxt)) = None"
    and "fits_frame enc (t', nxt)" and "\<And>i. i \<in> set later \<Longrightarrow> p_payload_id (snd i) = s_payload_id st"
  shows "snd (publish enc t st big) = [] \<and>
    (\<exists>more. streamed (snd (run (publish_step enc) st ((t, big) # (t', nxt) # later))) = big # nxt # more) \<and>
    unat (p_index big) \<notin> peer_index ` set (sent_to_peers (snd (run (publish_step enc) st ((t, big) # (t', nxt) # later))))"
proof -
  let ?k = "s_flashblock_index st" and ?st = "insert_flashblock st big"
  have free: "cached st ?k = None" and wf: "buffer_wf st" using assms(1) by (simp_all add: settled_def)
  have pub: "publish enc t st big = (?st, [])"
    by (cases rule: publish_cases [where enc = enc and now = t and st = st and fb = big])
      (use assms(2-4,6,7) free in \<open>simp_all add: track_same\<close>)
  have st: "buffer_wf ?st" "cached ?st ?k = Some big" "s_payload_id ?st = s_payload_id st"
    using wf assms(2,3,6,7) by (simp_all add: buffer_wf_insert cached_insert)
  have track: "track_payload ?st nxt = ?st" using assms(5) by (simp add: track_same)
  have "streamed (snd (publish enc t' ?st nxt)) = snd (emit_ready t' (insert_flashblock ?st nxt))"
    by (cases rule: publish_cases [where enc = enc and now = t' and st = ?st and fb = nxt])
      (use assms(3,6-9) in \<open>simp_all add: track cached_insert fits_frame_def\<close>)
  moreover have "\<exists>more. snd (emit_ready t' (insert_flashblock ?st nxt)) = big # nxt # more"
  proof -
    have two: "cached (insert_flashblock ?st nxt) ?k = Some big" "cached (insert_flashblock ?st nxt) (Suc ?k) = Some nxt"
      using st(2) assms(6) by (simp_all add: cached_insert)
    obtain st' where st': "snd (emit_ready t' (insert_flashblock ?st nxt)) = big # snd (emit_ready t' st')"
      "s_flashblock_index st' = Suc ?k" "cached st' = cached (insert_flashblock ?st nxt)"
      using emit_ready_next [of "insert_flashblock ?st nxt" big t'] two(1) by auto
    then show ?thesis using emit_ready_next [of st' nxt t'] two(2) by auto
  qed
  moreover have "?k \<notin> peer_index ` set (sent_to_peers (snd (run (publish_step enc) ?st ((t', nxt) # later))))"
    by (rule cached_never_sent [OF st(1)]) (use st(2,3) assms(5,10) in auto)
  ultimately show ?thesis using assms(3) by (auto simp: pub)
qed

text \<open>An encoding in which only the flashblock with index 0 is too large.\<close>

theorem oversized_streamed_never_sent_witness:
  "let enc = (\<lambda>m. case m of FlashblocksPayloadMsg fb \<Rightarrow> replicate (if p_index fb = 0 then Suc MAX_FRAME else 1) 0) in
   \<exists>more. streamed (snd (run (publish_step enc) (track_payload default_p2p_state (probe 7 0)) [(1, probe 7 0), (2, probe 7 1)])) =
     probe 7 0 # probe 7 1 # more"
proof -
  let ?st = "track_payload default_p2p_state (probe 7 0) :: (unit, unit) FlashblocksP2PState"
  let ?enc = "\<lambda>m. case m of FlashblocksPayloadMsg fb \<Rightarrow> replicate (if p_index fb = 0 then Suc MAX_FRAME else 1) 0"
  have "settled ?st" by (simp add: settled_track)
  moreover have "s_flashblock_index ?st = 0" by (simp add: track_payload_def default_p2p_state_def)
  ultimately show ?thesis
    unfolding Let_def
    by (intro oversized_streamed_never_sent [THEN conjunct2, THEN conjunct1])
      (simp_all add: cached_track fits_frame_def MAX_FLASHBLOCK_INDEX_def MAX_FRAME_def)
qed

end
