(* ===== verification/Wiring.thy ===== *)
theory Wiring
  imports StateExecutor Peering
begin

text \<open>
  How a node is put together: \<^verbatim>\<open>src/node.rs\<close> (the node and its components), \<^verbatim>\<open>src/network.rs\<close> (the
  protocol handler and the launch of the executor) and \<^verbatim>\<open>src/payload.rs\<close> (the payload service).

  A \<open>FlashblocksStateExecutor\<close> is shared by all its clones. The executors are a list here, and a clone is
  a number in it. The builders, the network, the pipeline and the tasks of reth and rblib are parameters;
  what the program asks of them is the list of events it produces.
\<close>

section \<open>The node\<close>

record 'peer FlashblocksNode =
  fn_config :: "'peer WorldChainArgs"
  fn_flashblocks_state :: "nat option"

definition flashblocks_node_new ::
  "'peer WorldChainArgs \<Rightarrow> ('tx, 'w, 'b, 'x, 'q) FlashblocksStateExecutor list \<Rightarrow>
     'peer FlashblocksNode \<times> ('tx, 'w, 'b, 'x, 'q) FlashblocksStateExecutor list" where
  "flashblocks_node_new config executors =
     (\<lparr>fn_config = config, fn_flashblocks_state = Some (length executors)\<rparr>,
      executors @ [state_executor_new (fh_state flashblocks_handle_new) None])"

text \<open>The settings of the add-ons, and those of the components.\<close>

record OpAddOnsBuilder =
  ao_sequencer :: "string option"
  ao_sequencer_headers :: "string list"
  ao_enable_tx_conditional :: bool
  ao_min_suggested_priority_fee :: u64
  ao_historical_rpc :: "string option"

definition add_ons_builder :: "'peer FlashblocksNode \<Rightarrow> OpAddOnsBuilder" where
  "add_ons_builder self =
     (let rollup = wa_rollup (fn_config self) in
      \<lparr>ao_sequencer = ra_sequencer rollup, ao_sequencer_headers = ra_sequencer_headers rollup,
       ao_enable_tx_conditional = ra_enable_tx_conditional rollup,
       ao_min_suggested_priority_fee = ra_min_suggested_priority_fee rollup,
       ao_historical_rpc = ra_historical_rpc rollup\<rparr>)"

definition add_ons :: "(OpAddOnsBuilder \<Rightarrow> 'ao) \<Rightarrow> 'peer FlashblocksNode \<Rightarrow> 'ao" where
  "add_ons op_build self = op_build (add_ons_builder self)"

record FlashblocksNetworkBuilder =
  nb_disable_txpool_gossip :: bool
  nb_disable_discovery_v4 :: bool
  nb_flashblocks_state :: "nat option"

definition network_builder_new :: "bool \<Rightarrow> bool \<Rightarrow> nat option \<Rightarrow> FlashblocksNetworkBuilder" where
  "network_builder_new disable_txpool_gossip disable_discovery_v4 flashblocks_state =
     \<lparr>nb_disable_txpool_gossip = disable_txpool_gossip, nb_disable_discovery_v4 = disable_discovery_v4,
      nb_flashblocks_state = flashblocks_state\<rparr>"

record Components =
  cp_compute_pending_block :: bool
  cp_network :: FlashblocksNetworkBuilder

definition components_builder :: "'peer FlashblocksNode \<Rightarrow> Components" where
  "components_builder self =
     (let rollup = wa_rollup (fn_config self) in
      \<lparr>cp_compute_pending_block = ra_compute_pending_block rollup,
       cp_network = network_builder_new (ra_disable_txpool_gossip rollup) (\<not> ra_discovery_v4 rollup)
         (fn_flashblocks_state self)\<rparr>)"

text \<open>\<open>FlashblocksP2p\<close> of \<^verbatim>\<open>src/flashblocks/p2p.rs\<close>: an executor to publish with.\<close>

record ('tx, 'w, 'b, 'x, 'q) FlashblocksP2p =
  fp_flashblocks_state :: "('tx, 'w, 'b, 'x, 'q) FlashblocksStateExecutor"

definition flashblocks_p2p_new ::
  "('tx, 'w, 'b, 'x, 'q) FlashblocksStateExecutor \<Rightarrow> ('tx, 'w, 'b, 'x, 'q) FlashblocksP2p" where
  "flashblocks_p2p_new flashblocks_state = \<lparr>fp_flashblocks_state = flashblocks_state\<rparr>"

definition flashblocks_p2p_publish ::
  "((FlashblockMetadata, 'w, 'b) FlashblocksP2PMsg \<Rightarrow> bytes) \<Rightarrow> i64 \<Rightarrow> ('tx, 'w, 'b, 'x, 'q) FlashblocksP2p \<Rightarrow>
     ('w, 'b) flashblock \<Rightarrow> ('tx, 'w, 'b, 'x) OpBuiltPayload \<Rightarrow>
     ('tx, 'w, 'b, 'x, 'q) FlashblocksP2p \<times> (flashblocks_error, ('tx, 'w, 'b, 'x, 'q) exec_effect list) result" where
  "flashblocks_p2p_publish encode_msg now self payload built_payload =
     (let (flashblocks_state, r) = publish_built_payload encode_msg now (fp_flashblocks_state self) payload built_payload
      in (self\<lparr>fp_flashblocks_state := flashblocks_state\<rparr>, r))"

section \<open>The network\<close>

text \<open>What the program hands to reth, in order.\<close>

datatype ('net, 'st, 'q) wiring_event =
    AddRlpxSubProtocol "('net, nat) FlashblocksP2PProtocol"
  | SubscribeStream nat
  | SpawnCritical string "nat option"
  | PayloadMetrics string
  | InitMetrics 'st string
  | Setup 'st string
  | RegisterPayloadEvents nat 'q

text \<open>\<open>launch\<close>: the stream is subscribed to before the task of the loop is spawned.\<close>

definition launch_executor :: "nat \<Rightarrow> ('net, 'st, 'q) wiring_event list" where
  "launch_executor executor = [SubscribeStream executor, SpawnCritical ''flashblocks executor'' (Some executor)]"

text \<open>\<open>build_network\<close>, over the network builder of reth: a failure of it ends the start of the node.\<close>

definition build_network ::
  "(bool \<Rightarrow> bool \<Rightarrow> ('e, 'net) result) \<Rightarrow> FlashblocksNetworkBuilder \<Rightarrow>
     ('net, 'st, 'q) wiring_event list \<times> ('e, 'net) result" where
  "build_network inner self =
     (case inner (nb_disable_txpool_gossip self) (nb_disable_discovery_v4 self) of
        Err e \<Rightarrow> ([], Err e)
      | Panic \<Rightarrow> ([], Panic)
      | Ok handle \<Rightarrow>
          (case nb_flashblocks_state self of
             Some executor \<Rightarrow> (AddRlpxSubProtocol (protocol_new handle executor) # launch_executor executor, Ok handle)
           | None \<Rightarrow> ([], Ok handle)))"

section \<open>The payload service\<close>

text \<open>
  The pipeline of rblib: its name, its steps, the path of a step (none is a panic) and the \<open>setup\<close>
  of a step, which may fail.
\<close>

record ('e, 'st) pipeline =
  pl_name :: string
  pl_steps :: "'st list"
  pl_navigator :: "'st \<Rightarrow> string option"
  pl_setup :: "'st \<Rightarrow> string \<Rightarrow> ('e, unit) result"

definition metrics_scope :: "('e, 'st) pipeline \<Rightarrow> string \<Rightarrow> string" where
  "metrics_scope pipeline path = pl_name pipeline @ ''_step_'' @ path"

fun setup_steps :: "('e, 'st) pipeline \<Rightarrow> 'st list \<Rightarrow> ('net, 'st, 'q) wiring_event list \<times> ('e, unit) result" where
  "setup_steps pipeline [] = ([], Ok ())"
| "setup_steps pipeline (st # steps) =
     (case pl_navigator pipeline st of
        None \<Rightarrow> ([], Panic)
      | Some path \<Rightarrow>
          (let scope = metrics_scope pipeline path; events = [InitMetrics st scope, Setup st scope] in
           case pl_setup pipeline st scope of
             Err e \<Rightarrow> (events, Err e)
           | Panic \<Rightarrow> (events, Panic)
           | Ok _ \<Rightarrow> (let (later, res) = setup_steps pipeline steps in (events @ later, res))))"

record ('e, 'st) WorldChainServiceBuilder =
  sb_inner :: "('e, 'st) pipeline"
  sb_state_executor :: "nat option"

definition service_builder_new :: "('e, 'st) pipeline \<Rightarrow> nat \<Rightarrow> ('e, 'st) WorldChainServiceBuilder" where
  "service_builder_new inner state_executor = \<lparr>sb_inner = inner, sb_state_executor = Some state_executor\<rparr>"

text \<open>
  \<open>spawn_payload_builder_service\<close>: \<open>new_service\<close> is the constructor of reth's service, with the
  handle of its events and the handle that is returned.
\<close>

definition spawn_payload_builder_service ::
  "('q \<times> 'handle) \<Rightarrow> ('e, 'st) WorldChainServiceBuilder \<Rightarrow>
     ('tx, 'w, 'b, 'x, 'q) FlashblocksStateExecutor list \<Rightarrow>
     ('tx, 'w, 'b, 'x, 'q) FlashblocksStateExecutor list \<times> ('net, 'st, 'q) wiring_event list \<times> ('e, 'handle) result" where
  "spawn_payload_builder_service new_service self executors =
     (let (events, res) = setup_steps (sb_inner self) (pl_steps (sb_inner self));
          events = PayloadMetrics (pl_name (sb_inner self) @ ''_payloads'') # events in
      case res of
        Err e \<Rightarrow> (executors, events, Err e)
      | Panic \<Rightarrow> (executors, events, Panic)
      | Ok _ \<Rightarrow>
          (let (payload_events, handle) = new_service;
               (executors, registered) =
                 (case sb_state_executor self of
                    Some i \<Rightarrow> (executors[i := register_payload_events (executors ! i) payload_events],
                              [RegisterPayloadEvents i payload_events])
                  | None \<Rightarrow> (executors, []))
           in (executors, events @ registered @ [SpawnCritical ''payload_builder_service'' None], Ok handle)))"

section \<open>Properties\<close>

text \<open>The steps of a pipeline that can be set up, and the events of one.\<close>

definition step_ready :: "('e, 'st) pipeline \<Rightarrow> 'st \<Rightarrow> bool" where
  "step_ready pipeline st \<longleftrightarrow> (\<exists>path. pl_navigator pipeline st = Some path \<and>
     pl_setup pipeline st (metrics_scope pipeline path) = Ok ())"

definition step_events :: "('e, 'st) pipeline \<Rightarrow> 'st \<Rightarrow> ('net, 'st, 'q) wiring_event list" where
  "step_events pipeline st =
     (case pl_navigator pipeline st of
        None \<Rightarrow> []
      | Some path \<Rightarrow> [InitMetrics st (metrics_scope pipeline path), Setup st (metrics_scope pipeline path)])"

lemma setup_steps_events:
  "fst (setup_steps pipeline steps) = (concat (map (step_events pipeline)
     (takeWhile (step_ready pipeline) steps @ take 1 (dropWhile (step_ready pipeline) steps))) ::
       ('net, 'st, 'q) wiring_event list) \<and>
   (snd (setup_steps pipeline steps :: ('net, 'st, 'q) wiring_event list \<times> _) = Ok () \<longleftrightarrow> (\<forall>st \<in> set steps. step_ready pipeline st))"
  by (induction steps) (auto simp: step_ready_def step_events_def Let_def split: option.splits result.splits prod.splits)

text \<open>
  C29: The service starts only behind a complete setup. The steps of the pipeline are set up one
  after the other, each after its metrics were named, up to the first one that cannot be; when one cannot,
  the start fails, nothing is registered and no service is spawned; otherwise the events of the service are
  registered with the executor before the service is spawned, last of all.
\<close>

theorem service_starts_after_setup:
  fixes builder :: "('e, 'st) WorldChainServiceBuilder"
    and executors :: "('tx, 'w, 'b, 'x, 'q) FlashblocksStateExecutor list"
  shows "let steps = pl_steps (sb_inner builder); ready = step_ready (sb_inner builder);
       setup = PayloadMetrics (pl_name (sb_inner builder) @ ''_payloads'') # concat (map (step_events (sb_inner builder)) (takeWhile ready steps @ take 1 (dropWhile ready steps)));
       (executors', events :: ('net, 'st, 'q) wiring_event list, res) =
         spawn_payload_builder_service (q, handle) builder executors
     in if list_all ready steps
        then res = Ok handle \<and> tl setup = concat (map (step_events (sb_inner builder)) steps) \<and>
          (case sb_state_executor builder of
             Some i \<Rightarrow> executors' = executors[i := (executors ! i)\<lparr>se_payload_events := Some q\<rparr>] \<and>
               events = setup @ [RegisterPayloadEvents i q, SpawnCritical ''payload_builder_service'' None]
           | None \<Rightarrow> executors' = executors \<and> events = setup @ [SpawnCritical ''payload_builder_service'' None])
        else (\<forall>h. res \<noteq> Ok h) \<and> executors' = executors \<and> events = setup"
proof -
  let ?steps = "pl_steps (sb_inner builder)" and ?ready = "step_ready (sb_inner builder)"
  obtain events :: "('net, 'st, 'q) wiring_event list" and res
    where run: "setup_steps (sb_inner builder) ?steps = (events, res)" by fastforce
  have facts: "events = concat (map (step_events (sb_inner builder))
      (takeWhile ?ready ?steps @ take 1 (dropWhile ?ready ?steps)))"
    "res = Ok () \<longleftrightarrow> list_all ?ready ?steps"
    using setup_steps_events [where 'net = 'net and 'q = 'q, of "sb_inner builder" ?steps]
    by (simp_all add: run list_all_iff)
  show ?thesis
  proof (cases "list_all ?ready ?steps")
    case True
    then have all: "takeWhile ?ready ?steps = ?steps" "dropWhile ?ready ?steps = []"
      by (simp_all add: list_all_iff)
    have "res = Ok ()" using True facts(2) by blast
    with True facts(1) run show ?thesis
      by (simp add: spawn_payload_builder_service_def Let_def all register_payload_events_def split: option.split)
  next
    case False
    then have "res \<noteq> Ok ()" using facts(2) by blast
    with False facts(1) run show ?thesis
      by (cases res) (simp_all add: spawn_payload_builder_service_def Let_def)
  qed
qed

text \<open>
  C28: The parts of a node share one executor. A new node whose network and payload service start: the
  protocol handler of its peers, the loop that processes flashblocks and the payload service have the
  executor of the node, the stream of the loop is subscribed to before the loop runs and after the protocol was
  added; and whenever the executor, whose events the service registered, builds a flashblock it has not processed, the
  built payload is sent to the payload service.
\<close>

theorem node_shares_executor:
  fixes executors :: "('tx, 'w, 'acc list, ('tx, 'w, 'acc list, 'log, 'u, 'h, 't) executed_block, 'q) FlashblocksStateExecutor list"
    and env :: "('e, 'tx, 'w, 'log, 'u, 'i, 'slot, 'st, 'h, 't, 's, 'acc, 'inf, 'sto, 'x, 'ctx) node_env"
  assumes "flashblocks_node_new config executors = (node, executors1)"
    and "build_network inner (cp_network (components_builder node)) = (events, Ok net)"
    and "fn_flashblocks_state node = Some executor"
    and "spawn_payload_builder_service (q, handle) (service_builder_new pipeline executor) executors1 =
      (executors2, events', Ok handle)"
    and "process_flashblock debug env self fb = Some (self', Ok es)" and "already_processed self fb = None"
    and "flashblocks_wf (se_flashblocks self)"
    and "se_payload_events self = se_payload_events (executors2 ! executor)"
  shows "events = [AddRlpxSubProtocol \<lparr>pr_network = net, pr_handle = executor\<rparr>, SubscribeStream executor,
      SpawnCritical ''flashblocks executor'' (Some executor)] \<and>
    RegisterPayloadEvents executor q \<in> set events' \<and> last events' = SpawnCritical ''payload_builder_service'' None \<and>
    (\<exists>payload. es = [BuiltPayload q payload] \<and> se_latest_payload self' = Some (payload, p_index fb))"
proof -
  have node: "executor = length executors" "length executors1 = Suc (length executors)"
    "nb_flashblocks_state (cp_network (components_builder node)) = Some executor"
    using assms(1,3) by (auto simp: flashblocks_node_new_def components_builder_def network_builder_new_def Let_def)
  have network: "events = [AddRlpxSubProtocol \<lparr>pr_network = net, pr_handle = executor\<rparr>, SubscribeStream executor,
      SpawnCritical ''flashblocks executor'' (Some executor)]"
    using assms(2) node(3) by (auto simp: build_network_def launch_executor_def protocol_new_def split: result.splits)
  have service: "se_payload_events (executors2 ! executor) = Some q" "RegisterPayloadEvents executor q \<in> set events'"
    "last events' = SpawnCritical ''payload_builder_service'' None"
    using assms(4) node(1,2)
    by (auto simp: spawn_payload_builder_service_def service_builder_new_def register_payload_events_def Let_def
        split: result.splits prod.splits)
  from assms(7,5) have "\<exists>payload. es = [BuiltPayload q payload] \<and> se_latest_payload self' = Some (payload, p_index fb)"
  proof (cases rule: process_cases)
    case (built outcome payload)
    then show ?thesis using assms(8) service(1) by (auto simp: broadcast_payload_def)
  qed (use assms(6) in auto)
  with network service(2,3) show ?thesis by blast
qed

definition example_config :: "string WorldChainArgs" where
  "example_config = \<lparr>wa_rollup = \<lparr>ra_sequencer = None, ra_sequencer_headers = [], ra_disable_txpool_gossip = False,
       ra_compute_pending_block = False, ra_discovery_v4 = True, ra_enable_tx_conditional = False,
       ra_min_suggested_priority_fee = 0, ra_historical_rpc = None\<rparr>,
     wa_flashblocks = None, wa_tx_peers = None\<rparr>"

definition example_pipeline :: "(unit, nat) pipeline" where
  "example_pipeline = \<lparr>pl_name = ''main'', pl_steps = [3], pl_navigator = (\<lambda>_. Some ''0''), pl_setup = (\<lambda>_ _. Ok ())\<rparr>"

theorem node_shares_executor_witness:
  "\<exists>self payload. process_flashblock False (example_node (example_env []))
     (example_self\<lparr>se_payload_events := Some ()\<rparr>) (node_flashblock 7 5 0 [[4]] 0) = Some (self, Ok [BuiltPayload () payload]) \<and>
   se_latest_payload self = Some (payload, 0)"
proof -
  let ?self = "example_self\<lparr>se_payload_events := Some ()\<rparr>" and ?fb = "node_flashblock 7 5 0 [[4]] 0"
  obtain node executors where node: "flashblocks_node_new example_config [example_self] = (node, executors)" by fastforce
  have exec: "fn_flashblocks_state node = Some 1" using node by (auto simp: flashblocks_node_new_def)
  obtain events where net: "build_network (\<lambda>_ _. (Ok () :: (unit, _) result)) (cp_network (components_builder node)) =
      (events, Ok ())"
    using exec by (fastforce simp: build_network_def components_builder_def network_builder_new_def Let_def)
  obtain executors' events' where spawn: "spawn_payload_builder_service ((), ())
      (service_builder_new example_pipeline 1) executors = (executors', events', Ok ())"
    and registered: "se_payload_events (executors' ! 1) = Some ()"
    using node by (auto simp: spawn_payload_builder_service_def service_builder_new_def example_pipeline_def Let_def
        flashblocks_node_new_def register_payload_events_def)
  obtain s es where run: "process_flashblock False (example_node (example_env [])) ?self ?fb = Some (s, Ok es)"
    by (fastforce simp: node_simps Let_def)
  have new: "already_processed ?self ?fb = None" and wf: "flashblocks_wf (se_flashblocks ?self)"
    by (simp_all add: example_self_def state_executor_new_def default_flashblocks_wf already_processed_def)
  have same: "se_payload_events ?self = se_payload_events (executors' ! 1)" using registered by simp
  from node_shares_executor [OF node net exec spawn run new wf same] run
  show ?thesis by (auto simp: node_flashblock_def)
qed

text \<open>
  Two settings are without effect. The peers that transactions are to be propagated to and the
  arguments of the flashblocks are read by neither the components nor the add-ons of the node, although a
  configuration that keeps the peers logs that the propagation is restricted to them.
\<close>

theorem components_ignore_settings:
  "components_builder (node\<lparr>fn_config := (fn_config node)\<lparr>wa_tx_peers := peers, wa_flashblocks := flashblocks\<rparr>\<rparr>) =
     components_builder node \<and>
   add_ons op_build (node\<lparr>fn_config := (fn_config node)\<lparr>wa_tx_peers := peers, wa_flashblocks := flashblocks\<rparr>\<rparr>) =
     add_ons op_build node"
  by (simp add: components_builder_def network_builder_new_def add_ons_def add_ons_builder_def Let_def)

end
