(* ===== verification/Trees.thy ===== *)
theory Trees
  imports Overlap
begin

text \<open>
  Networks without cycles. A publisher sends one payload after the other, and the flashblocks reach every node over
  a tree of connections: no node relays anything twice or sends anything back, however the tasks of the nodes
  interleave, so that every stream is the flashblocks of all payloads in order. The steps are the calls of
  \<open>poll_next\<close> and \<open>publish\<close> as a whole (\<open>task_step\<close> of \<open>Network\<close>). The broadcast channel is any that keeps up to its
  capacity; since a run may publish more than it holds, the runs are those in which no receiver lags, that is, in
  which the queues have room for what a step adds to them (\<open>has_room\<close>). With a cycle of connections none of this
  holds (\<open>Overlap\<close>).
\<close>

section \<open>One payload after the other\<close>

definition comes_next :: "('w, 'b) flashblock \<Rightarrow> ('w, 'b) flashblock \<Rightarrow> bool" where
  "comes_next a b \<longleftrightarrow> (if p_payload_id b = p_payload_id a then idx b = Suc (idx a) else idx b = 0)"

definition one_by_one ::
  "(FlashblockMetadata, 'w, 'b) FlashblocksP2PMsg codec \<Rightarrow> ((FlashblockMetadata, 'w, 'b) FlashblocksP2PMsg \<Rightarrow> bool) \<Rightarrow>
     ('w, 'b) flashblock list \<Rightarrow> bool" where
  "one_by_one cod valid fbs \<longleftrightarrow> (fbs \<noteq> [] \<longrightarrow> idx (hd fbs) = 0) \<and> successively comes_next fbs \<and>
     (\<forall>fb \<in> set fbs. valid (FlashblocksPayloadMsg fb) \<and> length (encode cod (FlashblocksPayloadMsg fb)) \<le> MAX_FRAME \<and>
        idx fb \<le> MAX_FLASHBLOCK_INDEX)"

text \<open>The state of a node that has published the flashblocks so far, one by one.\<close>

definition at_tip :: "('w, 'b) flashblock list \<Rightarrow> ('w, 'b) FlashblocksP2PState \<Rightarrow> bool" where
  "at_tip past st \<longleftrightarrow> settled st \<and>
     (if past = [] then \<forall>i. cached st i = None
      else s_payload_id st = p_payload_id (last past) \<and> (\<forall>i. cached st i \<noteq> None \<longleftrightarrow> i \<le> idx (last past)))"

lemma at_tip_start: "at_tip [] default_p2p_state"
  by (simp add: at_tip_def)

lemma at_tip_same:
  assumes "settled st'" and "s_payload_id st' = s_payload_id st" and "cached st' = cached st"
  shows "at_tip past st \<longleftrightarrow> settled st \<and> at_tip past st'"
  using assms by (auto simp: at_tip_def)

lemma settled_emitted:
  assumes "settled st" and "\<And>i. cached st i \<noteq> None \<longleftrightarrow> i < n"
  shows "emitted st = map (\<lambda>i. the (cached st i)) [0..<n]"
proof -
  have "\<not> s_flashblock_index st < n" using assms(1) assms(2) [of "s_flashblock_index st"] by (simp add: settled_def)
  moreover have "s_flashblock_index st \<le> n" using assms by (auto simp: settled_def buffer_wf_def not_less [symmetric])
  ultimately show ?thesis using assms(1) by (simp add: settled_def emitted_conv_cached)
qed

lemma tip_publish:
  assumes "one_by_one cod valid (past @ fb # later)" and "at_tip past st"
  shows "at_tip (past @ [fb]) (fst (publish (encode cod) now st fb))"
    and "streamed (snd (publish (encode cod) now st fb)) = [fb]"
    and "sent_to_peers (snd (publish (encode cod) now st fb)) = [peer_msg (encode cod) fb]"
proof -
  let ?t = "track_payload st fb" and ?st = "fst (publish (encode cod) now st fb)"
  have fits: "fits_frame (encode cod) (now, fb)" and bound: "idx fb \<le> MAX_FLASHBLOCK_INDEX"
    using assms(1) by (simp_all add: one_by_one_def fits_frame_def)
  have settled: "settled st" and wf: "buffer_wf st" using assms(2) by (simp_all add: at_tip_def settled_def)
  have before: "cached ?t i \<noteq> None \<longleftrightarrow> i < idx fb" for i
  proof (cases "past = []")
    case True
    then show ?thesis using assms by (simp add: at_tip_def one_by_one_def cached_track)
  next
    case False
    then have "comes_next (last past) fb" using assms(1) by (simp add: one_by_one_def successively_append_iff)
    then show ?thesis using assms(2) False by (auto simp: at_tip_def comes_next_def cached_track split: if_splits)
  qed
  then have new: "cached ?t (idx fb) = None" by blast
  note acc = publish_accepted [OF settled fits bound new]
  have after: "cached ?st i \<noteq> None \<longleftrightarrow> i < Suc (idx fb)" for i
    using before [of i] by (auto simp: acc(2) less_Suc_eq)
  then show "at_tip (past @ [fb]) ?st"
    using acc(1) publish_payload_id [OF wf] by (simp add: at_tip_def less_Suc_eq_le)
  have "emitted ?st = emitted ?t @ [fb]"
    using settled_emitted [OF acc(1) after] settled_emitted [OF settled_track [OF settled] before] by (simp add: acc(2))
  then show "streamed (snd (publish (encode cod) now st fb)) = [fb]" using publish_streams [OF wf] by simp
  show "sent_to_peers (snd (publish (encode cod) now st fb)) = [peer_msg (encode cod) fb]"
    using fits bound new by (simp add: sent_publish peer_msg_def fits_frame_def)
qed

lemma tip_run:
  assumes "one_by_one cod valid (past @ map snd is @ later)" and "at_tip past st"
  shows "at_tip (past @ map snd is) (fst (run (publish_step (encode cod)) st is)) \<and>
    streamed (snd (run (publish_step (encode cod)) st is)) = map snd is \<and>
    sent_to_peers (snd (run (publish_step (encode cod)) st is)) = map (peer_msg (encode cod) \<circ> snd) is"
  using assms
proof (induction "is" arbitrary: past st)
  case (Cons i "is")
  obtain now fb where i: "i = (now, fb)" by fastforce
  have seq: "one_by_one cod valid (past @ fb # map snd is @ later)" using Cons.prems(1) by (simp add: i)
  note step = tip_publish [OF seq Cons.prems(2), of now]
  have "one_by_one cod valid ((past @ [fb]) @ map snd is @ later)" using seq by simp
  from Cons.IH [OF this step(1)] step show ?case by (simp add: i)
qed simp

section \<open>Trees of connections\<close>

text \<open>The nodes are a set with a publisher; every other node has a parent nearer to it, and the links are those between
  a node and its parent, in both directions.\<close>

definition tree :: "'n set \<Rightarrow> 'n \<Rightarrow> ('n \<Rightarrow> 'n) \<Rightarrow> ('n \<Rightarrow> nat) \<Rightarrow> bool" where
  "tree nodes origin parent depth \<longleftrightarrow> origin \<in> nodes \<and>
     (\<forall>b \<in> nodes - {origin}. parent b \<in> nodes \<and> depth (parent b) < depth b)"

definition child :: "'n set \<Rightarrow> 'n \<Rightarrow> ('n \<Rightarrow> 'n) \<Rightarrow> 'n \<Rightarrow> 'n \<Rightarrow> bool" where
  "child nodes origin parent a b \<longleftrightarrow> b \<in> nodes - {origin} \<and> parent b = a"

definition tree_links :: "'n set \<Rightarrow> 'n \<Rightarrow> ('n \<Rightarrow> 'n) \<Rightarrow> 'n \<Rightarrow> 'n \<Rightarrow> bool" where
  "tree_links nodes origin parent a b \<longleftrightarrow> child nodes origin parent a b \<or> child nodes origin parent b a"

lemma tree_child:
  assumes "tree nodes origin parent depth" and "child nodes origin parent a b"
  shows "a \<noteq> b" and "\<not> child nodes origin parent b a" and "b \<noteq> origin" and "a \<in> nodes" and "b \<in> nodes"
proof -
  have b: "b \<in> nodes" "b \<noteq> origin" "parent b = a" using assms(2) by (simp_all add: child_def)
  with assms(1) have less: "a \<in> nodes" "depth a < depth b" by (auto simp: tree_def)
  then show "a \<noteq> b" "a \<in> nodes" "b \<in> nodes" "b \<noteq> origin" using b by auto
  show "\<not> child nodes origin parent b a"
  proof
    assume "child nodes origin parent b a"
    then have a: "a \<in> nodes - {origin}" "parent a = b" by (simp_all add: child_def)
    then have "depth (parent a) < depth a" using assms(1) unfolding tree_def by blast
    with a(2) less show False by simp
  qed
qed

lemma child_unique: "child nodes origin parent a b \<Longrightarrow> child nodes origin parent a' b \<Longrightarrow> a = a'"
  by (simp add: child_def)

lemma not_child_origin [simp]: "\<not> child nodes origin parent a origin"
  by (simp add: child_def)

text \<open>
  The invariant: what a node streamed is what its parent streamed up to what is on the wire and what is in the
  queue between them, the queue is within the capacity of its channel, nothing is queued or under way upwards, and no node has heard of its children.
\<close>

definition tree_edge ::
  "(FlashblockMetadata, 'w, 'b) FlashblocksP2PMsg codec \<Rightarrow> ('n, 'w, 'b) network \<Rightarrow> 'n \<Rightarrow> 'n \<Rightarrow> bool" where
  "tree_edge cod nw a b \<longleftrightarrow> mirrors (nw_state nw b) (nw_conn nw b a) (nw_state nw b) \<and>
     (\<exists>way queue. nw_stream nw a = nw_stream nw b @ way @ queue \<and>
        nw_wire nw a b = map (\<lambda>fb. encode cod (FlashblocksPayloadMsg fb)) way \<and>
        nw_rx nw a b = map (\<lambda>fb. Ok (peer_msg (encode cod) fb)) queue \<and> length queue \<le> BROADCAST_BUFFER_CAPACITY) \<and>
     nw_rx nw b a = [] \<and> nw_wire nw b a = [] \<and> nw_conn nw a b = new_connection"

definition tree_inv ::
  "(FlashblockMetadata, 'w, 'b) FlashblocksP2PMsg codec \<Rightarrow> 'n set \<Rightarrow> 'n \<Rightarrow> ('n \<Rightarrow> 'n) \<Rightarrow> ('w, 'b) flashblock list \<Rightarrow>
     ('n, 'w, 'b) network \<Rightarrow> bool" where
  "tree_inv cod nodes origin parent fbs nw \<longleftrightarrow> fbs = nw_stream nw origin @ nw_left nw \<and>
     (\<forall>x. at_tip (nw_stream nw x) (nw_state nw x)) \<and>
     (\<forall>a b. child nodes origin parent a b \<longrightarrow> tree_edge cod nw a b)"

lemma tree_edgeI:
  assumes "mirrors (nw_state nw b) (nw_conn nw b a) (nw_state nw b)" and "nw_stream nw a = nw_stream nw b @ way @ queue"
    and "nw_wire nw a b = map (\<lambda>fb. encode cod (FlashblocksPayloadMsg fb)) way"
    and "nw_rx nw a b = map (\<lambda>fb. Ok (peer_msg (encode cod) fb)) queue" and "length queue \<le> BROADCAST_BUFFER_CAPACITY"
    and "nw_rx nw b a = []" and "nw_wire nw b a = []" and "nw_conn nw a b = new_connection"
  shows "tree_edge cod nw a b"
  using assms by (auto simp: tree_edge_def)

lemma tree_inv_start:
  "tree_inv cod nodes origin parent fbs (start_network fbs)"
  by (simp add: tree_inv_def tree_edge_def start_network_def at_tip_start mirrors_def received_from_def new_connection_def)

lemma tree_invD:
  assumes "tree_inv cod nodes origin parent fbs nw"
  shows "fbs = nw_stream nw origin @ nw_left nw" and "at_tip (nw_stream nw x) (nw_state nw x)"
    and "child nodes origin parent a b \<Longrightarrow> mirrors (nw_state nw b) (nw_conn nw b a) (nw_state nw b)"
    and "child nodes origin parent a b \<Longrightarrow> \<exists>way queue. nw_stream nw a = nw_stream nw b @ way @ queue \<and>
      nw_wire nw a b = map (\<lambda>fb. encode cod (FlashblocksPayloadMsg fb)) way \<and>
      nw_rx nw a b = map (\<lambda>fb. Ok (peer_msg (encode cod) fb)) queue \<and> length queue \<le> BROADCAST_BUFFER_CAPACITY"
    and "child nodes origin parent a b \<Longrightarrow> nw_rx nw b a = [] \<and> nw_wire nw b a = [] \<and> nw_conn nw a b = new_connection"
  using assms by (simp_all add: tree_inv_def tree_edge_def)

lemma tree_queue_short:
  assumes "tree_inv cod nodes origin parent fbs nw" and "tree_links nodes origin parent a b"
  shows "length (nw_rx nw a b) \<le> BROADCAST_BUFFER_CAPACITY"
  using tree_invD(4,5) [OF assms(1)] assms(2) by (fastforce simp: tree_links_def)

text \<open>Down the tree, a stream is a prefix of the one above it.\<close>

lemma tree_prefix:
  assumes "tree nodes origin parent depth" and "tree_inv cod nodes origin parent fbs nw" and "x \<in> nodes"
  shows "prefix (nw_stream nw x) fbs"
  using assms(3)
proof (induction "depth x" arbitrary: x rule: less_induct)
  case less
  show ?case
  proof (cases "x = origin")
    case True
    then show ?thesis using tree_invD(1) [OF assms(2)] by simp
  next
    case False
    then have c: "child nodes origin parent (parent x) x" using less.prems by (simp add: child_def)
    have "parent x \<in> nodes" "depth (parent x) < depth x" using assms(1) less.prems False by (simp_all add: tree_def)
    then have "prefix (nw_stream nw (parent x)) fbs" by (intro less.hyps)
    moreover obtain way queue where "nw_stream nw (parent x) = nw_stream nw x @ way @ queue"
      using tree_invD(4) [OF assms(2) c] by blast
    ultimately show ?thesis by (metis prefixI prefix_order.trans)
  qed
qed

lemma prefix_one_by_one:
  assumes "one_by_one cod valid fbs" and "prefix xs fbs"
  shows "one_by_one cod valid xs"
  using assms by (auto simp: one_by_one_def prefix_def successively_append_iff)

section \<open>Receivers that do not lag\<close>

text \<open>
  What a step adds to the stream of a node, which sends each of its flashblocks to the nodes below it, finds room in
  their queues: the condition under which the channel of the code does not drop anything. It holds in particular as
  long as no node is further behind the one above it than the capacity of the channel.
\<close>

definition has_room :: "('n \<Rightarrow> 'n \<Rightarrow> bool) \<Rightarrow> ('n, 'w, 'b) network \<Rightarrow> ('n, 'w, 'b) network \<Rightarrow> bool" where
  "has_room below nw nw' \<longleftrightarrow> (\<forall>a b. below a b \<longrightarrow>
     length (nw_rx nw a b) + (length (nw_stream nw' a) - length (nw_stream nw a)) \<le> BROADCAST_BUFFER_CAPACITY)"

lemma has_roomD:
  assumes "has_room below nw nw'" and "below a b" and "nw_stream nw' a = nw_stream nw a @ fbs"
  shows "length (nw_rx nw a b) + length fbs \<le> BROADCAST_BUFFER_CAPACITY"
  using assms by (fastforce simp: has_room_def)

lemma keeps_upD:
  assumes "keeps_up deliver" and "length rx + length ms \<le> BROADCAST_BUFFER_CAPACITY"
  shows "deliver rx ms = append_msgs rx ms"
  using assms by (simp add: keeps_up_def)

lemma keeps_up_empty:
  assumes "keeps_up deliver" and "length ms \<le> 1"
  shows "deliver [] ms = append_msgs [] ms"
  using assms by (simp add: keeps_up_def BROADCAST_BUFFER_CAPACITY_def)

text \<open>The calls of the tasks in a tree without a receiver that lags.\<close>

definition paced_step ::
  "(peer_queue \<Rightarrow> PeerMsg list \<Rightarrow> peer_queue) \<Rightarrow> (FlashblockMetadata, 'w, 'b) FlashblocksP2PMsg codec \<Rightarrow> 'n set \<Rightarrow> 'n \<Rightarrow>
     ('n \<Rightarrow> 'n) \<Rightarrow> ('n, 'w, 'b) network \<Rightarrow> ('n, 'w, 'b) network \<Rightarrow> bool" where
  "paced_step deliver cod nodes origin parent nw nw' \<longleftrightarrow>
     (\<exists>es. task_step deliver cod (tree_links nodes origin parent) origin nw es nw') \<and>
     has_room (child nodes origin parent) nw nw'"

abbreviation tasks_reach ::
  "(peer_queue \<Rightarrow> PeerMsg list \<Rightarrow> peer_queue) \<Rightarrow> (FlashblockMetadata, 'w, 'b) FlashblocksP2PMsg codec \<Rightarrow> 'n set \<Rightarrow> 'n \<Rightarrow>
     ('n \<Rightarrow> 'n) \<Rightarrow> ('n, 'w, 'b) network \<Rightarrow> ('n, 'w, 'b) network \<Rightarrow> bool" where
  "tasks_reach deliver cod nodes origin parent \<equiv> (paced_step deliver cod nodes origin parent)\<^sup>*\<^sup>*"

section \<open>Every task keeps the invariant\<close>

text \<open>The publisher publishes the next flashblock.\<close>

lemma tree_publishes:
  assumes "keeps_up deliver" and "tree nodes origin parent depth" and "one_by_one cod valid fbs" and "tree_inv cod nodes origin parent fbs nw"
    and "nw_left nw = fb # rest" and "publish (encode cod) now (nw_state nw origin) fb = (st, es)"
    and "has_room (child nodes origin parent) nw
      (spread deliver (tree_links nodes origin parent) origin st es (nw\<lparr>nw_left := rest\<rparr>))"
  shows "tree_inv cod nodes origin parent fbs
    (spread deliver (tree_links nodes origin parent) origin st es (nw\<lparr>nw_left := rest\<rparr>))"
proof -
  note inv = tree_invD [OF assms(4)]
  have "one_by_one cod valid (nw_stream nw origin @ fb # rest)" using assms(3,5) inv(1) by simp
  note tip = tip_publish [OF this inv(2) [of origin], of now, unfolded assms(6) fst_conv snd_conv]
  let ?nw = "spread deliver (tree_links nodes origin parent) origin st es (nw\<lparr>nw_left := rest\<rparr>)"
  have edge: "tree_edge cod ?nw a b" if c: "child nodes origin parent a b" for a b
  proof -
    have b: "b \<noteq> origin" "tree_links nodes origin parent a b" using tree_child(3) [OF assms(2) c] c by (simp_all add: tree_links_def)
    obtain way queue where "nw_stream nw a = nw_stream nw b @ way @ queue"
      "nw_wire nw a b = map (\<lambda>fb. encode cod (FlashblocksPayloadMsg fb)) way"
      "nw_rx nw a b = map (\<lambda>fb. Ok (peer_msg (encode cod) fb)) queue" "length queue \<le> BROADCAST_BUFFER_CAPACITY" using inv(4) [OF c] by blast
    moreover have room: "length queue + length [fb] \<le> BROADCAST_BUFFER_CAPACITY" if "a = origin"
      using has_roomD [OF assms(7) c, of "[fb]"] calculation(3) tip(2) that by (simp add: spread_def)
    moreover have "deliver (nw_rx nw a b) [peer_msg (encode cod) fb] = append_msgs (nw_rx nw a b) [peer_msg (encode cod) fb]" if "a = origin"
      using keeps_upD [OF assms(1), of "nw_rx nw a b" "[peer_msg (encode cod) fb]"] room [OF that] calculation(3) by simp
    ultimately have "nw_stream ?nw a = nw_stream ?nw b @ way @ (queue @ (if a = origin then [fb] else []))"
      "nw_wire ?nw a b = map (\<lambda>fb. encode cod (FlashblocksPayloadMsg fb)) way"
      "nw_rx ?nw a b = map (\<lambda>fb. Ok (peer_msg (encode cod) fb)) (queue @ (if a = origin then [fb] else []))"
      "length (queue @ (if a = origin then [fb] else [])) \<le> BROADCAST_BUFFER_CAPACITY"
      using tip(2,3) b by (cases "a = origin"; simp add: spread_def append_msgs_def)+
    with inv(3,5) [OF c] b(1) show ?thesis by (intro tree_edgeI) (auto simp: spread_def)
  qed
  show ?thesis
    unfolding tree_inv_def using edge tip(1,2) inv(1,2) assms(5) by (auto simp: spread_def)
qed

text \<open>A poll of the connection to the parent handles the messages that are ready, all of them.\<close>

lemma tree_polls_parent:
  assumes "keeps_up deliver" and "one_by_one cod valid fbs" and "rlp_codec cod valid" and "tree nodes origin parent depth"
    and "tree_inv cod nodes origin parent fbs nw" and "child nodes origin parent a b" and "nw_wire nw a b = map snd inbox @ later"
  shows "\<exists>conn st es armed.
    (poll_next False cod deliver False False (nw_conn nw b a) (nw_state nw b) (nw_rx nw b a) inbox :: ('e, _) result) =
      Ok ((conn, st, [], []), es, Pending armed) \<and> penalties AlreadySeenTransaction es = 0 \<and> penalties BadMessage es = 0 \<and>
    mirrors st conn st \<and>
    (\<exists>got. nw_stream nw a = nw_stream nw b @ got @ drop (length (nw_stream nw b @ got)) (nw_stream nw a) \<and>
      length got = length inbox \<and> at_tip (nw_stream nw b @ got) st \<and> streamed (published es) = got \<and>
      sent_to_peers (published es) = map (peer_msg (encode cod)) got \<and>
      map snd inbox = map (\<lambda>fb. encode cod (FlashblocksPayloadMsg fb)) got)"
proof -
  note inv = tree_invD [OF assms(5)]
  let ?enc = "\<lambda>fb. encode cod (FlashblocksPayloadMsg fb)"
  obtain way queue where way: "nw_stream nw a = nw_stream nw b @ way @ queue" "nw_wire nw a b = map ?enc way"
    using inv(4) [OF assms(6)] by blast
  define got where "got = take (length inbox) way"
  have inbox: "map snd inbox = map ?enc got" and len: "length got = length inbox"
  proof -
    have "map ?enc way = map snd inbox @ later" using way(2) assms(7) by simp
    from this [THEN arg_cong [where f = "take (length inbox)"]] show "map snd inbox = map ?enc got"
      by (simp add: got_def take_map)
    then show "length got = length inbox" by (metis length_map)
  qed
  obtain more where more: "way = got @ more" unfolding got_def by (metis append_take_drop_id)
  have nodes: "a \<in> nodes" using tree_child(4) [OF assms(4,6)] .
  have seq: "one_by_one cod valid (nw_stream nw b @ map snd (map (Pair (0 :: i64)) got) @ more @ queue)"
    using prefix_one_by_one [OF assms(2) tree_prefix [OF assms(4,5) nodes]] way(1) more by (simp add: comp_def)
  note run = tip_run [OF seq inv(2) [of b]]
  have ok: "valid (FlashblocksPayloadMsg (snd i)) \<and> fits_frame (encode cod) i \<and> unat (p_index (snd i)) \<le> MAX_FLASHBLOCK_INDEX"
    if "i \<in> set (map (Pair (0 :: i64)) got)" for i
    using that seq by (auto simp: one_by_one_def fits_frame_def)
  have "map snd inbox = map wire_bytes (sent_to_peers (snd (run (publish_step (encode cod)) (nw_state nw b) (map (Pair 0) got))))"
    using run inbox by (simp add: comp_def peer_msg_def wire_bytes_def)
  from nodes_run [where deliver = deliver and armed = False and rx = "[]" and ?'e = 'e, OF keeps_up_empty [OF assms(1)] assms(3) inv(3) [OF assms(6)] _ ok this]
  obtain conn st es armed where poll: "(poll_next False cod deliver False False (nw_conn nw b a) (nw_state nw b) [] inbox ::
      ('e, _) result) = Ok ((conn, st, [], []), es, Pending armed)"
    and mirrors: "mirrors (fst (run (publish_step (encode cod)) (nw_state nw b) (map (Pair 0) got))) conn st"
    and es: "streamed (published es) = got" "sent_to_peers (published es) = map (peer_msg (encode cod)) got"
      "penalties AlreadySeenTransaction es = 0" "penalties BadMessage es = 0"
    using run by (auto simp: quiet_def comp_def)
  have tip: "at_tip (nw_stream nw b @ got) (fst (run (publish_step (encode cod)) (nw_state nw b) (map (Pair 0) got)))"
    using run by (simp add: comp_def)
  have "mirrors st conn st" using mirrors by (simp add: mirrors_def)
  moreover have "at_tip (nw_stream nw b @ got) st"
    using tip at_tip_same [of st "fst (run (publish_step (encode cod)) (nw_state nw b) (map (Pair 0) got))"] mirrors
    unfolding mirrors_def by blast
  moreover have "nw_rx nw b a = []" using inv(5) [OF assms(6)] by blast
  ultimately show ?thesis using poll es way(1) more len inbox by (intro exI conjI) auto
qed

text \<open>A poll of a connection to a child sends the head of the queue, if there is one.\<close>

lemma tree_polls_child:
  assumes "tree_inv cod nodes origin parent fbs nw" and "child nodes origin parent b a" and "nw_wire nw a b = map snd inbox @ later"
    and "poll_next False cod deliver False False (nw_conn nw b a) (nw_state nw b) (nw_rx nw b a) inbox =
      (Ok ((conn, st, rx, inbox'), es, res) :: ('e, _) result)"
  shows "inbox = [] \<and> inbox' = [] \<and> conn = nw_conn nw b a \<and> st = nw_state nw b \<and> es = [] \<and>
    (nw_rx nw b a = [] \<and> rx = [] \<and> res = Pending True \<or>
     (\<exists>fb queue. nw_rx nw b a = map (\<lambda>fb. Ok (peer_msg (encode cod) fb)) (fb # queue) \<and>
       rx = map (\<lambda>fb. Ok (peer_msg (encode cod) fb)) queue \<and> res = Ready (Some (encode cod (FlashblocksPayloadMsg fb)))))"
proof -
  have empty: "inbox = []" and new: "nw_conn nw b a = new_connection"
    using tree_invD(5) [OF assms(1,2)] assms(3) by simp_all
  obtain queue where queue: "nw_rx nw b a = map (\<lambda>fb. Ok (peer_msg (encode cod) fb)) queue"
    using tree_invD(4) [OF assms(1,2)] by blast
  show ?thesis
    using assms(4) queue unfolding empty new
    by (cases queue) (auto simp: poll_next.simps [where inbox = "[]"] take_peer_msg_of received_from_def new_connection_def)
qed

text \<open>What was on the wire, as what was handled and what is left.\<close>

lemma wire_split:
  assumes "map f way = map f got @ later" and "way @ queue = got @ rest"
  obtains more where "way = got @ more" and "later = map f more"
proof -
  have "length got \<le> length way" using assms(1) by (metis length_append length_map le_add1)
  with assms(2) have "way = got @ drop (length got) way" by (metis append_eq_append_conv_if append_take_drop_id)
  with assms(1) that [of "drop (length got) way"] show thesis by (metis map_append same_append_eq)
qed

lemma tree_poll_down:
  assumes "keeps_up deliver" and "tree nodes origin parent depth" and "tree_inv cod nodes origin parent fbs nw" and "child nodes origin parent a b"
    and "nw_wire nw a b = map (\<lambda>fb. encode cod (FlashblocksPayloadMsg fb)) got @ later" and "mirrors st conn st"
    and "prefix (nw_stream nw b @ got) (nw_stream nw a)" and "streamed (published es) = got"
    and "sent_to_peers (published es) = map (peer_msg (encode cod)) got" and "child nodes origin parent c d"
    and "has_room (child nodes origin parent) nw
      (after_poll deliver (tree_links nodes origin parent) b a conn st [] later es (Pending armed) nw)"
  shows "tree_edge cod (after_poll deliver (tree_links nodes origin parent) b a conn st [] later es (Pending armed) nw) c d"
proof -
  let ?nw = "after_poll deliver (tree_links nodes origin parent) b a conn st [] later es (Pending armed) nw"
  note inv = tree_invD [OF assms(3)] and ab = tree_child [OF assms(2,4)] and cd = tree_child [OF assms(2,10)]
  obtain way queue where way: "nw_stream nw c = nw_stream nw d @ way @ queue"
    "nw_wire nw c d = map (\<lambda>fb. encode cod (FlashblocksPayloadMsg fb)) way"
    "nw_rx nw c d = map (\<lambda>fb. Ok (peer_msg (encode cod) fb)) queue" "length queue \<le> BROADCAST_BUFFER_CAPACITY"
    using inv(4) [OF assms(10)] by blast
  consider (same) "c = a" "d = b" | (below) "c = b" "d \<noteq> a" "d \<noteq> b" | (other) "c \<noteq> b" "d \<noteq> b"
    using child_unique [OF assms(4)] assms(10) cd(1) ab(2) by (cases "d = b") auto
  then show ?thesis
  proof cases
    case same
    obtain rest where "way @ queue = got @ rest" using way(1) assms(7) same by (auto simp: prefix_def)
    then obtain more where "way = got @ more" "later = map (\<lambda>fb. encode cod (FlashblocksPayloadMsg fb)) more"
      using wire_split way(2) assms(5) same by metis
    then show ?thesis
      using way same ab assms(6,8) inv(5) [OF assms(10)]
      by (intro tree_edgeI [where way = more and queue = queue]) (simp_all add: after_poll_def at_pair_apply)
  next
    case below
    have "length queue + length got \<le> BROADCAST_BUFFER_CAPACITY"
      using has_roomD [OF assms(11) assms(10), of got] way(3) below assms(8) by (simp add: after_poll_def)
    moreover from this have "deliver (nw_rx nw b d) (map (peer_msg (encode cod)) got) = append_msgs (nw_rx nw b d) (map (peer_msg (encode cod)) got)"
      using keeps_upD [OF assms(1), of "nw_rx nw b d" "map (peer_msg (encode cod)) got"] way(3) below by simp
    moreover have "tree_links nodes origin parent b d" using assms(10) below by (simp add: tree_links_def)
    ultimately show ?thesis
      using way below ab assms(8,9) inv(3,5) [OF assms(10)]
      by (intro tree_edgeI [where way = way and queue = "queue @ got"])
        (simp_all add: after_poll_def at_pair_apply append_msgs_def comp_def)
  next
    case other
    then show ?thesis
      using way inv(3,5) [OF assms(10)]
      by (intro tree_edgeI [where way = way and queue = queue]) (simp_all add: after_poll_def at_pair_apply)
  qed
qed

lemma tree_poll_up:
  assumes "keeps_up deliver" and "tree nodes origin parent depth" and "tree_inv cod nodes origin parent fbs nw" and "child nodes origin parent b a"
    and "nw_rx nw b a = [] \<and> rx = [] \<and> res = Pending True \<or>
      (\<exists>fb queue. nw_rx nw b a = map (\<lambda>fb. Ok (peer_msg (encode cod) fb)) (fb # queue) \<and>
        rx = map (\<lambda>fb. Ok (peer_msg (encode cod) fb)) queue \<and> res = Ready (Some (encode cod (FlashblocksPayloadMsg fb))))"
    and "child nodes origin parent c d"
  shows "tree_edge cod (after_poll deliver (tree_links nodes origin parent) b a (nw_conn nw b a) (nw_state nw b) rx [] [] res nw) c d"
proof -
  let ?nw = "after_poll deliver (tree_links nodes origin parent) b a (nw_conn nw b a) (nw_state nw b) rx [] [] res nw"
  note inv = tree_invD [OF assms(3)] and ba = tree_child [OF assms(2,4)]
  have same: "nw_state ?nw = nw_state nw" "nw_conn ?nw = nw_conn nw" "nw_stream ?nw = nw_stream nw"
    "\<And>x y. (x, y) \<noteq> (b, a) \<Longrightarrow> nw_rx ?nw x y = nw_rx nw x y \<and> nw_wire ?nw x y = nw_wire nw x y"
    using inv(5) [OF assms(4)] ba(1) keeps_upD [OF assms(1), of _ "[]"] tree_queue_short [OF assms(3)]
    by (auto simp: after_poll_def at_pair_apply append_msgs_def fun_eq_iff)
  obtain way queue where way: "nw_stream nw c = nw_stream nw d @ way @ queue"
    "nw_wire nw c d = map (\<lambda>fb. encode cod (FlashblocksPayloadMsg fb)) way"
    "nw_rx nw c d = map (\<lambda>fb. Ok (peer_msg (encode cod) fb)) queue" "length queue \<le> BROADCAST_BUFFER_CAPACITY"
    using inv(4) [OF assms(6)] by blast
  have "(d, c) \<noteq> (b, a)" using assms(4,6) ba(2) by auto
  then have up: "nw_rx ?nw d c = []" "nw_wire ?nw d c = []" "nw_conn ?nw c d = new_connection"
    using same(2,4) inv(5) [OF assms(6)] by metis+
  have mirrors: "mirrors (nw_state ?nw d) (nw_conn ?nw d c) (nw_state ?nw d)" using same inv(3) [OF assms(6)] by simp
  show ?thesis
  proof (cases "(c, d) = (b, a)")
    case False
    with way same show ?thesis by (intro tree_edgeI [OF mirrors _ _ _ _ up, where way = way and queue = queue]) simp_all
  next
    case True
    show ?thesis
    proof (cases queue)
      case Nil
      with way True assms(5) ba(1) same(3) show ?thesis
        by (intro tree_edgeI [OF mirrors _ _ _ _ up, where way = way and queue = "[]"]) (auto simp: after_poll_def at_pair_apply)
    next
      case (Cons fb rest)
      with way True assms(5) ba(1) same(3) show ?thesis
        by (intro tree_edgeI [OF mirrors _ _ _ _ up, where way = "way @ [fb]" and queue = rest])
          (auto simp: after_poll_def at_pair_apply peer_msg_def)
    qed
  qed
qed

lemma after_poll_streams:
  "nw_stream (after_poll deliver links b a conn st rx incoming es res nw) =
     (nw_stream nw)(b := nw_stream nw b @ streamed (published es))"
  "nw_state (after_poll deliver links b a conn st rx incoming es res nw) = (nw_state nw)(b := st)"
  "nw_left (after_poll deliver links b a conn st rx incoming es res nw) = nw_left nw"
  by (simp_all add: after_poll_def)

lemma tree_polls:
  assumes "keeps_up deliver" and "one_by_one cod valid fbs" and "rlp_codec cod valid" and "tree nodes origin parent depth"
    and "tree_inv cod nodes origin parent fbs nw" and "tree_links nodes origin parent a b" and "nw_wire nw a b = map snd inbox @ later"
    and "poll_next False cod deliver False False (nw_conn nw b a) (nw_state nw b) (nw_rx nw b a) inbox =
      (Ok ((conn, st, rx, inbox'), es, res) :: (unit, _) result)"
  shows "(has_room (child nodes origin parent) nw
        (after_poll deliver (tree_links nodes origin parent) b a conn st rx (map snd inbox' @ later) es res nw) \<longrightarrow>
      tree_inv cod nodes origin parent fbs
        (after_poll deliver (tree_links nodes origin parent) b a conn st rx (map snd inbox' @ later) es res nw)) \<and>
    penalties AlreadySeenTransaction es = 0 \<and> penalties BadMessage es = 0"
proof -
  note inv = tree_invD [OF assms(5)]
  consider (parent) "child nodes origin parent a b" | (child) "child nodes origin parent b a"
    using assms(6) by (auto simp: tree_links_def)
  then show ?thesis
  proof cases
    case parent
    obtain got armed where poll: "rx = []" "inbox' = []" "res = Pending armed" "mirrors st conn st"
      "penalties AlreadySeenTransaction es = 0" "penalties BadMessage es = 0"
      and got: "nw_stream nw a = nw_stream nw b @ got @ drop (length (nw_stream nw b @ got)) (nw_stream nw a)"
        "at_tip (nw_stream nw b @ got) st" "streamed (published es) = got"
        "sent_to_peers (published es) = map (peer_msg (encode cod)) got"
        "map snd inbox = map (\<lambda>fb. encode cod (FlashblocksPayloadMsg fb)) got"
      using tree_polls_parent [OF assms(1-5) parent assms(7), where ?'e = unit] assms(8) by auto
    have "prefix (nw_stream nw b @ got) (nw_stream nw a)" using got(1) by (metis append_assoc prefixI)
    note edge = tree_poll_down [OF assms(1,4,5) parent assms(7) [unfolded got(5)] poll(4) this got(3,4), of _ _ armed]
    then show ?thesis
      unfolding tree_inv_def using inv(1,2) got(2,3) poll tree_child(3) [OF assms(4) parent] by (simp add: after_poll_streams)
  next
    case child
    note poll = tree_polls_child [OF assms(5) child assms(7,8)]
    have later: "later = []" using inv(5) [OF child] assms(7) poll by simp
    note edge = tree_poll_up [OF assms(1,4,5) child, of rx res]
    then show ?thesis
      unfolding tree_inv_def using inv(1,2) poll later by (auto simp: after_poll_def)
  qed
qed

lemma tree_task:
  assumes "keeps_up deliver" and "one_by_one cod valid fbs" and "rlp_codec cod valid" and "tree nodes origin parent depth"
    and "tree_inv cod nodes origin parent fbs nw" and "task_step deliver cod (tree_links nodes origin parent) origin nw es nw'"
  shows "(has_room (child nodes origin parent) nw nw' \<longrightarrow> tree_inv cod nodes origin parent fbs nw') \<and>
    penalties AlreadySeenTransaction es = 0 \<and> penalties BadMessage es = 0"
  using assms(6)
proof (cases rule: task_step.cases)
  case (publishes fb rest now st es')
  then show ?thesis using tree_publishes [OF assms(1,4,2,5) publishes(3,4)] by simp
next
  case (polls a b inbox later conn st rx inbox' res)
  then show ?thesis using tree_polls [OF assms(1-5) polls(2,5,6)] by simp
qed

lemma tree_reaches:
  assumes "keeps_up deliver" and "one_by_one cod valid fbs" and "rlp_codec cod valid" and "tree nodes origin parent depth"
    and "tasks_reach deliver cod nodes origin parent (start_network fbs) nw"
  shows "tree_inv cod nodes origin parent fbs nw"
  using assms(5)
proof (induction rule: rtranclp_induct)
  case base
  show ?case by (rule tree_inv_start)
next
  case (step nw nw')
  with tree_task [OF assms(1-4)] show ?case unfolding paced_step_def by blast
qed

section \<open>Progress\<close>

definition tasks_done ::
  "(peer_queue \<Rightarrow> PeerMsg list \<Rightarrow> peer_queue) \<Rightarrow> (FlashblockMetadata, 'w, 'b) FlashblocksP2PMsg codec \<Rightarrow> ('n \<Rightarrow> 'n \<Rightarrow> bool) \<Rightarrow> 'n \<Rightarrow> ('n, 'w, 'b) network \<Rightarrow> bool" where
  "tasks_done deliver cod links origin nw \<longleftrightarrow> (\<forall>es nw'. task_step deliver cod links origin nw es nw' \<longrightarrow> nw' = nw)"

lemma tasks_doneD: "tasks_done deliver cod links origin nw \<Longrightarrow> task_step deliver cod links origin nw es nw' \<Longrightarrow> nw' = nw"
  by (simp add: tasks_done_def)

lemma done_left:
  assumes "tasks_done deliver cod links origin nw"
  shows "nw_left nw = []"
proof (cases "nw_left nw")
  case (Cons fb rest)
  obtain st es where "publish (encode cod) 0 (nw_state nw origin) fb = (st, es)" by fastforce
  from tasks_doneD [OF assms task_step.publishes [OF Cons this]]
  have "nw_left (spread deliver links origin st es (nw\<lparr>nw_left := rest\<rparr>)) = nw_left nw" by (rule arg_cong)
  with Cons show ?thesis by simp
qed

lemma done_wire:
  assumes "keeps_up deliver" and "one_by_one cod valid fbs" and "rlp_codec cod valid" and "tree nodes origin parent depth"
    and "tree_inv cod nodes origin parent fbs nw" and "child nodes origin parent a b"
    and "tasks_done deliver cod (tree_links nodes origin parent) origin nw"
  shows "nw_wire nw a b = []"
proof -
  let ?inbox = "map (Pair (0 :: i64)) (nw_wire nw a b)"
  have wire: "nw_wire nw a b = map snd ?inbox @ []" by (simp add: comp_def)
  obtain conn st es armed where poll: "(poll_next False cod deliver False False (nw_conn nw b a) (nw_state nw b) (nw_rx nw b a) ?inbox ::
      (unit, _) result) = Ok ((conn, st, [], []), es, Pending armed)"
    using tree_polls_parent [OF assms(1-6) wire, where ?'e = unit] by blast
  have links: "tree_links nodes origin parent a b" "tree_links nodes origin parent b a" using assms(6) by (simp_all add: tree_links_def)
  have "a \<noteq> b" using tree_child(1) [OF assms(4,6)] .
  from tasks_doneD [OF assms(7) task_step.polls [OF links this wire poll]]
  have "nw_wire (after_poll deliver (tree_links nodes origin parent) b a conn st [] [] es (Pending armed) nw) a b = nw_wire nw a b"
    by simp
  with \<open>a \<noteq> b\<close> show ?thesis by (simp add: after_poll_def at_pair_apply)
qed

lemma done_queue:
  assumes "tree nodes origin parent depth"
    and "tree_inv cod nodes origin parent fbs nw" and "child nodes origin parent a b"
    and "tasks_done deliver cod (tree_links nodes origin parent) origin nw"
  shows "nw_rx nw a b = []"
proof -
  obtain queue where queue: "nw_rx nw a b = map (\<lambda>fb. Ok (peer_msg (encode cod) fb)) queue"
    using tree_invD(4) [OF assms(2,3)] by blast
  have up: "nw_conn nw a b = new_connection" "nw_wire nw b a = map snd [] @ []" using tree_invD(5) [OF assms(2,3)] by simp_all
  have links: "tree_links nodes origin parent b a" "tree_links nodes origin parent a b" using assms(3) by (simp_all add: tree_links_def)
  have ne: "b \<noteq> a" using tree_child(1) [OF assms(1,3)] by simp
  show ?thesis
  proof (cases queue)
    case (Cons fb rest)
    let ?rest = "map (\<lambda>fb. Ok (peer_msg (encode cod) fb)) rest"
    have poll: "poll_next False cod deliver False False (nw_conn nw a b) (nw_state nw a) (nw_rx nw a b) [] =
        (Ok ((new_connection, nw_state nw a, ?rest, []), [], Ready (Some (encode cod (FlashblocksPayloadMsg fb)))) :: (unit, _) result)"
      unfolding up(1) queue Cons by (simp add: poll_next.simps [where inbox = "[]"] take_peer_msg_of received_from_def new_connection_def)
    from tasks_doneD [OF assms(4) task_step.polls [OF links ne up(2) poll]]
    have "nw_rx (after_poll deliver (tree_links nodes origin parent) a b new_connection (nw_state nw a) ?rest [] []
        (Ready (Some (encode cod (FlashblocksPayloadMsg fb)))) nw) a b = nw_rx nw a b" by simp
    with queue Cons show ?thesis by (simp add: after_poll_def)
  qed (simp add: queue)
qed

lemma done_streams:
  assumes "keeps_up deliver" and "one_by_one cod valid fbs" and "rlp_codec cod valid" and "tree nodes origin parent depth"
    and "tree_inv cod nodes origin parent fbs nw" and "tasks_done deliver cod (tree_links nodes origin parent) origin nw" and "x \<in> nodes"
  shows "nw_stream nw x = fbs"
  using assms(7)
proof (induction "depth x" arbitrary: x rule: less_induct)
  case less
  show ?case
  proof (cases "x = origin")
    case True
    then show ?thesis using tree_invD(1) [OF assms(5)] done_left [OF assms(6)] by simp
  next
    case False
    then have c: "child nodes origin parent (parent x) x" using less.prems by (simp add: child_def)
    have "parent x \<in> nodes" "depth (parent x) < depth x" using assms(4) less.prems False by (simp_all add: tree_def)
    then have "nw_stream nw (parent x) = fbs" by (intro less.hyps)
    with tree_invD(4) [OF assms(5) c] done_wire [OF assms(1-5) c assms(6)] done_queue [OF assms(4,5) c assms(6)]
    show ?thesis by auto
  qed
qed

text \<open>What a task adds: to a stream, or from a queue to a wire.\<close>

definition sent_down :: "('n, 'w, 'b) network \<Rightarrow> 'n \<Rightarrow> 'n \<Rightarrow> nat" where
  "sent_down nw a b = length (nw_stream nw b) + length (nw_wire nw a b)"

lemma after_idle_poll:
  assumes "keeps_up deliver" and "tree_inv cod nodes origin parent fbs nw" and "a \<noteq> b" and "nw_rx nw b a = []"
  shows "after_poll deliver (tree_links nodes origin parent) b a (nw_conn nw b a) (nw_state nw b) [] (nw_wire nw a b) []
    (Pending armed) nw = nw"
  using assms(3,4) keeps_upD [OF assms(1), of _ "[]"] tree_queue_short [OF assms(2)]
  by (intro network.equality) (auto simp: after_poll_def at_pair_apply append_msgs_def fun_eq_iff)

lemma tree_poll_grows:
  assumes "keeps_up deliver" and "one_by_one cod valid fbs" and "rlp_codec cod valid" and "tree nodes origin parent depth"
    and "tree_inv cod nodes origin parent fbs nw" and "child nodes origin parent a b" and "nw_wire nw a b = map snd inbox @ later"
    and "poll_next False cod deliver False False (nw_conn nw b a) (nw_state nw b) (nw_rx nw b a) inbox =
      (Ok ((conn, st, rx, inbox'), es, res) :: (unit, _) result)"
    and "nw' = after_poll deliver (tree_links nodes origin parent) b a conn st rx (map snd inbox' @ later) es res nw"
  shows "nw' = nw \<or> length (nw_stream nw b) < length (nw_stream nw' b)"
    and "length (nw_stream nw x) \<le> length (nw_stream nw' x)"
    and "child nodes origin parent c d \<Longrightarrow> sent_down nw c d \<le> sent_down nw' c d"
proof -
  note ab = tree_child [OF assms(4,6)]
  obtain got armed where poll: "rx = []" "inbox' = []" "res = Pending armed" and got: "length got = length inbox" "streamed (published es) = got"
    using tree_polls_parent [OF assms(1-7), where ?'e = unit] assms(8) by auto
  have up: "nw_rx nw b a = []" using tree_invD(5) [OF assms(5,6)] by blast
  have "nw' = nw" if empty: "inbox = []"
  proof -
    have "conn = nw_conn nw b a" "st = nw_state nw b" "es = []"
      using assms(8) unfolding empty up by (simp_all add: poll_next.simps [where inbox = "[]"] take_peer_msg.simps)
    with after_idle_poll [OF assms(1,5) ab(1) up, of armed] show ?thesis using assms(7,9) poll empty up by simp
  qed
  moreover have "nw_stream nw' b = nw_stream nw b @ got" using assms(9) got(2) by (simp add: after_poll_def)
  ultimately show "nw' = nw \<or> length (nw_stream nw b) < length (nw_stream nw' b)" using got(1) by (cases inbox) simp_all
  show "length (nw_stream nw x) \<le> length (nw_stream nw' x)" using assms(9) by (simp add: after_poll_def)
  show "sent_down nw c d \<le> sent_down nw' c d" if cd: "child nodes origin parent c d"
  proof -
    have "(c, d) \<noteq> (b, a)" using cd ab(2) by auto
    then show ?thesis
      using assms(7,9) got poll child_unique [OF assms(6), of c] cd ab(1)
      by (cases "d = b") (auto simp: sent_down_def after_poll_def at_pair_apply)
  qed
qed

lemma task_grows:
  assumes "keeps_up deliver" and "one_by_one cod valid fbs" and "rlp_codec cod valid" and "tree nodes origin parent depth"
    and "tree_inv cod nodes origin parent fbs nw" and "task_step deliver cod (tree_links nodes origin parent) origin nw es nw'"
  shows "nw' = nw \<or> (\<exists>x \<in> nodes. length (nw_stream nw x) < length (nw_stream nw' x)) \<or>
      (\<exists>a b. child nodes origin parent a b \<and> sent_down nw a b < sent_down nw' a b)"
    and "length (nw_stream nw x) \<le> length (nw_stream nw' x)"
    and "child nodes origin parent c d \<Longrightarrow> sent_down nw c d \<le> sent_down nw' c d"
proof -
  have "(nw' = nw \<or> (\<exists>x \<in> nodes. length (nw_stream nw x) < length (nw_stream nw' x)) \<or>
      (\<exists>a b. child nodes origin parent a b \<and> sent_down nw a b < sent_down nw' a b)) \<and>
    length (nw_stream nw x) \<le> length (nw_stream nw' x) \<and>
    (child nodes origin parent c d \<longrightarrow> sent_down nw c d \<le> sent_down nw' c d)"
    using assms(6)
  proof (cases rule: task_step.cases)
    case (publishes fb rest now st es')
    have "one_by_one cod valid (nw_stream nw origin @ fb # rest)"
      using assms(2) tree_invD(1) [OF assms(5)] publishes(3) by simp
    from tip_publish(2) [OF this tree_invD(2) [OF assms(5)], of now] have "streamed es' = [fb]" by (simp add: publishes(4))
    moreover have "origin \<in> nodes" using assms(4) by (simp add: tree_def)
    ultimately show ?thesis using publishes(2) by (auto simp: spread_def sent_down_def)
  next
    case (polls a b inbox later conn st rx inbox' res)
    consider (parent) "child nodes origin parent a b" | (child) "child nodes origin parent b a"
      using polls(2) by (auto simp: tree_links_def)
    then show ?thesis
    proof cases
      case parent
      from tree_poll_grows [OF assms(1-5) this polls(5,6,1)] tree_child(5) [OF assms(4) parent] show ?thesis by blast
    next
      case child
      note ba = tree_child [OF assms(4) child]
      note poll = tree_polls_child [OF assms(5) child polls(5,6)]
      have later: "later = nw_wire nw a b" using polls(5) poll by simp
      show ?thesis
      proof (cases "nw_rx nw b a = []")
        case True
        with poll polls(1) later after_idle_poll [OF assms(1,5) polls(4) True] show ?thesis by simp
      next
        case False
        with poll have "nw_stream nw' = nw_stream nw" "\<And>x y. length (nw_wire nw' x y) = length (nw_wire nw x y) + (if (x, y) = (b, a) then 1 else 0)"
          using polls(1) later ba(1) by (auto simp: after_poll_def at_pair_apply fun_eq_iff)
        then show ?thesis using child by (auto simp: sent_down_def)
      qed
    qed
  qed
  then show "nw' = nw \<or> (\<exists>x \<in> nodes. length (nw_stream nw x) < length (nw_stream nw' x)) \<or>
      (\<exists>a b. child nodes origin parent a b \<and> sent_down nw a b < sent_down nw' a b)"
    "length (nw_stream nw x) \<le> length (nw_stream nw' x)"
    "child nodes origin parent c d \<Longrightarrow> sent_down nw c d \<le> sent_down nw' c d" by blast+
qed

text \<open>What is left to do: the flashblocks a node has not streamed, and those a parent has not sent to it.\<close>

definition tree_load :: "'n set \<Rightarrow> 'n \<Rightarrow> ('n \<Rightarrow> 'n) \<Rightarrow> nat \<Rightarrow> ('n, 'w, 'b) network \<Rightarrow> nat" where
  "tree_load nodes origin parent full nw =
     (\<Sum>x \<in> nodes. full - length (nw_stream nw x)) + (\<Sum>b \<in> nodes - {origin}. full - sent_down nw (parent b) b)"

lemma tree_bounded:
  assumes "tree nodes origin parent depth" and "tree_inv cod nodes origin parent fbs nw"
  shows "x \<in> nodes \<Longrightarrow> length (nw_stream nw x) \<le> length fbs"
    and "child nodes origin parent a b \<Longrightarrow> sent_down nw a b \<le> length fbs"
proof -
  show below: "length (nw_stream nw x) \<le> length fbs" if "x \<in> nodes" for x
    using tree_prefix [OF assms that] by (rule prefix_length_le)
  show "sent_down nw a b \<le> length fbs" if c: "child nodes origin parent a b"
  proof -
    have "sent_down nw a b \<le> length (nw_stream nw a)" using tree_invD(4) [OF assms(2) c] by (auto simp: sent_down_def)
    with below [OF tree_child(4) [OF assms(1) c]] show ?thesis by simp
  qed
qed

lemma task_lightens:
  assumes "keeps_up deliver" and "one_by_one cod valid fbs" and "rlp_codec cod valid" and "tree nodes origin parent depth" and "finite nodes"
    and "tree_inv cod nodes origin parent fbs nw" and "paced_step deliver cod nodes origin parent nw nw'" and "nw' \<noteq> nw"
  shows "tree_load nodes origin parent (length fbs) nw' < tree_load nodes origin parent (length fbs) nw"
proof -
  obtain es where task: "task_step deliver cod (tree_links nodes origin parent) origin nw es nw'"
    using assms(7) by (auto simp: paced_step_def)
  note grows = task_grows [OF assms(1-4,6) task]
  have inv: "tree_inv cod nodes origin parent fbs nw'"
    using tree_task [OF assms(1-4,6) task] assms(7) by (simp add: paced_step_def)
  note bounds = tree_bounded [OF assms(4) inv]
  let ?s = "\<lambda>nw x. length fbs - length (nw_stream nw x)" and ?d = "\<lambda>nw b. length fbs - sent_down nw (parent b) b"
  have child: "child nodes origin parent (parent b) b" if "b \<in> nodes - {origin}" for b using that by (simp add: child_def)
  have le: "sum (?s nw') nodes \<le> sum (?s nw) nodes" "sum (?d nw') (nodes - {origin}) \<le> sum (?d nw) (nodes - {origin})"
    using grows(2,3) child by (auto intro!: sum_mono diff_le_mono2)
  consider (stream) x where "x \<in> nodes" "length (nw_stream nw x) < length (nw_stream nw' x)"
    | (down) a b where "child nodes origin parent a b" "sent_down nw a b < sent_down nw' a b"
    using grows(1) assms(8) by blast
  then show ?thesis
  proof cases
    case stream
    have "sum (?s nw') nodes < sum (?s nw) nodes"
    proof (rule sum_strict_mono_ex1 [OF assms(5)])
      show "\<forall>x \<in> nodes. ?s nw' x \<le> ?s nw x" using grows(2) by (auto intro: diff_le_mono2)
      show "\<exists>x \<in> nodes. ?s nw' x < ?s nw x" using stream bounds(1) by (auto intro!: bexI [of _ x] diff_less_mono2 dest: less_le_trans)
    qed
    with le(2) show ?thesis by (simp add: tree_load_def)
  next
    case down
    have b: "b \<in> nodes - {origin}" "a = parent b" using down(1) by (simp_all add: child_def)
    have "sum (?d nw') (nodes - {origin}) < sum (?d nw) (nodes - {origin})"
    proof (rule sum_strict_mono_ex1)
      show "finite (nodes - {origin})" using assms(5) by simp
      show "\<forall>b \<in> nodes - {origin}. ?d nw' b \<le> ?d nw b" using grows(3) child by (auto intro: diff_le_mono2)
      have "sent_down nw (parent b) b < length fbs" using down bounds(2) [OF down(1)] b(2) by simp
      with down(2) b show "\<exists>b \<in> nodes - {origin}. ?d nw' b < ?d nw b" by (auto intro!: bexI [of _ b] diff_less_mono2)
    qed
    with le(1) show ?thesis by (simp add: tree_load_def)
  qed
qed

lemma tree_load_start:
  assumes "finite nodes"
  shows "tree_load nodes origin parent full (start_network fbs) \<le> full * (2 * card nodes)"
proof -
  have "tree_load nodes origin parent full (start_network fbs) = full * card nodes + full * card (nodes - {origin})"
    by (simp add: tree_load_def start_network_def sent_down_def)
  also have "\<dots> \<le> full * card nodes + full * card nodes" using card_mono [OF assms, of "nodes - {origin}"] by simp
  finally show ?thesis by (simp add: algebra_simps)
qed

text \<open>The calls that change something, and how far they go.\<close>

abbreviation task_change ::
  "(peer_queue \<Rightarrow> PeerMsg list \<Rightarrow> peer_queue) \<Rightarrow> (FlashblockMetadata, 'w, 'b) FlashblocksP2PMsg codec \<Rightarrow> 'n set \<Rightarrow> 'n \<Rightarrow>
     ('n \<Rightarrow> 'n) \<Rightarrow> ('n, 'w, 'b) network \<Rightarrow> ('n, 'w, 'b) network \<Rightarrow> bool" where
  "task_change deliver cod nodes origin parent \<equiv> (\<lambda>nw nw'. paced_step deliver cod nodes origin parent nw nw' \<and> nw' \<noteq> nw)"

lemma paced_keeps:
  assumes "keeps_up deliver" and "one_by_one cod valid fbs" and "rlp_codec cod valid" and "tree nodes origin parent depth"
    and "tree_inv cod nodes origin parent fbs nw" and "paced_step deliver cod nodes origin parent nw nw'"
  shows "tree_inv cod nodes origin parent fbs nw'"
  using tree_task [OF assms(1-5)] assms(6) unfolding paced_step_def by blast

lemma task_changes_bounded:
  assumes "keeps_up deliver" and "one_by_one cod valid fbs" and "rlp_codec cod valid" and "tree nodes origin parent depth" and "finite nodes"
    and "(task_change deliver cod nodes origin parent ^^ n) (start_network fbs) nw"
  shows "tree_inv cod nodes origin parent fbs nw \<and>
    n + tree_load nodes origin parent (length fbs) nw \<le> length fbs * (2 * card nodes)"
  using assms(6)
proof (induction n arbitrary: nw)
  case 0
  then show ?case using tree_load_start [OF assms(5)] tree_inv_start by auto
next
  case (Suc n)
  then obtain mid where mid: "(task_change deliver cod nodes origin parent ^^ n) (start_network fbs) mid"
    "paced_step deliver cod nodes origin parent mid nw" "nw \<noteq> mid" by auto
  note IH = Suc.IH [OF mid(1)]
  from task_lightens [OF assms(1-5) _ mid(2,3)] paced_keeps [OF assms(1-4) _ mid(2)] IH show ?case by fastforce
qed

text \<open>
  A connection with something queued or on the wire, with nothing queued at its lower end: one message can be sent
  or handled, and no receiver lags.
\<close>

lemma edge_change:
  assumes "keeps_up deliver" and "one_by_one cod valid fbs" and "rlp_codec cod valid" and "tree nodes origin parent depth"
    and "tree_inv cod nodes origin parent fbs nw" and "child nodes origin parent a b"
    and "nw_wire nw a b \<noteq> [] \<or> nw_rx nw a b \<noteq> []" and "\<And>d. child nodes origin parent b d \<Longrightarrow> nw_rx nw b d = []"
  shows "\<exists>nw'. task_change deliver cod nodes origin parent nw nw'"
proof -
  note inv = tree_invD [OF assms(5)] and ab = tree_child [OF assms(4,6)]
  have links: "tree_links nodes origin parent a b" "tree_links nodes origin parent b a" using assms(6) by (simp_all add: tree_links_def)
  have short: "length (nw_rx nw x y) \<le> BROADCAST_BUFFER_CAPACITY" if "child nodes origin parent x y" for x y
    using tree_queue_short [OF assms(5)] that by (simp add: tree_links_def)
  show ?thesis
  proof (cases "nw_wire nw a b")
    case (Cons buf later)
    then have wire: "nw_wire nw a b = map snd [(0 :: i64, buf)] @ later" by simp
    obtain conn st es armed where
      poll: "(poll_next False cod deliver False False (nw_conn nw b a) (nw_state nw b) (nw_rx nw b a) [(0, buf)] :: (unit, _) result) =
        Ok ((conn, st, [], []), es, Pending armed)" and got: "length (streamed (published es)) = 1"
      using tree_polls_parent [OF assms(1-6) wire, where ?'e = unit] by auto
    note step = task_step.polls [where origin = origin, OF links ab(1) wire poll, unfolded list.map append_Nil]
    let ?nw = "after_poll deliver (tree_links nodes origin parent) b a conn st [] later es (Pending armed) nw"
    have streams: "nw_stream ?nw = (nw_stream nw)(b := nw_stream nw b @ streamed (published es))" by (simp add: after_poll_streams)
    have "has_room (child nodes origin parent) nw ?nw"
      unfolding has_room_def streams using short assms(8) got by (auto simp: BROADCAST_BUFFER_CAPACITY_def)
    moreover have "?nw \<noteq> nw"
    proof
      assume "?nw = nw"
      from arg_cong [OF this, of "\<lambda>nw. length (nw_stream nw b)"] got show False unfolding streams by simp
    qed
    ultimately show ?thesis using step unfolding paced_step_def by blast
  next
    case Nil
    obtain queue where queue: "nw_rx nw a b = map (\<lambda>fb. Ok (peer_msg (encode cod) fb)) queue"
      using inv(4) [OF assms(6)] by blast
    then obtain fb rest where fb: "queue = fb # rest" using assms(7) Nil by (cases queue) auto
    have up: "nw_conn nw a b = new_connection" "nw_wire nw b a = map snd ([] :: (i64 \<times> bytes) list) @ []" using inv(5) [OF assms(6)] by simp_all
    let ?rest = "map (\<lambda>fb. Ok (peer_msg (encode cod) fb)) rest" and ?res = "Ready (Some (encode cod (FlashblocksPayloadMsg fb)))"
    have poll: "poll_next False cod deliver False False (nw_conn nw a b) (nw_state nw a) (nw_rx nw a b) [] =
        (Ok ((new_connection, nw_state nw a, ?rest, []), [], ?res) :: (unit, _) result)"
      unfolding up(1) queue fb by (simp add: poll_next.simps [where inbox = "[]"] take_peer_msg_of received_from_def new_connection_def)
    note step = task_step.polls [where origin = origin, OF links(2,1) ab(1) [symmetric] up(2) poll, unfolded list.map append_Nil]
    let ?nw = "after_poll deliver (tree_links nodes origin parent) a b new_connection (nw_state nw a) ?rest [] [] ?res nw"
    have "has_room (child nodes origin parent) nw ?nw"
      unfolding has_room_def using short by (simp add: after_poll_streams)
    moreover have "?nw \<noteq> nw"
    proof
      assume "?nw = nw"
      from arg_cong [OF this, of "\<lambda>nw. nw_rx nw a b"] queue fb show False by (simp add: after_poll_def)
    qed
    ultimately show ?thesis using step unfolding paced_step_def by blast
  qed
qed

text \<open>Unless everything is delivered, a call without a receiver that lags changes something: at the deepest
  connection with something under way, or else at the publisher.\<close>

lemma next_change:
  assumes "keeps_up deliver" and "one_by_one cod valid fbs" and "rlp_codec cod valid" and "tree nodes origin parent depth" and "finite nodes"
    and "tree_inv cod nodes origin parent fbs nw"
  shows "(\<exists>nw'. task_change deliver cod nodes origin parent nw nw') \<or>
    nw_left nw = [] \<and> (\<forall>a b. child nodes origin parent a b \<longrightarrow> nw_wire nw a b = [] \<and> nw_rx nw a b = [])"
proof -
  let ?busy = "{b \<in> nodes - {origin}. nw_wire nw (parent b) b \<noteq> [] \<or> nw_rx nw (parent b) b \<noteq> []}"
  show ?thesis
  proof (cases "?busy = {}")
    case True
    then have idle: "nw_wire nw a b = [] \<and> nw_rx nw a b = []" if "child nodes origin parent a b" for a b
      using that by (auto simp: child_def)
    show ?thesis
    proof (cases "nw_left nw")
      case (Cons fb rest)
      obtain st es where pub: "publish (encode cod) 0 (nw_state nw origin) fb = (st, es)" by fastforce
      note step = task_step.publishes [where links = "tree_links nodes origin parent" and deliver = deliver, OF Cons pub]
      let ?nw = "spread deliver (tree_links nodes origin parent) origin st es (nw\<lparr>nw_left := rest\<rparr>)"
      have "one_by_one cod valid (nw_stream nw origin @ fb # rest)" using assms(2) tree_invD(1) [OF assms(6)] Cons by simp
      from tip_publish(2) [OF this tree_invD(2) [OF assms(6)], of 0]
      have "nw_stream ?nw = (nw_stream nw)(origin := nw_stream nw origin @ [fb])" by (simp add: pub spread_def)
      then have "has_room (child nodes origin parent) nw ?nw"
        using idle unfolding has_room_def by (simp add: BROADCAST_BUFFER_CAPACITY_def)
      moreover have "nw_left ?nw \<noteq> nw_left nw" by (simp add: Cons)
      then have "?nw \<noteq> nw" by metis
      ultimately show ?thesis using step unfolding paced_step_def by blast
    qed (use idle in blast)
  next
    case False
    define busy where "busy = ?busy"
    have fin: "finite (depth ` busy)" using assms(5) by (simp add: busy_def)
    have "Max (depth ` busy) \<in> depth ` busy" using False by (intro Max_in fin) (simp add: busy_def)
    then obtain b where b: "b \<in> busy" "depth b = Max (depth ` busy)" by (elim imageE) simp
    then have c: "child nodes origin parent (parent b) b" by (simp add: child_def busy_def)
    have "nw_rx nw b d = []" if d: "child nodes origin parent b d" for d
    proof (rule ccontr)
      assume "nw_rx nw b d \<noteq> []"
      with d have "d \<in> busy" by (auto simp: child_def busy_def)
      then have "depth d \<le> depth b" unfolding b(2) by (intro Max_ge [OF fin] imageI)
      moreover have "depth (parent d) < depth d" using assms(4) d unfolding tree_def child_def by blast
      ultimately show False using d by (simp add: child_def)
    qed
    with edge_change [OF assms(1-4,6) c] b(1) show ?thesis by (auto simp: busy_def)
  qed
qed

text \<open>With nothing left to publish, queued or on a wire, no call changes anything.\<close>

lemma idle_done:
  assumes "keeps_up deliver" and "one_by_one cod valid fbs" and "rlp_codec cod valid" and "tree nodes origin parent depth"
    and "tree_inv cod nodes origin parent fbs nw" and "nw_left nw = []"
    and "\<And>a b. child nodes origin parent a b \<Longrightarrow> nw_wire nw a b = [] \<and> nw_rx nw a b = []"
  shows "tasks_done deliver cod (tree_links nodes origin parent) origin nw"
  unfolding tasks_done_def
proof (intro allI impI)
  fix es nw' assume "task_step deliver cod (tree_links nodes origin parent) origin nw es nw'"
  then show "nw' = nw"
  proof (cases rule: task_step.cases)
    case (publishes fb rest now st es')
    with assms(6) show ?thesis by simp
  next
    case (polls a b inbox later conn st rx inbox' res)
    have wire: "nw_wire nw a b = []" and rx: "nw_rx nw b a = []"
      using polls(2) assms(7) tree_invD(5) [OF assms(5)] by (auto simp: tree_links_def)
    then have empty: "inbox = []" "later = []" using polls(5) by simp_all
    obtain armed where "conn = nw_conn nw b a" "st = nw_state nw b" "rx = []" "inbox' = []" "es = []" "res = Pending armed"
      using polls(6) unfolding empty rx by (auto simp: poll_next.simps [where inbox = "[]"] take_peer_msg.simps)
    with after_idle_poll [OF assms(1,5) polls(4) rx, of armed] polls(1) wire empty show ?thesis by simp
  qed
qed

lemma tasks_finish:
  assumes "keeps_up deliver" and "one_by_one cod valid fbs" and "rlp_codec cod valid" and "tree nodes origin parent depth" and "finite nodes"
    and "tree_inv cod nodes origin parent fbs nw"
  shows "\<exists>nw'. tasks_reach deliver cod nodes origin parent nw nw' \<and> tree_inv cod nodes origin parent fbs nw' \<and>
    tasks_done deliver cod (tree_links nodes origin parent) origin nw'"
  using assms(6)
proof (induction "tree_load nodes origin parent (length fbs) nw" arbitrary: nw rule: less_induct)
  case less
  from next_change [OF assms(1-5) less.prems] show ?case
  proof (elim disjE exE conjE)
    fix mid assume mid: "paced_step deliver cod nodes origin parent nw mid" "mid \<noteq> nw"
    from less.hyps [OF task_lightens [OF assms(1-5) less.prems mid] paced_keeps [OF assms(1-4) less.prems mid(1)]] mid(1)
    show ?thesis by (meson converse_rtranclp_into_rtranclp)
  next
    assume "nw_left nw = []" "\<forall>a b. child nodes origin parent a b \<longrightarrow> nw_wire nw a b = [] \<and> nw_rx nw a b = []"
    with idle_done [OF assms(1-4) less.prems] less.prems show ?thesis by blast
  qed
qed

section \<open>Payload after payload\<close>

text \<open>Payloads that are published one after the other, each with an identifier other than the one before.\<close>

lemma payload_one_by_one:
  assumes "flashblocks_wf fbs" and "length fbs \<le> Suc MAX_FLASHBLOCK_INDEX"
    and "\<And>fb. fb \<in> set fbs \<Longrightarrow> valid (FlashblocksPayloadMsg fb) \<and> length (encode cod (FlashblocksPayloadMsg fb)) \<le> MAX_FRAME"
  shows "one_by_one cod valid fbs" and "idx (hd fbs) = 0"
proof -
  have nth: "idx (fbs ! i) = i" if "i < length fbs" for i
  proof -
    have "p_index (fbs ! i) = of_nat i" "i < 2 ^ 64"
      using flashblocks_wfD(4) [OF assms(1) that] that assms(2) by (simp_all add: MAX_FLASHBLOCK_INDEX_def)
    then show ?thesis by (simp add: unat_of_nat)
  qed
  show first: "idx (hd fbs) = 0" using nth [of 0] flashblocks_wfD(1) [OF assms(1)] by (simp add: hd_conv_nth)
  have "successively comes_next fbs"
    unfolding successively_conv_nth
  proof (intro allI impI)
    fix i assume "Suc i < length fbs"
    then show "comes_next (fbs ! i) (fbs ! Suc i)"
      using flashblocks_wfD(3) [OF assms(1)] by (simp add: comes_next_def nth)
  qed
  moreover have "idx fb \<le> MAX_FLASHBLOCK_INDEX" if "fb \<in> set fbs" for fb
    using that nth assms(2) by (auto simp: in_set_conv_nth)
  ultimately show "one_by_one cod valid fbs" using assms(3) first by (simp add: one_by_one_def)
qed

lemma payloads_one_by_one:
  assumes "one_by_one cod valid fbs" and "one_by_one cod valid fbs'"
    and "fbs \<noteq> [] \<Longrightarrow> fbs' \<noteq> [] \<Longrightarrow> p_payload_id (hd fbs') \<noteq> p_payload_id (last fbs)"
  shows "one_by_one cod valid (fbs @ fbs')"
proof (cases "fbs = [] \<or> fbs' = []")
  case True
  with assms(1,2) show ?thesis by auto
next
  case False
  then have "comes_next (last fbs) (hd fbs')" using assms(2,3) by (simp add: comes_next_def one_by_one_def)
  with False assms(1,2) show ?thesis unfolding one_by_one_def successively_append_iff by auto
qed

text \<open>
  C6: Payload after payload down a tree. A publisher publishes the flashblocks of any number of payloads one by
  one, and the nodes are linked in a tree by broadcast channels that keep up to their capacity of 100 messages.
  Whatever calls of \<open>poll_next\<close> and \<open>publish\<close> were made so far, in whatever order and with whatever part of the
  bytes under way, as long as no receiver lagged (the queues had room for what each call added to them): every stream
  is a prefix of the flashblocks of all payloads, no call that can come next penalises a peer, nothing is sent upwards,
  a queue holds no more than the channel does and no more than what the node below has not streamed yet, and when no
  call changes anything any more every node has streamed every flashblock of every payload.
\<close>

theorem trees_deliver_payloads:
  assumes "rlp_codec cod valid" and "one_by_one cod valid fbs" and "tree nodes origin parent depth" and "keeps_up deliver"
    and "tasks_reach deliver cod nodes origin parent (start_network fbs) nw"
  shows "(\<forall>x \<in> nodes. prefix (nw_stream nw x) fbs) \<and>
    (\<forall>es nw'. task_step deliver cod (tree_links nodes origin parent) origin nw es nw' \<longrightarrow>
       penalties AlreadySeenTransaction es = 0 \<and> penalties BadMessage es = 0) \<and>
    (\<forall>a b. child nodes origin parent a b \<longrightarrow> length (nw_rx nw a b) \<le> BROADCAST_BUFFER_CAPACITY \<and>
       length (nw_rx nw a b) \<le> length (nw_stream nw a) - length (nw_stream nw b) \<and> nw_rx nw b a = []) \<and>
    (tasks_done deliver cod (tree_links nodes origin parent) origin nw \<longrightarrow> (\<forall>x \<in> nodes. nw_stream nw x = fbs))"
proof (intro conjI)
  have inv: "tree_inv cod nodes origin parent fbs nw" by (rule tree_reaches [OF assms(4,2,1,3,5)])
  show "\<forall>x \<in> nodes. prefix (nw_stream nw x) fbs" using tree_prefix [OF assms(3) inv] by blast
  show "\<forall>es nw'. task_step deliver cod (tree_links nodes origin parent) origin nw es nw' \<longrightarrow>
      penalties AlreadySeenTransaction es = 0 \<and> penalties BadMessage es = 0"
    using tree_task [OF assms(4,2,1,3) inv] by blast
  show "\<forall>a b. child nodes origin parent a b \<longrightarrow> length (nw_rx nw a b) \<le> BROADCAST_BUFFER_CAPACITY \<and>
      length (nw_rx nw a b) \<le> length (nw_stream nw a) - length (nw_stream nw b) \<and> nw_rx nw b a = []"
    using tree_invD(4,5) [OF inv] by fastforce
  show "tasks_done deliver cod (tree_links nodes origin parent) origin nw \<longrightarrow> (\<forall>x \<in> nodes. nw_stream nw x = fbs)"
    using done_streams [OF assms(4,2,1,3) inv] by blast
qed

text \<open>
  C7: Such a tree settles, again with channels that keep up to their capacity. Of the calls that change something,
  made while no receiver lags, there are at most two per flashblock and node, in any order; and from wherever such
  calls have got to, the rest can be done by calls without a receiver that lags: they lead to a network that no call
  changes any more, where every node has streamed all the flashblocks.
\<close>

theorem trees_settle:
  assumes "rlp_codec cod valid" and "one_by_one cod valid fbs" and "tree nodes origin parent depth" and "keeps_up deliver"
    and "finite nodes" and "(task_change deliver cod nodes origin parent ^^ n) (start_network fbs) nw"
  shows "n \<le> length fbs * (2 * card nodes) \<and>
    (\<exists>nw'. tasks_reach deliver cod nodes origin parent nw nw' \<and>
       tasks_done deliver cod (tree_links nodes origin parent) origin nw' \<and> (\<forall>x \<in> nodes. nw_stream nw' x = fbs))"
proof -
  have bound: "tree_inv cod nodes origin parent fbs nw" "n \<le> length fbs * (2 * card nodes)"
    using task_changes_bounded [OF assms(4,2,1,3,5,6)] by simp_all
  from tasks_finish [OF assms(4,2,1,3,5) bound(1)] done_streams [OF assms(4,2,1,3)] bound(2) show ?thesis by blast
qed

section \<open>Two payloads down a line of three nodes\<close>

definition two_payloads :: "(unit, unit) flashblock list" where
  "two_payloads = [probe 7 0, probe 7 1, probe 8 0, probe 8 1]"

lemma line_is_tree: "tree {0, 1, 2 :: nat} 0 (\<lambda>b. b - 1) id"
  by (simp add: tree_def)

lemma line_finite: "finite {0, 1, 2 :: nat}"
  by simp

lemma two_payloads_one_by_one:
  "one_by_one two_payload_codec (\<lambda>m. case m of FlashblocksPayloadMsg fb \<Rightarrow>
     fb = probe (ucast (ucast (p_payload_id fb) :: u8)) (ucast (ucast (p_index fb) :: u8))) two_payloads"
  by (auto simp: one_by_one_def two_payloads_def comes_next_def two_payload_codec_def MAX_FRAME_def MAX_FLASHBLOCK_INDEX_def
      probe_def)

lemmas line_tree_facts = two_payload_codec_ok two_payloads_one_by_one line_is_tree lossy_keeps_up

text \<open>The runs down the line, over channels that lose everything beyond their capacity.\<close>

abbreviation line_reach ::
  "(FlashblockMetadata, 'w, 'b) FlashblocksP2PMsg codec \<Rightarrow> (nat, 'w, 'b) network \<Rightarrow> (nat, 'w, 'b) network \<Rightarrow> bool" where
  "line_reach cod \<equiv> tasks_reach lossy_channel cod {0, 1, 2} 0 (\<lambda>b. b - 1)"

abbreviation line_done :: "(FlashblockMetadata, 'w, 'b) FlashblocksP2PMsg codec \<Rightarrow> (nat, 'w, 'b) network \<Rightarrow> bool" where
  "line_done cod \<equiv> tasks_done lossy_channel cod (tree_links {0, 1, 2} 0 (\<lambda>b. b - 1)) 0"

abbreviation line_change ::
  "(FlashblockMetadata, 'w, 'b) FlashblocksP2PMsg codec \<Rightarrow> (nat, 'w, 'b) network \<Rightarrow> (nat, 'w, 'b) network \<Rightarrow> bool" where
  "line_change cod \<equiv> task_change lossy_channel cod {0, 1, 2} 0 (\<lambda>b. b - 1)"

theorem trees_deliver_payloads_witness:
  "\<exists>nw. line_reach two_payload_codec (start_network two_payloads) nw \<and> nw_stream nw 2 = two_payloads"
proof -
  from tasks_finish [OF lossy_keeps_up two_payloads_one_by_one two_payload_codec_ok line_is_tree line_finite tree_inv_start]
  obtain nw where nw: "line_reach two_payload_codec (start_network two_payloads) nw" "line_done two_payload_codec nw" by blast
  with trees_deliver_payloads [OF line_tree_facts nw(1)] show ?thesis by auto
qed

lemma line_tree_changes:
  obtains nw where "(line_change two_payload_codec ^^ 1) (start_network two_payloads) nw"
proof -
  let ?nw = "start_network two_payloads :: (nat, unit, unit) network"
  have "nw_left ?nw \<noteq> []" by (simp add: start_network_def two_payloads_def)
  then obtain nw where "line_change two_payload_codec ?nw nw"
    using next_change [OF lossy_keeps_up two_payloads_one_by_one two_payload_codec_ok line_is_tree line_finite tree_inv_start] by blast
  then show thesis by (intro that) auto
qed

theorem trees_settle_witness:
  "\<exists>nw. (line_change two_payload_codec ^^ 1) (start_network two_payloads) nw \<and>
     (1 :: nat) \<le> length two_payloads * (2 * card {0, 1, 2 :: nat}) \<and>
     (\<exists>nw'. line_reach two_payload_codec nw nw' \<and> nw_stream nw' 2 = two_payloads)"
proof -
  obtain nw where nw: "(line_change two_payload_codec ^^ 1) (start_network two_payloads) nw"
    by (rule line_tree_changes)
  from trees_settle [OF line_tree_facts line_finite nw] nw show ?thesis by blast
qed

end
