(* ===== verification/Jobs.thy ===== *)
theory Jobs
  imports EndToEnd Trees
begin

text \<open>
  Job after job. One node runs the jobs of successive payloads, each with the hooks before and after it, and what
  it publishes reaches every node of a tree; a node that processes its stream ends with the payload of the last job.
\<close>

section \<open>The jobs of a node\<close>

text \<open>A job: what it is built on, the payload its steps start from, what each step adds, and when it begins and ends.\<close>

record ('env, 'blk, 'p, 'inp) payload_job =
  jb_env :: 'env
  jb_block :: 'blk
  jb_payload :: 'p
  jb_inputs :: "'inp list"
  jb_begins :: nat
  jb_ends :: nat

text \<open>The jobs one after the other; the result has the node each job leaves and how the job ended.\<close>

fun run_jobs ::
  "('p \<Rightarrow> ('e, 'tx, 'log, 'u) checkpoint list \<Rightarrow> 'p) \<Rightarrow>
     bool \<Rightarrow> ((FlashblockMetadata, 'w, 'b) FlashblocksP2PMsg \<Rightarrow> bytes) \<Rightarrow>
     ('p, ('e, 'tx, 'log, 'u) checkpoint,
       ('tx, 'w, 'b, ('tx, 'w, 'b, 'log, 'u, 'h, 't) executed_block) WorldContext, 'b) chain_ops \<Rightarrow>
     ('e, 'tx, 'log, 'u) checkpoint span_ops \<Rightarrow>
     PublishFlashblock \<Rightarrow> ('tx, 'w, 'b, 'log, 'u, 'h, 't, 'q) node \<Rightarrow>
     (('e, 'tx, 'b, 'log, 'u, 'i, 'slot, 'st, 'h, 't) build_env, ('tx, 'w, 'u) block_ctx, 'p,
       clocks \<times> ('e, 'tx, 'log, 'u) checkpoint list) payload_job list \<Rightarrow>
     ('tx, 'w, 'b, 'log, 'u, 'h, 't, 'q) step_state \<times> (('tx, 'w, 'b, 'log, 'u, 'h, 't, 'q) node \<times> ('e, 'p) result) list" where
  "run_jobs grow debug encode_msg chain spans self node [] = ((self, node, [], []), [])"
| "run_jobs grow debug encode_msg chain spans self node (job # jobs) =
     (let (self, ms1) = before_job (jb_block job) (jb_begins job) self;
          ((self, node, ms2, es), r) =
            run_steps grow debug encode_msg (jb_env job) chain spans (jb_block job) self node (jb_payload job) (jb_inputs job);
          (self, ms3) = after_job (jb_ends job) self;
          ((self, last_node, ms4, es'), outs) = run_jobs grow debug encode_msg chain spans self node jobs
      in ((self, last_node, ms1 @ ms2 @ ms3 @ ms4, es @ es'), (node, r) # outs))"

text \<open>Jobs of ever later payloads, each with an identifier other than the one before and a step for each flashblock.\<close>

fun jobs_in_turn ::
  "payload_id \<Rightarrow> u64 \<Rightarrow> ('env, ('tx, 'w, 'u) block_ctx, 'p, 'inp) payload_job list \<Rightarrow> bool" where
  "jobs_in_turn pid timestamp [] \<longleftrightarrow> True"
| "jobs_in_turn pid timestamp (job # jobs) \<longleftrightarrow>
     bc_payload_id (jb_block job) \<noteq> pid \<and> timestamp < bc_timestamp (jb_block job) \<and>
     jb_inputs job \<noteq> [] \<and> length (jb_inputs job) \<le> Suc MAX_FLASHBLOCK_INDEX \<and>
     jobs_in_turn (bc_payload_id (jb_block job)) (bc_timestamp (jb_block job)) jobs"

text \<open>What a job that succeeds leaves.\<close>

definition job_left ::
  "('p, ('e, 'tx, 'log, 'u) checkpoint,
       ('tx, 'w, 'b, ('tx, 'w, 'b, 'log, 'u, 'h, 't) executed_block) WorldContext, 'b) chain_ops \<Rightarrow>
     (('e, 'tx, 'b, 'log, 'u, 'i, 'slot, 'st, 'h, 't) build_env, ('tx, 'w, 'u) block_ctx, 'p, 'inp) payload_job \<Rightarrow>
     ('tx, 'w, 'b, 'log, 'u, 'h, 't, 'q) node \<times> ('e, 'p) result \<Rightarrow> bool" where
  "job_left chain job = (\<lambda>(node, r). \<exists>self p bp. r = Ok p \<and>
     in_step chain (jb_env job) (jb_block job) self node p bp \<and> length (se_flashblocks node) = length (jb_inputs job))"

abbreviation collections ::
  "(('tx, 'w, 'b, 'log, 'u, 'h, 't, 'q) node \<times> ('e, 'p) result) list \<Rightarrow> ('w, 'b) flashblocks list" where
  "collections outs \<equiv> map (\<lambda>(node, r). se_flashblocks node) outs"

lemma job_publishes:
  fixes node node' :: "('tx, 'w, 'b, 'log, 'u, 'h, 't, 'q) node"
  assumes "checkpoint_chain chain grow barrier_cp" and "flashblocks_wf (se_flashblocks node)"
    and "p_payload_id (hd (se_flashblocks node)) \<noteq> bc_payload_id blk"
    and "b_timestamp (the (p_base (hd (se_flashblocks node)))) < bc_timestamp blk"
    and "before_job blk now self = (started, started_metrics)" and "pf_block_number self = 0"
    and "inputs \<noteq> []" and "length inputs \<le> Suc MAX_FLASHBLOCK_INDEX"
    and "run_steps grow debug enc env chain spans blk started node p inputs = ((self', node', ms, es), Ok p')"
  obtains bp ps where "in_step chain env blk self' node' p' bp" "length (se_flashblocks node') = length inputs"
    "es = map OverP2P (snd (run (publish_step enc) (se_p2p node) ps))"
    "se_p2p node' = fst (run (publish_step enc) (se_p2p node) ps)" "map snd ps = se_flashblocks node'"
proof -
  have bound: "length inputs < 2 ^ 64" using assms(8) by (simp add: MAX_FLASHBLOCK_INDEX_def)
  obtain bp where step: "in_step chain env blk self' node' p' bp" and len: "length (se_flashblocks node') = length inputs"
    by (rule job_Ok_in_step [OF assms(1-7) bound assms(9)])
  then have pid: "p_payload_id (hd (se_flashblocks node')) = bc_payload_id blk" by (simp add: in_step_def)
  obtain ps where ps: "es = map OverP2P (snd (run (publish_step enc) (se_p2p node) ps))"
    "se_p2p node' = fst (run (publish_step enc) (se_p2p node) ps)"
    "se_flashblocks node' = foldl pushed (se_flashblocks node) (map snd ps)" "length ps \<le> length inputs"
    using run_steps_effects [OF assms(2,9)] by blast
  have "se_flashblocks node' = map snd ps"
    using foldl_pushed [of "se_flashblocks node" "map snd ps"]
  proof (elim disjE exE conjE)
    assume "foldl pushed (se_flashblocks node) (map snd ps) = se_flashblocks node @ map snd ps"
    then have "hd (se_flashblocks node') = hd (se_flashblocks node)" using ps(3) flashblocks_wfD(1) [OF assms(2)] by simp
    then show ?thesis using pid assms(3) by simp
  next
    fix k assume "k < length (map snd ps)" and "foldl pushed (se_flashblocks node) (map snd ps) = drop k (map snd ps)"
    with ps(3,4) len show ?thesis by (cases k) simp_all
  qed
  with that step len ps(1,2) show thesis by metis
qed

lemma jobs_publish:
  fixes node node' :: "('tx, 'w, 'b, 'log, 'u, 'h, 't, 'q) node"
  assumes "checkpoint_chain chain grow barrier_cp" and "flashblocks_wf (se_flashblocks node)"
    and "jobs_in_turn (p_payload_id (hd (se_flashblocks node))) (b_timestamp (the (p_base (hd (se_flashblocks node))))) jobs"
    and "pf_block_number self = 0"
    and "run_jobs grow debug enc chain spans self node jobs = ((self', node', ms, es), outs)"
    and "\<And>n r. (n, r) \<in> set outs \<Longrightarrow> \<exists>p. r = Ok p"
  shows "list_all2 (job_left chain) jobs outs \<and> node' = (if outs = [] then node else fst (last outs)) \<and>
    (\<exists>ps. es = map OverP2P (snd (run (publish_step enc) (se_p2p node) ps)) \<and> map snd ps = concat (collections outs))"
  using assms(2-)
proof (induction jobs arbitrary: self node ms es outs)
  case Nil
  then show ?case by (intro conjI exI [of _ "[]"]) auto
next
  case (Cons job jobs)
  obtain started ms1 where before: "before_job (jb_block job) (jb_begins job) self = (started, ms1)" by fastforce
  obtain self1 node1 ms2 es1 r where steps: "run_steps grow debug enc (jb_env job) chain spans (jb_block job) started node
      (jb_payload job) (jb_inputs job) = ((self1, node1, ms2, es1), r)" by (metis prod_cases4 surj_pair)
  obtain self2 ms3 where after: "after_job (jb_ends job) self1 = (self2, ms3)" by fastforce
  obtain ms4 es2 outs' where rest: "run_jobs grow debug enc chain spans self2 node1 jobs = ((self', node', ms4, es2), outs')"
    and outs: "outs = (node1, r) # outs'" and es: "es = es1 @ es2"
    using Cons.prems(4) by (auto simp: before steps after split: prod.splits)
  obtain p1 where r: "r = Ok p1" using Cons.prems(5) [of node1 r] by (auto simp: outs)
  have turn: "p_payload_id (hd (se_flashblocks node)) \<noteq> bc_payload_id (jb_block job)"
    "b_timestamp (the (p_base (hd (se_flashblocks node)))) < bc_timestamp (jb_block job)"
    "jb_inputs job \<noteq> []" "length (jb_inputs job) \<le> Suc MAX_FLASHBLOCK_INDEX"
    "jobs_in_turn (bc_payload_id (jb_block job)) (bc_timestamp (jb_block job)) jobs"
    using Cons.prems(2) by auto
  obtain bp ps1 where step: "in_step chain (jb_env job) (jb_block job) self1 node1 p1 bp"
    and len: "length (se_flashblocks node1) = length (jb_inputs job)"
    and ps1: "es1 = map OverP2P (snd (run (publish_step enc) (se_p2p node) ps1))"
      "se_p2p node1 = fst (run (publish_step enc) (se_p2p node) ps1)" "map snd ps1 = se_flashblocks node1"
    by (rule job_publishes [OF assms(1) Cons.prems(1) turn(1,2) before Cons.prems(3) turn(3,4) steps [unfolded r]])
  have "pf_block_number self2 = 0" using after by (auto simp: after_job_def split: prod.splits)
  moreover have "flashblocks_wf (se_flashblocks node1)"
    "jobs_in_turn (p_payload_id (hd (se_flashblocks node1))) (b_timestamp (the (p_base (hd (se_flashblocks node1))))) jobs"
    using step turn(5) by (simp_all add: in_step_def job_base_def)
  ultimately have IH: "list_all2 (job_left chain) jobs outs' \<and> node' = (if outs' = [] then node1 else fst (last outs')) \<and>
    (\<exists>ps. es2 = map OverP2P (snd (run (publish_step enc) (se_p2p node1) ps)) \<and> map snd ps = concat (collections outs'))"
    using Cons.prems(5) by (intro Cons.IH [OF _ _ _ rest]) (auto simp: outs)
  then obtain ps2 where ps2: "es2 = map OverP2P (snd (run (publish_step enc) (se_p2p node1) ps2))"
    "map snd ps2 = concat (collections outs')" by blast
  have "job_left chain job (node1, r)" using step len r by (auto simp: job_left_def)
  moreover have "es = map OverP2P (snd (run (publish_step enc) (se_p2p node) (ps1 @ ps2)))"
    using ps1(1,2) ps2(1) by (simp add: es run_append Let_def split: prod.splits)
  moreover have "map snd (ps1 @ ps2) = concat (collections outs)" using ps1(3) ps2(2) by (simp add: outs)
  ultimately show ?case using IH by (auto simp: outs)
qed

section \<open>Their flashblocks, one by one\<close>

fun ids_in_turn :: "payload_id \<Rightarrow> ('w, 'b) flashblocks list \<Rightarrow> bool" where
  "ids_in_turn pid [] \<longleftrightarrow> True"
| "ids_in_turn pid (fbs # fbss) \<longleftrightarrow> flashblocks_wf fbs \<and> length fbs \<le> Suc MAX_FLASHBLOCK_INDEX \<and>
     p_payload_id (hd fbs) \<noteq> pid \<and> ids_in_turn (p_payload_id (hd fbs)) fbss"

lemma jobs_ids_in_turn:
  assumes "list_all2 (job_left chain) jobs outs" and "jobs_in_turn pid timestamp jobs"
  shows "ids_in_turn pid (collections outs)"
  using assms
proof (induction arbitrary: pid timestamp rule: list_all2_induct)
  case (Cons job jobs out outs)
  then show ?case by (cases out) (auto simp: job_left_def in_step_def)
qed simp

lemma ids_one_by_one:
  assumes "ids_in_turn pid fbss"
    and "\<And>fb. fb \<in> set (concat fbss) \<Longrightarrow> valid (FlashblocksPayloadMsg fb) \<and> length (encode cod (FlashblocksPayloadMsg fb)) \<le> MAX_FRAME"
  shows "one_by_one cod valid (concat fbss)"
  using assms
proof (induction fbss arbitrary: pid)
  case Nil
  then show ?case by (simp add: one_by_one_def)
next
  case (Cons fbs fbss)
  have wf: "flashblocks_wf fbs" "length fbs \<le> Suc MAX_FLASHBLOCK_INDEX" and turn: "ids_in_turn (p_payload_id (hd fbs)) fbss"
    using Cons.prems(1) by simp_all
  have "one_by_one cod valid fbs" using payload_one_by_one(1) [OF wf] Cons.prems(2) by simp
  moreover have "one_by_one cod valid (concat fbss)" using turn Cons.prems(2) by (intro Cons.IH) auto
  moreover have "p_payload_id (hd (concat fbss)) \<noteq> p_payload_id (last fbs)" if more: "concat fbss \<noteq> []"
  proof -
    obtain next_fbs rest where fbss: "fbss = next_fbs # rest" using more by (cases fbss) auto
    have "hd (concat fbss) = hd next_fbs" using turn flashblocks_wfD(1) [of next_fbs] by (simp add: fbss)
    moreover have "p_payload_id (last fbs) = p_payload_id (hd fbs)"
      using flashblocks_wfD(3) [OF wf(1) last_in_set [OF flashblocks_wfD(1) [OF wf(1)]]] .
    ultimately show ?thesis using turn by (simp add: fbss)
  qed
  ultimately show ?case unfolding concat.simps by (rule payloads_one_by_one) blast
qed

section \<open>A follower of many payloads\<close>

lemma launch_append:
  "launch debug env self (xs @ ys) = (case launch debug env self xs of
     None \<Rightarrow> None
   | Some (mid, rs) \<Rightarrow> map_option (\<lambda>r. (fst r, rs @ snd r)) (launch debug env mid ys))"
  by (induction xs arbitrary: self)
    (auto simp: option.map_comp comp_def split_beta option.map_ident split: option.split)

lemma latest_mirrors_id:
  assumes "latest_mirrors env fbs (Some (payload, index))"
  shows "bp_id payload = p_payload_id (hd fbs)"
  using assms by (auto simp: latest_mirrors_def carries_def Let_def)

text \<open>A payload other than the one collected so far is collected from its first flashblock on.\<close>

lemma launch_next_payload:
  assumes "launch debug env self stream = Some (follower, rs)" and "\<And>r. r \<in> set rs \<Longrightarrow> \<exists>x. r = Ok x"
    and "mirrors_collection env self"
    and "flashblocks_wf stream" and "length stream \<le> Suc MAX_FLASHBLOCK_INDEX"
    and "p_payload_id (hd stream) \<noteq> p_payload_id (hd (se_flashblocks self))"
  shows "se_flashblocks follower = stream" and "se_latest_payload follower \<noteq> None"
proof -
  obtain fb rest where stream: "stream = fb # rest" using flashblocks_wfD(1) [OF assms(4)] by (cases stream) auto
  from assms(1) obtain s r rs' where
    first: "process_flashblock debug env self fb = Some (s, r)"
    and run: "launch debug env s rest = Some (follower, rs')" and rs: "rs = r # rs'"
    unfolding stream by (auto split: option.splits prod.splits)
  obtain x where r: "r = Ok x" using assms(2) rs by auto
  note wf = latest_mirrors_wf [OF assms(3)]
  have other: "p_payload_id fb \<noteq> p_payload_id (hd (se_flashblocks self))" using assms(6) by (simp add: stream)
  have "already_processed self fb = None"
  proof (cases "se_latest_payload self")
    case (Some latest)
    then obtain payload index where latest: "se_latest_payload self = Some (payload, index)" by (cases latest) simp
    from latest_mirrors_id [OF assms(3) [unfolded this]] other latest show ?thesis by (simp add: already_processed_def)
  qed (simp add: already_processed_def)
  note step = process_Ok_collects [OF wf this first [unfolded r]]
  have "\<not> continues (se_flashblocks self) fb" using other by (simp add: continues_def)
  then have pushed: "se_flashblocks s = [fb]" using step(1,2) by (simp add: accepts_def pushed_def)
  have "p_index fb = 0" using flashblocks_wfD(4) [OF assms(4), of 0] by (simp add: stream)
  moreover have "flashblocks_wf [fb]" using push_accepts(2) [OF wf step(1)] step(2) by (simp add: pushed)
  ultimately have "se_flashblocks follower = se_flashblocks s @ rest \<and> se_latest_payload follower \<noteq> None"
    using assms(2,4,5) step(3) rs
    by (intro launch_continues [OF run]) (auto simp: pushed stream MAX_FLASHBLOCK_INDEX_def)
  then show "se_flashblocks follower = stream" "se_latest_payload follower \<noteq> None"
    by (simp_all add: pushed stream)
qed

lemma launch_payloads:
  assumes "launch debug env self (concat fbss) = Some (follower, rs)" and "\<And>r. r \<in> set rs \<Longrightarrow> \<exists>x. r = Ok x"
    and "mirrors_collection env self" and "recovers_same env"
    and "ids_in_turn (p_payload_id (hd (se_flashblocks self))) fbss"
  shows "mirrors_collection env follower \<and>
    (fbss \<noteq> [] \<longrightarrow> se_flashblocks follower = last fbss \<and> se_latest_payload follower \<noteq> None)"
  using assms(1-3,5)
proof (induction fbss arbitrary: self rs)
  case (Cons fbs fbss)
  obtain mid rs1 rs2 where mid: "launch debug env self fbs = Some (mid, rs1)"
    and rest: "launch debug env mid (concat fbss) = Some (follower, rs2)" and rs: "rs = rs1 @ rs2"
    using Cons.prems(1) by (auto simp: launch_append split: option.splits)
  have ok: "\<exists>x. r = Ok x" if "r \<in> set rs1 \<or> r \<in> set rs2" for r using Cons.prems(2) that by (auto simp: rs)
  have "length rs1 = length fbs" using mid by (rule launch_length)
  then have mirror: "mirrors_collection env mid"
    using ok by (intro launch_keeps_mirror [OF mid Cons.prems(3) assms(4)]) (metis nth_mem)
  have fbs: "flashblocks_wf fbs" "length fbs \<le> Suc MAX_FLASHBLOCK_INDEX"
    "p_payload_id (hd fbs) \<noteq> p_payload_id (hd (se_flashblocks self))" "ids_in_turn (p_payload_id (hd fbs)) fbss"
    using Cons.prems(4) by auto
  note collected = launch_next_payload [OF mid _ Cons.prems(3) fbs(1-3)]
  have "se_flashblocks mid = fbs" "se_latest_payload mid \<noteq> None" using collected ok by blast+
  with Cons.IH [OF rest _ mirror] ok fbs(4) rest show ?case by (cases "fbss = []") auto
qed simp

section \<open>From the jobs of one node to the payload of every node\<close>

lemma list_all2_last: "list_all2 P xs ys \<Longrightarrow> xs \<noteq> [] \<Longrightarrow> P (last xs) (last ys)"
  by (induction rule: list_all2_induct) auto

text \<open>The latest payload of a follower whose collection is the one of a job.\<close>

lemma mirrors_published:
  assumes "in_step chain env blk self node p bp" and "latest_mirrors fenv (se_flashblocks node) (Some (payload, i))"
    and "\<And>tx. tx \<in> set (block_txs (bp_block bp)) \<Longrightarrow> ne_decode_tx fenv (tx_encoded (be_tx env) tx) = Some tx"
  shows "block_txs (bp_block payload) = block_txs (bp_block bp) \<and> se_latest_payload node = Some (bp, i) \<and>
    bp_id payload = bc_payload_id blk"
proof (intro conjI)
  have "map (ne_decode_tx fenv \<circ> tx_encoded (be_tx env)) (block_txs (bp_block bp)) = map Some (block_txs (bp_block bp))"
    using assms(3) by simp
  moreover have "all_transactions (se_flashblocks node) = map (tx_encoded (be_tx env)) (block_txs (bp_block bp))"
    using assms(1) by (simp add: in_step_def)
  moreover have "map (ne_decode_tx fenv) (all_transactions (se_flashblocks node)) = map Some (block_txs (bp_block payload))"
    using assms(2) by (simp add: latest_mirrors_def)
  ultimately have "map Some (block_txs (bp_block payload)) = map Some (block_txs (bp_block bp))" by (metis map_map)
  then show "block_txs (bp_block payload) = block_txs (bp_block bp)" by (rule map_injective) simp
  have "i = p_index (last (se_flashblocks node))" using assms(2) by (simp add: latest_mirrors_def)
  also have "\<dots> = of_nat (length (se_flashblocks node) - 1)" using assms(1) last_index_wf unfolding in_step_def by metis
  finally show "se_latest_payload node = Some (bp, i)" using in_step_latest [OF assms(1)] by simp
  show "bp_id payload = bc_payload_id blk" using latest_mirrors_id [OF assms(2)] assms(1) by (simp add: in_step_def)
qed

lemma start_turn:
  "flashblocks_wf (se_flashblocks (state_executor_new p2p pending))"
  "p_payload_id (hd (se_flashblocks (state_executor_new p2p pending))) = 0"
  "b_timestamp (the (p_base (hd (se_flashblocks (state_executor_new p2p pending))))) = 0"
  by (simp_all add: state_executor_new_def default_flashblocks_wf)
    (simp_all add: default_flashblocks_def default_base_def)

text \<open>
  C2: From the jobs of one node to the payload of every node. A new node runs any number of jobs for ever later
  payloads and all of them succeed. The messages it hands to its connections are the flashblocks of all jobs in
  order, one for each step. Down a tree of connections, whose broadcast channels keep up to their capacity of 100
  messages, the tasks of the nodes run in any order, without a receiver that lags (the queues have room for what each
  call adds to them), until nothing is left to do: then every node has streamed the flashblocks of all jobs, in order
  and without a gap. When the state executor of such a node processes its stream without an error, its latest payload has the id of the
  last job, the index of its last flashblock and exactly the transactions of the payload built last.
\<close>

theorem jobs_reach_tree:
  fixes node :: "('tx, 'w, 'acc list, 'log, 'u, 'h, 't, 'q) node"
    and fenv :: "('e, 'tx, 'w, 'flog, 'fu, 'fi, 'fslot, 'fst, 'fh, 'ft, 's, 'acc, 'inf, 'sto, 'x, 'ctx) node_env"
    and nodes :: "'n set"
  assumes "checkpoint_chain chain grow barrier_cp"
    and "jobs_in_turn 0 0 jobs" and "jobs \<noteq> []"
    and "run_jobs grow debug (encode cod) chain spans publish_flashblock_new (state_executor_new default_p2p_state None) jobs =
      ((self, node, ms, es), outs)"
    and "\<And>n r. (n, r) \<in> set outs \<Longrightarrow> \<exists>p. r = Ok p"
    and "rlp_codec cod valid"
    and "\<And>fb. fb \<in> set (concat (collections outs)) \<Longrightarrow>
      valid (FlashblocksPayloadMsg fb) \<and> length (encode cod (FlashblocksPayloadMsg fb)) \<le> MAX_FRAME"
    and "tree nodes origin parent depth" and "keeps_up deliver"
    and "tasks_reach deliver cod nodes origin parent (start_network (concat (collections outs))) nw"
    and "tasks_done deliver cod (tree_links nodes origin parent) origin nw" and "a \<in> nodes"
    and "launch fdebug fenv (state_executor_new p2p None) (nw_stream nw a) = Some (follower, rs)"
    and "\<And>r. r \<in> set rs \<Longrightarrow> \<exists>x. r = Ok x"
    and "recovers_same fenv"
    and "\<And>bp i tx. se_latest_payload node = Some (bp, i) \<Longrightarrow> tx \<in> set (block_txs (bp_block bp)) \<Longrightarrow>
      ne_decode_tx fenv (tx_encoded (be_tx (jb_env (last jobs))) tx) = Some tx"
  shows "sent_to_peers (over_p2p es) = map (peer_msg (encode cod)) (concat (collections outs)) \<and>
    nw_stream nw a = concat (collections outs) \<and> map length (collections outs) = map (\<lambda>job. length (jb_inputs job)) jobs \<and>
    (\<exists>bp payload i. se_latest_payload node = Some (bp, i) \<and> se_latest_payload follower = Some (payload, i) \<and>
      bp_id payload = bc_payload_id (jb_block (last jobs)) \<and> block_txs (bp_block payload) = block_txs (bp_block bp))"
proof -
  let ?start = "state_executor_new default_p2p_state None :: ('tx, 'w, 'acc list, 'log, 'u, 'h, 't, 'q) node"
  let ?fbs = "concat (collections outs)"
  note start = start_turn [where p2p = default_p2p_state and pending = None]
  have number: "pf_block_number publish_flashblock_new = 0" by (simp add: publish_flashblock_new_def)
  from jobs_publish [OF assms(1) start(1) _ number assms(4,5)] assms(2)
  have left: "list_all2 (job_left chain) jobs outs" and node: "node = (if outs = [] then ?start else fst (last outs))"
    and "\<exists>ps. es = map OverP2P (snd (run (publish_step (encode cod)) (se_p2p ?start) ps)) \<and> map snd ps = ?fbs"
    by (simp_all add: start)
  then obtain ps where es: "over_p2p es = snd (run (publish_step (encode cod)) default_p2p_state ps)" and ps: "map snd ps = ?fbs"
    by (auto simp: state_executor_new_def)
  have turn: "ids_in_turn 0 (collections outs)" using left assms(2) by (rule jobs_ids_in_turn)
  have seq: "one_by_one cod valid ?fbs" using turn assms(7) by (rule ids_one_by_one)
  have sent: "sent_to_peers (over_p2p es) = map (peer_msg (encode cod)) ?fbs"
    using tip_run [where past = "[]" and later = "[]", OF _ at_tip_start, of cod valid ps] seq
    by (simp add: es flip: ps)
  have stream: "nw_stream nw a = ?fbs"
    by (rule done_streams [OF assms(9) seq assms(6,8) tree_reaches [OF assms(9) seq assms(6,8,10)] assms(11,12)])
  have some: "outs \<noteq> []" using left assms(3) by auto
  have launched: "mirrors_collection fenv follower \<and>
      (collections outs \<noteq> [] \<longrightarrow> se_flashblocks follower = last (collections outs) \<and> se_latest_payload follower \<noteq> None)"
    by (rule launch_payloads [OF assms(13) [unfolded stream] assms(14) latest_mirrors_new assms(15)])
      (use turn in \<open>simp_all add: start_turn\<close>)
  then have mirror: "mirrors_collection fenv follower" ..
  have "collections outs \<noteq> []" "last (collections outs) = se_flashblocks node"
    using some by (simp_all add: node last_map split_beta)
  with launched have same: "se_flashblocks follower = se_flashblocks node" and latest: "se_latest_payload follower \<noteq> None"
    by metis+
  have "job_left chain (last jobs) (last outs)"
    using left assms(3) by (rule list_all2_last)
  then obtain step_self p bp where step: "in_step chain (jb_env (last jobs)) (jb_block (last jobs)) step_self node p bp"
    using node some by (auto simp: job_left_def split_beta)
  obtain payload i where payload: "se_latest_payload follower = Some (payload, i)" using latest by auto
  have "block_txs (bp_block payload) = block_txs (bp_block bp) \<and> se_latest_payload node = Some (bp, i) \<and>
      bp_id payload = bc_payload_id (jb_block (last jobs))"
    using step mirror [unfolded payload same] assms(16) by (rule mirrors_published) (use in_step_latest [OF step] in auto)
  moreover have "map length (collections outs) = map (\<lambda>job. length (jb_inputs job)) jobs"
    using left by (induction rule: list_all2_induct) (auto simp: job_left_def)
  ultimately show ?thesis using sent stream payload by blast
qed

section \<open>Two jobs and a line of three nodes\<close>

definition next_block :: "(nat, unit, nat) block_ctx" where
  "next_block = example_block\<lparr>bc_timestamp := 6, bc_attributes := (bc_attributes example_block)\<lparr>oa_payload_attributes :=
     (oa_payload_attributes (bc_attributes example_block))\<lparr>ea_id := 8\<rparr>\<rparr>\<rparr>"

definition next_job :: "(clocks \<times> (unit, nat, nat, nat) checkpoint list) list" where
  "next_job = [(at_instant 40, [example_cp 0 100])]"

lemma part_of_next:
  "part_of next_block index txs fb \<longleftrightarrow> p_payload_id fb = 8 \<and> p_index fb = index \<and> p_base fb = Some (job_base next_block) \<and>
     d_transactions (p_diff fb) = txs \<and> d_withdrawals (p_diff fb) = [] \<and> d_block_access_list (p_diff fb) = Some []"
  by (simp add: part_of_def bc_payload_id_def) (simp add: next_block_def)

lemma next_base: "b_timestamp (job_base next_block) = 6" "b_timestamp (job_base example_block) = 5"
  by (simp_all add: job_base_def next_block_def example_block_def)

lemma small_next_job:
  fixes node :: "(nat, unit, unit list, nat, nat, nat, unit, unit) node"
  assumes "se_flashblocks node = [a, b]" and "block_7 0 [[0]] a" and "flashblocks_wf [a, b]" and "pf_block_number self = 0"
  shows "\<exists>self' node' ms es p c.
    run_steps list_grow True encode_msg small_env small_chain example_spans next_block
      (fst (before_job next_block 30 self)) node job_start next_job = ((self', node', ms, es), Ok p) \<and>
    se_flashblocks node' = [c] \<and> part_of next_block 0 [[0]] c \<and>
    (\<exists>bp i. se_latest_payload node' = Some (bp, i) \<and> block_txs (bp_block bp) = [0])"
proof -
  obtain started ms1 where before: "before_job next_block 30 self = (started, ms1)" by fastforce
  then have started: "pf_block_base started = Some (job_base next_block)" "pf_block_number started = 0"
    using assms(4) by (auto simp: before_job_def split: prod.splits)
  let ?p = "list_grow job_start [example_cp 0 100] :: small_payload"
  have p: "span_transactions (unpublished_payload small_chain 0 ?p) = [0]" "ch_history small_chain ?p = [example_cp 0 100]"
    by (simp_all add: list_grow_def job_start_def unpublished_payload_def span_transactions_def example_cp_def)
  obtain bp where bp: "build_op_built_payload True small_env small_chain next_block (pf_block_number started) ?p = Ok bp"
    using small_build [of next_block] by (auto simp: started)
  let ?fb = "step_flashblock small_env small_chain next_block (at_instant 40) started ?p bp"
  have c: "part_of next_block 0 [[0]] ?fb" using step_part [OF bp started(1)] p by (simp add: started)
  have new: "starts_new [a, b] ?fb"
    using c [unfolded part_of_next] assms(2) [unfolded block_7_def] unfolding starts_new_def by (simp add: next_base)
  have wf: "flashblocks_wf (se_flashblocks node)" using assms(1,3) by simp
  have acc: "accepts (se_flashblocks node) ?fb" using new assms(1) by (simp add: accepts_def)
  obtain tms p2p ms es where "step True encode_msg small_env small_chain example_spans next_block (at_instant 40) started node ?p =
       ((started\<lparr>pf_block_number := pf_block_number started + 1, pf_times := tms\<rparr>,
         node\<lparr>se_flashblocks := pushed (se_flashblocks node) ?fb, se_latest_payload := Some (bp, pf_block_number started),
              se_p2p := p2p\<rparr>, ms, es), Ok (ch_barrier_with_context small_chain ?p (new_context bp)))"
    by (rule step_publishes [OF wf bp acc])
  then have "run_steps list_grow True encode_msg small_env small_chain example_spans next_block
      (fst (before_job next_block 30 self)) node job_start next_job =
    ((started\<lparr>pf_block_number := pf_block_number started + 1, pf_times := tms\<rparr>,
      node\<lparr>se_flashblocks := pushed (se_flashblocks node) ?fb, se_latest_payload := Some (bp, pf_block_number started),
           se_p2p := p2p\<rparr>, ms, es), Ok (ch_barrier_with_context small_chain ?p (new_context bp)))"
    by (simp add: next_job_def before)
  moreover have "block_txs (bp_block bp) = [0]"
    using build_txs(1) [OF bp] p by (simp add: span_transactions_def example_cp_def)
  moreover have "pushed (se_flashblocks node) ?fb = [?fb]" using new assms(1) by (simp add: pushed_def)
  ultimately show ?thesis using c by (intro exI conjI) (assumption | simp)+
qed

type_synonym small_build_env = "(unit, nat, unit list, nat, nat, unit, unit, unit, nat, unit) build_env"

definition two_jobs :: "(small_build_env, (nat, unit, nat) block_ctx, small_payload, clocks \<times> (unit, nat, nat, nat) checkpoint list) payload_job list" where
  "two_jobs = [\<lparr>jb_env = small_env, jb_block = example_block, jb_payload = job_start, jb_inputs = example_job, jb_begins = 10, jb_ends = 25\<rparr>,
     \<lparr>jb_env = small_env, jb_block = next_block, jb_payload = job_start, jb_inputs = next_job, jb_begins = 30, jb_ends = 45\<rparr>]"

lemma two_jobs_in_turn: "jobs_in_turn 0 0 two_jobs"
  by (simp add: two_jobs_def bc_payload_id_def example_job_def next_job_def MAX_FLASHBLOCK_INDEX_def)
    (simp add: next_block_def example_block_def)

lemma two_jobs_run:
  "\<exists>self (node :: (nat, unit, unit list, nat, nat, nat, unit, unit) node) ms es node1 p1 p2 a b c bp i.
     run_jobs list_grow True encode_msg small_chain example_spans publish_flashblock_new (state_executor_new default_p2p_state None) two_jobs =
       ((self, node, ms, es), [(node1, Ok p1), (node, Ok p2)]) \<and>
     se_flashblocks node1 = [a, b] \<and> se_flashblocks node = [c] \<and>
     block_7 0 [[0]] a \<and> block_7 1 [[4]] b \<and> part_of next_block 0 [[0]] c \<and>
     se_latest_payload node = Some (bp, i) \<and> block_txs (bp_block bp) = [0]"
proof -
  obtain self1 ms1 es1 p1 a b and node1 :: "(nat, unit, unit list, nat, nat, nat, unit, unit) node" where
    first: "run_steps list_grow True encode_msg small_env small_chain example_spans example_block
      (fst (before_job example_block 10 publish_flashblock_new)) publisher_node job_start example_job = ((self1, node1, ms1, es1), Ok p1)"
    and node1: "se_flashblocks node1 = [a, b]" "block_7 0 [[0]] a" "block_7 1 [[4]] b"
    using small_job [of encode_msg] by blast
  have wf: "flashblocks_wf [a, b]" using node1(2,3) [unfolded block_7_def] by (auto simp: flashblocks_wf_def less_Suc_eq)
  obtain self2 ms2 where after: "after_job 25 self1 = (self2, ms2)" by fastforce
  then have "pf_block_number self2 = 0" by (auto simp: after_job_def split: prod.splits)
  from small_next_job [OF node1(1,2) wf this, of encode_msg]
  obtain self3 ms3 es3 p3 c and node3 :: "(nat, unit, unit list, nat, nat, nat, unit, unit) node" where
    second: "run_steps list_grow True encode_msg small_env small_chain example_spans next_block
      (fst (before_job next_block 30 self2)) node1 job_start next_job = ((self3, node3, ms3, es3), Ok p3)"
    and c: "se_flashblocks node3 = [c]" "part_of next_block 0 [[0]] c"
      "\<exists>bp i. se_latest_payload node3 = Some (bp, i) \<and> block_txs (bp_block bp) = [0]" by blast
  obtain self4 ms4 where last_after: "after_job 45 self3 = (self4, ms4)" by fastforce
  have "\<exists>ms. run_jobs list_grow True encode_msg small_chain example_spans publish_flashblock_new (state_executor_new default_p2p_state None) two_jobs =
      ((self4, node3, ms, es1 @ es3), [(node1, Ok p1), (node3, Ok p3)])"
    using first second after last_after by (simp add: two_jobs_def publisher_node_def split_beta)
  with node1 c show ?thesis by blast
qed

lemma small_follower_next:
  assumes "block_7 0 [[0]] a" and "block_7 1 [[4]] b" and "part_of next_block 0 [[0]] c"
  shows "\<exists>follower. launch False (example_node (example_env [])) (state_executor_new p2p None) [a, b, c] =
    Some (follower, [Ok [], Ok [], Ok []])"
proof -
  have a: "p_payload_id a = 7" "p_index a = 0" "p_base a = Some (job_base example_block)"
    "d_transactions (p_diff a) = [[0]]" "d_withdrawals (p_diff a) = []" "d_block_access_list (p_diff a) = Some []"
    and b: "p_payload_id b = 7" "p_index b = 1" "d_transactions (p_diff b) = [[4]]"
    "d_withdrawals (p_diff b) = []" "d_block_access_list (p_diff b) = Some []"
    and c: "p_payload_id c = 8" "p_index c = 0" "p_base c = Some (job_base next_block)"
    "d_transactions (p_diff c) = [[0]]" "d_withdrawals (p_diff c) = []" "d_block_access_list (p_diff c) = Some []"
    using assms [unfolded block_7_def part_of_next] by simp_all
  show ?thesis by (simp add: node_simps Let_def a b c next_base not_le)
qed

text \<open>A codec that tells the flashblocks of the two payloads apart.\<close>

fun two_jobs_key :: "('m, 'w, 'b) FlashblocksP2PMsg \<Rightarrow> u8" where
  "two_jobs_key (FlashblocksPayloadMsg fb) = ucast (p_payload_id fb) * 2 + ucast (p_index fb)"

definition two_jobs_table :: "('w, 'b) flashblock \<Rightarrow> ('w, 'b) flashblock \<Rightarrow> ('w, 'b) flashblock \<Rightarrow> u8 \<Rightarrow>
    (FlashblockMetadata, 'w, 'b) FlashblocksP2PMsg" where
  "two_jobs_table a b c k = FlashblocksPayloadMsg (if k = 14 then a else if k = 15 then b else c)"

theorem jobs_reach_tree_witness:
  "\<exists>(node :: (nat, unit, unit list, nat, nat, nat, unit, unit) node) cod (nw :: (nat, unit, unit list) network)
      (follower :: (nat, unit, unit list, (nat, unit, unit list, nat, nat, nat, unit) executed_block, unit) FlashblocksStateExecutor)
      fbs bp payload i.
     line_reach cod (start_network fbs) nw \<and> length fbs = 3 \<and> nw_stream nw 2 = fbs \<and>
     launch False (example_node (example_env [])) (state_executor_new default_p2p_state None) (nw_stream nw 2) =
       Some (follower, [Ok [], Ok [], Ok []]) \<and>
     se_latest_payload node = Some (bp, i) \<and> se_latest_payload follower = Some (payload, i) \<and> bp_id payload = 8 \<and>
     block_txs (bp_block payload) = block_txs (bp_block bp)"
proof -
  let ?encode = "\<lambda>m. [two_jobs_key m]"
  obtain self ms es p1 p2 a b c bp i and node1 node :: "(nat, unit, unit list, nat, nat, nat, unit, unit) node" where
    run: "run_jobs list_grow True ?encode small_chain example_spans publish_flashblock_new (state_executor_new default_p2p_state None) two_jobs =
       ((self, node, ms, es), [(node1, Ok p1), (node, Ok p2)])"
    and fbs: "se_flashblocks node1 = [a, b]" "se_flashblocks node = [c]"
    and parts: "block_7 0 [[0]] a" "block_7 1 [[4]] b" "part_of next_block 0 [[0]] c"
    and latest: "se_latest_payload node = Some (bp, i)" "block_txs (bp_block bp) = [0]"
    using two_jobs_run [of ?encode] by (elim exE conjE)
  let ?outs = "[(node1, Ok p1), (node, Ok p2)] :: (_ \<times> (unit, _) result) list" and ?cod = "table_codec (two_jobs_table a b c) two_jobs_key"
  let ?valid = "\<lambda>m. two_jobs_table a b c (two_jobs_key m) = m"
  have all: "concat (collections ?outs) = [a, b, c]" by (simp add: fbs)
  have encode: "encode ?cod = ?encode" by (simp add: table_codec_def)
  have valid: "?valid (FlashblocksPayloadMsg fb) \<and> length (encode ?cod (FlashblocksPayloadMsg fb)) \<le> MAX_FRAME"
    if "fb \<in> set (concat (collections ?outs))" for fb
    using that [unfolded all] parts [unfolded block_7_def part_of_next] by (auto simp: two_jobs_table_def encode MAX_FRAME_def)
  have turn: "ids_in_turn 0 [[a, b], [c]]"
    using parts [unfolded block_7_def part_of_next] by (auto simp: flashblocks_wf_def less_Suc_eq MAX_FLASHBLOCK_INDEX_def)
  have seq: "one_by_one ?cod ?valid (concat (collections ?outs))"
    using turn valid by (intro ids_one_by_one) (auto simp: fbs)
  obtain nw where nw: "line_reach ?cod (start_network (concat (collections ?outs))) nw" "line_done ?cod nw"
    using tasks_finish [OF lossy_keeps_up seq table_codec_ok line_is_tree line_finite tree_inv_start] by blast
  have stream: "nw_stream nw 2 = concat (collections ?outs)"
    using done_streams [OF lossy_keeps_up seq table_codec_ok line_is_tree tree_reaches [OF lossy_keeps_up seq table_codec_ok line_is_tree], OF nw] by simp
  obtain follower :: "(nat, unit, unit list, (nat, unit, unit list, nat, nat, nat, unit) executed_block, unit) FlashblocksStateExecutor"
    where launch: "launch False (example_node (example_env [])) (state_executor_new default_p2p_state None) [a, b, c] =
      Some (follower, [Ok [], Ok [], Ok []])" using small_follower_next [OF parts] ..
  have "\<exists>bp payload i. se_latest_payload node = Some (bp, i) \<and> se_latest_payload follower = Some (payload, i) \<and>
      bp_id payload = bc_payload_id (jb_block (last two_jobs)) \<and> block_txs (bp_block payload) = block_txs (bp_block bp)"
  proof (intro jobs_reach_tree [where cod = ?cod and a = 2, THEN conjunct2, THEN conjunct2, THEN conjunct2,
        OF small_chain_laws two_jobs_in_turn _ _ _ table_codec_ok valid line_is_tree lossy_keeps_up _ _ _ _ _ recovers_example])
    show "run_jobs list_grow True (encode ?cod) small_chain example_spans publish_flashblock_new
        (state_executor_new default_p2p_state None) two_jobs = ((self, node, ms, es), ?outs)"
      using run by (simp only: encode)
    show "launch False (example_node (example_env [])) (state_executor_new default_p2p_state None) (nw_stream nw 2) =
        Some (follower, [Ok [], Ok [], Ok []])" using launch by (simp only: stream all)
    show "ne_decode_tx (example_node (example_env [])) (tx_encoded (be_tx (jb_env (last two_jobs))) tx) = Some tx"
      if "se_latest_payload node = Some (bp, i)" and "tx \<in> set (block_txs (bp_block bp))" for bp i tx
      using that latest by (auto simp: example_node_def two_jobs_def)
    show "line_reach ?cod (start_network (concat (collections ?outs))) nw" "line_done ?cod nw" using nw by blast+
  qed (auto simp: two_jobs_def simp del: split_paired_Ex)
  moreover have "bc_payload_id (jb_block (last two_jobs)) = 8"
    by (simp add: two_jobs_def bc_payload_id_def) (simp add: next_block_def)
  ultimately obtain bp payload i where latest: "se_latest_payload node = Some (bp, i)" "se_latest_payload follower = Some (payload, i)"
      "bp_id payload = 8" "block_txs (bp_block payload) = block_txs (bp_block bp)" by auto
  note reached = nw(1) [unfolded all] stream [unfolded all]
  have "length [a, b, c] = 3" by simp
  with reached launch [folded reached(2)] latest show ?thesis by (intro exI conjI) assumption+
qed

end
