(* ===== verification/Program.thy ===== *)
theory Program
  imports Wiring Limits PublishStep
begin

text \<open>
  The program of \<^verbatim>\<open>examples/pipeline.rs\<close>: the pipeline of a block builder, and the start of a node with it.

  The steps of rblib are constructors, and the pipeline is the data its builder is given; what rblib makes of it
  (\<open>assemble\<close>), the launch of a node by reth (\<open>start_node\<close>) and the wait for its exit (\<open>wait\<close>) are parameters.
\<close>

section \<open>The pipeline\<close>

datatype 'pool pipeline_step =
    OptimismPrologue
  | AppendOrders 'pool bool
  | BreakAfterDeadline
  | PublishStep PublishFlashblock nat

datatype scoped_limits =
    FlashblockInterval FlashblockLimits
  | DeadlineMinus duration

datatype behavior = Loop

datatype 'pool flow = Flow "'pool flow_item list" "'pool pipeline_step option" "scoped_limits option"
and 'pool flow_item = Step "'pool pipeline_step" | Nested behavior "'pool flow"

definition from_millis :: "nat \<Rightarrow> duration" where
  "from_millis n = n * 1000000"

definition flashblocks_pipeline :: "'pool \<Rightarrow> nat \<Rightarrow> 'pool flow" where
  "flashblocks_pipeline pool executor =
     (let interval = from_millis 200;
          total_building_time = DeadlineMinus (from_millis 100);
          publish_flashblock = PublishStep publish_flashblock_new executor
      in Flow
           [Step OptimismPrologue,
            Nested Loop (Flow
              [Nested Loop (Flow [Step (AppendOrders pool True), Step BreakAfterDeadline]
                 (Some publish_flashblock) (Some (FlashblockInterval (with_interval interval)))),
               Step BreakAfterDeadline]
              None (Some total_building_time))]
           None None)"

section \<open>The node\<close>

text \<open>The components of the node, with its pool attached and its payload service replaced.\<close>

record ('pool, 'e, 'st) node_components =
  nc_pool :: 'pool
  nc_network :: FlashblocksNetworkBuilder
  nc_payload :: "('e, 'st) WorldChainServiceBuilder"

definition example_components ::
  "'peer FlashblocksNode \<Rightarrow> 'pool \<Rightarrow> ('e, 'st) WorldChainServiceBuilder \<Rightarrow> ('pool, 'e, 'st) node_components" where
  "example_components node pool service =
     \<lparr>nc_pool = pool, nc_network = cp_network (components_builder node), nc_payload = service\<rparr>"

text \<open>The closure that is run with the parsed arguments; it ends with the node, or with the first error.\<close>

definition run_node ::
  "(OpAddOnsBuilder \<Rightarrow> 'ao) \<Rightarrow> ('pool flow \<Rightarrow> ('e, 'st) pipeline) \<Rightarrow>
     (('pool, 'e, 'st) node_components \<Rightarrow> 'ao \<Rightarrow> ('tx, 'w, 'b, 'x, 'q) FlashblocksStateExecutor list \<Rightarrow>
        ('tx, 'w, 'b, 'x, 'q) FlashblocksStateExecutor list \<times> ('net, 'st, 'q) wiring_event list \<times> ('e, 'handle) result) \<Rightarrow>
     ('handle \<Rightarrow> ('e, unit) result) \<Rightarrow> 'pool \<Rightarrow> 'peer WorldChainArgs \<Rightarrow>
     ('tx, 'w, 'b, 'x, 'q) FlashblocksStateExecutor list \<Rightarrow>
     ('tx, 'w, 'b, 'x, 'q) FlashblocksStateExecutor list \<times> ('net, 'st, 'q) wiring_event list \<times> ('e, unit) result" where
  "run_node op_build assemble start_node wait pool args executors =
     (let config = into_config args;
          (node, executors) = flashblocks_node_new config executors;
          add_ons = op_build (add_ons_builder node)
      in case fn_flashblocks_state node of
           None \<Rightarrow> (executors, [], Panic)
         | Some executor \<Rightarrow>
             (let pipeline = assemble (flashblocks_pipeline pool executor);
                  world_service_builder = service_builder_new pipeline executor
              in case start_node (example_components node pool world_service_builder) add_ons executors of
                   (executors, events, Err e) \<Rightarrow> (executors, events, Err e)
                 | (executors, events, Panic) \<Rightarrow> (executors, events, Panic)
                 | (executors, events, Ok handle) \<Rightarrow> (executors, events, wait handle)))"

text \<open>\<open>main\<close>: an error is printed, and the process exits with 1.\<close>

datatype 'e exit = Returns | PrintsAndExits 'e nat | Panics

definition run_main :: "('e, unit) result \<Rightarrow> 'e exit" where
  "run_main r = (case r of Ok _ \<Rightarrow> Returns | Err err \<Rightarrow> PrintsAndExits err 1 | Panic \<Rightarrow> Panics)"

section \<open>Properties\<close>

text \<open>The steps of a pipeline in the order in which they are listed, an epilogue after them, and its limits.\<close>

fun flow_steps :: "'pool flow \<Rightarrow> 'pool pipeline_step list" and item_steps :: "'pool flow_item \<Rightarrow> 'pool pipeline_step list" where
  "flow_steps (Flow items epilogue limits) =
     concat (map item_steps items) @ (case epilogue of Some st \<Rightarrow> [st] | None \<Rightarrow> [])"
| "item_steps (Step st) = [st]"
| "item_steps (Nested behavior flow) = flow_steps flow"

fun flow_limits :: "'pool flow \<Rightarrow> scoped_limits list" and item_limits :: "'pool flow_item \<Rightarrow> scoped_limits list" where
  "flow_limits (Flow items epilogue limits) =
     (case limits of Some l \<Rightarrow> [l] | None \<Rightarrow> []) @ concat (map item_limits items)"
| "item_limits (Step st) = []"
| "item_limits (Nested behavior flow) = flow_limits flow"

text \<open>
  The limits of the flashblocks of this pipeline are below a limit on the deadline, and with their interval of
  200 ms creating them panics only in a scope without a deadline.
\<close>

lemma pipeline_limits:
  "flow_limits (flashblocks_pipeline pool executor) =
     [DeadlineMinus (from_millis 100), FlashblockInterval (with_interval (from_millis 200))]"
  by (simp add: flashblocks_pipeline_def Let_def)

theorem pipeline_limits_created:
  assumes "FlashblockInterval self \<in> set (flow_limits (flashblocks_pipeline pool executor))"
    and "lo_deadline ops enclosing \<noteq> None"
  shows "(limits_create False ops self elapsed gas_used enclosing :: ('e, _) result) \<noteq> Panic"
  using assms by (auto simp: pipeline_limits flashblock_limits_panic_iff with_interval_def from_millis_def)

text \<open>
  In a node that was started, the step that publishes, the protocol handler, the loop that processes the stream and
  the payload service share the executor of the node, whose events the service registered. The launch is taken to
  build the network and to spawn the payload service of the components it is given, in this order.
\<close>

theorem example_shares_executor:
  fixes start_node :: "('pool, 'e, 'st) node_components \<Rightarrow> 'ao \<Rightarrow> ('tx, 'w, 'b, 'x, 'q) FlashblocksStateExecutor list \<Rightarrow>
      ('tx, 'w, 'b, 'x, 'q) FlashblocksStateExecutor list \<times> ('net, 'st, 'q) wiring_event list \<times> ('e, 'handle) result"
  assumes "\<And>components ao execs execs' events handle. start_node components ao execs = (execs', events, Ok handle) \<Longrightarrow>
      \<exists>inner net es es' new_service service. build_network inner (nc_network components) = (es, (Ok net :: ('e, _) result)) \<and>
        spawn_payload_builder_service new_service (nc_payload components) execs = (execs', es', (Ok service :: ('e, 'srv) result)) \<and>
        events = es @ es'"
    and "run_node op_build assemble start_node wait pool args executors = (executors', events, Ok ())"
  shows "\<exists>net q. flow_steps (flashblocks_pipeline pool (length executors)) =
        [OptimismPrologue, AppendOrders pool True, BreakAfterDeadline, PublishStep publish_flashblock_new (length executors),
         BreakAfterDeadline] \<and>
      {AddRlpxSubProtocol \<lparr>pr_network = net, pr_handle = length executors\<rparr>,
       SpawnCritical ''flashblocks executor'' (Some (length executors)), RegisterPayloadEvents (length executors) q} \<subseteq> set events \<and>
      se_payload_events (executors' ! length executors) = Some q"
proof -
  let ?i = "length executors"
  obtain node executors1 where node: "flashblocks_node_new (into_config args) executors = (node, executors1)" by fastforce
  then have i: "fn_flashblocks_state node = Some ?i" "length executors1 = Suc ?i"
    "nb_flashblocks_state (cp_network (components_builder node)) = Some ?i"
    by (auto simp: flashblocks_node_new_def components_builder_def network_builder_new_def Let_def)
  let ?service = "service_builder_new (assemble (flashblocks_pipeline pool ?i)) ?i"
  obtain handle where "start_node (example_components node pool ?service) (op_build (add_ons_builder node)) executors1 =
      (executors', events, Ok handle)"
    using assms(2) node i(1) by (auto simp: run_node_def Let_def split: prod.splits result.splits)
  from assms(1) [OF this] obtain inner net es es' new_service service where
    network: "build_network inner (cp_network (components_builder node)) = (es, (Ok net :: ('e, _) result))"
    and spawned: "spawn_payload_builder_service new_service ?service executors1 = (executors', es', (Ok service :: ('e, 'srv) result))"
    and events: "events = es @ es'"
    by (auto simp: example_components_def)
  have "{AddRlpxSubProtocol \<lparr>pr_network = net, pr_handle = ?i\<rparr>, SpawnCritical ''flashblocks executor'' (Some ?i)} \<subseteq> set es"
    using network i(3) by (auto simp: build_network_def launch_executor_def protocol_new_def split: result.splits)
  moreover have "se_payload_events (executors' ! ?i) = Some (fst new_service) \<and> RegisterPayloadEvents ?i (fst new_service) \<in> set es'"
    using spawned i(2)
    by (auto simp: spawn_payload_builder_service_def service_builder_new_def register_payload_events_def Let_def
        split: result.splits prod.splits)
  moreover have "flow_steps (flashblocks_pipeline pool ?i) =
      [OptimismPrologue, AppendOrders pool True, BreakAfterDeadline, PublishStep publish_flashblock_new ?i, BreakAfterDeadline]"
    by (simp add: flashblocks_pipeline_def Let_def)
  ultimately show ?thesis using events by (intro exI [of _ net] exI [of _ "fst new_service"]) auto
qed

text \<open>
  The program exits with 1 exactly when the start or the wait ends with an error; no argument makes it panic when
  the launch and the wait do not.
\<close>

theorem example_exit:
  assumes "\<And>components ao execs. (snd (snd (start_node components ao execs)) :: ('e, 'handle) result) \<noteq> Panic"
    and "\<And>handle. wait handle \<noteq> Panic"
  shows "run_main (snd (snd (run_node op_build assemble start_node wait pool args executors))) \<noteq> Panics \<and>
    (\<forall>err. run_main (snd (snd (run_node op_build assemble start_node wait pool args executors))) = PrintsAndExits err 1 \<longleftrightarrow>
      snd (snd (run_node op_build assemble start_node wait pool args executors)) = Err err)"
proof -
  obtain node executors1 where node: "flashblocks_node_new (into_config args) executors = (node, executors1)" by fastforce
  then obtain i where i: "fn_flashblocks_state node = Some i" by (auto simp: flashblocks_node_new_def)
  let ?run = "run_node op_build assemble start_node wait pool args executors"
  let ?launched = "start_node (example_components node pool (service_builder_new (assemble (flashblocks_pipeline pool i)) i))
      (op_build (add_ons_builder node)) executors1"
  obtain execs events r where launched: "?launched = (execs, events, r)" by (metis prod_cases3)
  have "r \<noteq> Panic" using assms(1) launched by (metis snd_conv)
  then have "snd (snd ?run) \<noteq> Panic"
    using assms(2) node i launched by (cases r) (simp_all add: run_node_def Let_def)
  then show ?thesis by (cases "snd (snd ?run)") (simp_all add: run_main_def)
qed

end
