(* ===== verification/Spec2Isabelle.thy ===== *)
theory Spec2Isabelle
  imports Primitives Reduce RlpReference Wire P2P Connection Limits PayloadTxns Reverts Execution
    Platform BuildPayload BlockBuilder FlashblockBuilder StateExecutor PublishStep Network Wakeups Overlap EndToEnd Peering Wiring
    Trees Jobs Program
begin

text \<open>
  A verification development of the flashblocks node of this repository, an optimism node that builds
  the payload of a block in parts and shares each part (a flashblock) with its peers while the block is built.

  \<^bold>\<open>The program.\<close> A pipeline of rblib builds a payload as a chain of checkpoints. Its step
  \<^verbatim>\<open>PublishFlashblock\<close> (\<^verbatim>\<open>src/step/publish_flashblocks.rs\<close>) turns the checkpoints since the last barrier
  into a payload, cuts the flashblock with the transactions that are new (\<^verbatim>\<open>src/flashblocks/primitives.rs\<close>)
  and hands both to the state executor (\<^verbatim>\<open>src/flashblocks/state.rs\<close>), which keeps the flashblocks of the
  current payload and the latest payload, and publishes the flashblock over the shared P2P state
  (\<^verbatim>\<open>src/flashblocks/p2p.rs\<close>): it is sent to every connection (\<^verbatim>\<open>src/flashblocks/connection.rs\<close>) and, in
  strict order, to the stream of the node. A connection decodes what its peer sends, checks it, and publishes it
  in turn. The executor of a node reads the stream and builds, from each flashblock and the payload committed
  before, the payload up to it (\<^verbatim>\<open>src/flashblocks/builder.rs\<close>, on the executor and block builder beside it), and
  offers it to the payload service. \<^verbatim>\<open>src/node.rs\<close>, \<^verbatim>\<open>src/network.rs\<close> and \<^verbatim>\<open>src/payload.rs\<close> put a node together.

  \<^bold>\<open>The theories\<close>, with the code they model; definitions have the names of the functions, methods and types.

  \<^item> \<open>Prelude\<close>: machine types, \<open>result\<close> (\<open>Ok\<close>, \<open>Err\<close>, \<open>Panic\<close>), and runs of a state machine with two locales, one that
    lifts an invariant and one that lifts a simulation from a step to all runs.
  \<^item> \<open>Primitives\<close>, \<open>Reduce\<close>: \<^verbatim>\<open>primitives.rs\<close>. The collection \<open>Flashblocks\<close> (\<open>flashblocks_new\<close>, \<open>push\<close>),
    \<open>flashblock_new\<close>, \<open>reduce\<close>, and the conversions to a block. The locale \<open>flashblock_store\<close> is the contract of the
    collection: what a push keeps, resets, appends and refuses.
  \<^item> \<open>Blocks\<close>, \<open>Execution\<close>: the data of alloy and reth that the program builds or reads, and the operations of
    the EVM, the database, the trie and the hashes as records of parameters.
  \<^item> \<open>Codec\<close>, \<open>Wire\<close>, \<open>RlpReference\<close>: the hand-written \<open>Encodable\<close> and \<open>Decodable\<close> of \<^verbatim>\<open>primitives.rs\<close> and
    \<^verbatim>\<open>p2p.rs\<close> over the codecs of the fields. \<open>rlp_codec\<close> states what a codec promises; it is shown for the payload
    and the message from the codecs of their parts, and \<open>RlpReference\<close> provides codecs that keep the promise.
  \<^item> \<open>P2P\<close>, \<open>Peering\<close>: \<^verbatim>\<open>p2p.rs\<close>. \<open>publish\<close> with its emission loop \<open>emit_ready\<close>, the stream of a subscriber, the handle
    with its channels, and the protocol handler up to \<open>into_connection\<close>.
  \<^item> \<open>Connection\<close>, \<open>Wakeups\<close>: \<^verbatim>\<open>connection.rs\<close>, \<open>handle_flashblocks_payload_v1\<close> and \<open>poll_next\<close>, and the task that polls a
    connection, which has a turn only when it was woken.
  \<^item> \<open>Network\<close>: any number of nodes with links between them, as the step relation \<open>net_step\<close>: the publisher publishes the
    next flashblock, a connection takes a message from its queue and sends it, a node handles one that arrived.
    \<open>poll_next_is_net_steps\<close> relates it to the code.
  \<^item> \<open>Overlap\<close>: runs of a network in which every task is a publication or a connection polled until it is pending,
    for what happens when two payloads overlap.
  \<^item> \<open>Trees\<close>: networks without cycles, with whole calls of \<open>publish\<close> and \<open>poll_next\<close> as the steps (\<open>task_step\<close>), any number
    of payloads one after the other, and broadcast channels that lose messages beyond their capacity; the runs are those in
    which no receiver lags (\<open>has_room\<close>).
  \<^item> \<open>Limits\<close>, \<open>PayloadTxns\<close>, \<open>Platform\<close>: \<^verbatim>\<open>limits.rs\<close>, \<^verbatim>\<open>payload_txns.rs\<close>, and \<^verbatim>\<open>context.rs\<close>, \<^verbatim>\<open>platform.rs\<close>,
    \<^verbatim>\<open>config.rs\<close>. The wrapped iterator has the contract \<open>payload_transactions\<close>, which the wrapper keeps again.
  \<^item> \<open>Reverts\<close>, \<open>BuildPayload\<close>, \<open>PublishStep\<close>: \<^verbatim>\<open>publish_flashblocks.rs\<close>. \<open>build_op_built_payload\<close> and
    \<open>extract_previous_state\<close>, then \<open>step\<close>, \<open>before_job\<close>, \<open>after_job\<close>, the times and the metrics; a job is \<open>run_steps\<close>.
    The locale \<open>checkpoint_chain\<close> states what rblib promises of checkpoints and barriers.
  \<^item> \<open>BlockBuilder\<close>, \<open>FlashblockBuilder\<close>: \<^verbatim>\<open>block_executor.rs\<close>, \<^verbatim>\<open>block_builder.rs\<close>, \<^verbatim>\<open>block_assembler.rs\<close>, and
    \<^verbatim>\<open>builder.rs\<close> with \<open>build\<close>, from the committed payload to the outcome.
  \<^item> \<open>StateExecutor\<close>: \<^verbatim>\<open>state.rs\<close> and \<^verbatim>\<open>ctx.rs\<close>. \<open>publish_built_payload\<close>, \<open>process_flashblock\<close> with every error path, \<open>launch\<close>.
  \<^item> \<open>Wiring\<close>: \<^verbatim>\<open>node.rs\<close>, \<^verbatim>\<open>network.rs\<close>, \<^verbatim>\<open>payload.rs\<close>. What is handed to reth and rblib, as the sequence of events.
  \<^item> \<open>Program\<close>: \<^verbatim>\<open>examples/pipeline.rs\<close>, the pipeline of a block builder and the start of a node with it.
  \<^item> \<open>EndToEnd\<close>, \<open>Jobs\<close> and this theory: what crosses the components, from the job of one node to the payload of another.

  \<^bold>\<open>What is shown.\<close> The properties carry numbers, C1 and so on, in the text before them.

  \<^item> From end to end: the flashblocks of a job arrive at every connected node, over any relays and in any interleaving, in
    order, and the payload built from them has the transactions of the last published one (C1); the same for any number
    of jobs one after the other when the connections are a tree and no receiver lags (C2); a node does not rebuild its own flashblocks (C24).
  \<^item> The network: streams are prefixes of what was published (C13), honest peers are never penalised (C14), a network at
    rest has delivered everything (C3), and it comes to rest within a bound of steps (C5). This holds for the
    flashblocks of one payload; when two payloads overlap in a cycle of the network, a stream can stop before the end of
    a payload (C9) and flashblocks can go round for ever (C8). Without a cycle neither
    happens: payload after payload is delivered in order (C6) within a bound of calls (C7), as long as no
    receiver lags behind the capacity of its channel.
  \<^item> Publication and the wire: \<open>publish\<close> refines the delivery of the contiguous prefix (C16), the stream is in
    order whatever is published (C20), an index is relayed once (\<open>relayed_at_most_once\<close>), a connection forwards the first arrivals and
    penalises repetitions, until the peer turns to another payload (C17), never echoes (\<open>no_echo\<close>), and messages are read back from their encoding (C18, C21).
  \<^item> Payloads: a job publishes in sequence (C4), building it in parts is building it at once (C12, C33), its
    flashblocks convert to its last block but for the header fields that the conversion fixes (C19), the builder of a follower extends the committed payload (C11), and the latest
    payload mirrors the collection (C10, C25), which keeps its documented invariant (C22, C23, C39).
  \<^item> The parts of a node share one executor and its service starts only when the pipeline is set up (C28, C29); limits,
    iterators and reverts (C34, C35, C36).
  \<^item> What the code does on the paths where it fails or surprises: C26, C27, C30, C31, C32, C37, C38, C40.

  \<^bold>\<open>Parameters and hypotheses.\<close> Code outside \<^verbatim>\<open>src/\<close> is a parameter: the codecs of the fields (\<open>rlp_codec\<close>), the checkpoints
  (\<open>checkpoint_chain\<close>), the EVM, the provider and the hashes (\<open>exec_ops\<close>, \<open>build_env\<close>, \<open>node_env\<close>; \<open>recovers_same\<close> says
  that the recovery of a signer keeps the transaction), the broadcast channel (\<open>keeps_up\<close>: no receiver lags while at most
  the capacity of the channel is waiting), clocks as values, and the network, service and pipeline builders of reth and
  rblib. A theorem with such a hypothesis has a witness that discharges it on concrete functions.

  \<^bold>\<open>Bounds.\<close> Integers have their width: additions wrap or panic as in the source, \<open>debug\<close> tells the builds with overflow
  checks from the others. Indices of flashblocks end at \<open>MAX_FLASHBLOCK_INDEX\<close> = 100, the channels hold
  \<open>BROADCAST_BUFFER_CAPACITY\<close> = 100 messages, so C1, C3, C5, C13 and C14 speak of jobs of at most 100 flashblocks; in C6,
  C7 and C2 any number of flashblocks goes over such channels, and every step of a run has room in the queues for what it adds; frames end at
  \<open>MAX_FRAME\<close>. Two kinds of overflow are not told apart: the sums of cumulative gas in \<open>add_transactions\<close> and \<open>merge_result\<close> wrap in every build, where a
  build with overflow checks would panic; and a clock reading is a value, so that the \<open>expect\<close> on it is a panic only in \<open>flashblock_new\<close>, not in \<open>publish\<close>,
  the handler of a connection and \<open>step\<close>. No
  function of the program has fuel (\<open>drain\<close> of \<open>Overlap\<close> has one more than there are items to send): the loop of \<open>publish\<close> ends by the length of the buffer, that of a poll by what is queued, and the only
  loop that may run for ever, the wait for the header of a parent, is a \<open>partial_function\<close> whose value \<open>None\<close> is that
  it never returns (C30). The network lets a connection with a waiting item be polled at any time; \<open>Wakeups\<close> has the turns that a
  task really gets, and C40 the case in which the code loses one.

  \<^bold>\<open>Not modelled.\<close> Tracing; the parsing of the command line and the run of a pipeline, which are clap's and rblib's; the accessors that return a reference to a field
  or the EVM; serde's derived JSON and the derived \<open>Clone\<close> and \<open>Debug\<close>; the bindings of the associated types of \<^verbatim>\<open>Platform\<close>, \<^verbatim>\<open>Node\<close> and
  \<^verbatim>\<open>NodeTypes\<close>; locks, of which every operation
  here is one critical section (the exception, a subscription after its snapshot, has its own theorem,
  \<open>subscription_gap_loses_flashblock\<close>); and the scheduling of tasks beyond the interleavings of \<open>net_step\<close> and \<open>task_step\<close>.
\<close>

section \<open>From the job of one node to the state of another\<close>

text \<open>
  From the job of one node to the state of another. A new node runs the steps of a job and
  publishes its flashblocks; what it sends to its peers arrives at a connection of a second node.
  Polling the connection streams exactly the flashblocks of the job, in order, and penalises
  nothing. When the second node's state executor processes this stream without an error, its
  latest payload has the id of the job, the index of its last flashblock, and exactly the
  transactions of the payload the first node built last.
\<close>

theorem job_reaches_follower:
  fixes node :: "('tx, 'w, 'acc list, 'log, 'u, 'h, 't, 'q) node"
    and fenv :: "('e, 'tx, 'w, 'flog, 'fu, 'fi, 'fslot, 'fst, 'fh, 'ft, 's, 'acc, 'inf, 'sto, 'x, 'ctx) node_env"
  assumes "checkpoint_chain chain grow barrier_cp"
    and "bc_payload_id blk \<noteq> 0" and "0 < bc_timestamp blk"
    and "before_job blk now publish_flashblock_new = (started, started_metrics)"
    and "inputs \<noteq> []" and "length inputs \<le> Suc MAX_FLASHBLOCK_INDEX"
    and "run_steps grow debug (encode cod) env chain spans blk started
      (state_executor_new default_p2p_state None) p inputs = ((self, node, ms, es), Ok p')"
    and "rlp_codec cod valid"
    and "\<And>fb now. fb \<in> set (se_flashblocks node) \<Longrightarrow>
      valid (FlashblocksPayloadMsg fb) \<and> fits_frame (encode cod) (now, fb)"
    and "map snd inbox = map wire_bytes (sent_to_peers (over_p2p es))"
    and "launch fdebug fenv (state_executor_new p2p None) (se_flashblocks node) = Some (follower, rs)"
    and "\<And>r. r \<in> set rs \<Longrightarrow> \<exists>x. r = Ok x"
    and "recovers_same fenv"
    and "\<And>tx. tx \<in> set (span_transactions (ch_history chain p')) \<Longrightarrow>
      ne_decode_tx fenv (tx_encoded (be_tx env) tx) = Some tx"
  shows "\<exists>conn receiver conn_es bp payload.
    (poll_next False cod append_msgs False False new_connection default_p2p_state [] inbox :: ('err, _) result) =
      Ok ((conn, receiver, [], []), conn_es, Pending True) \<and>
    streamed (published conn_es) = se_flashblocks node \<and>
    se_latest_payload node = Some (bp, of_nat (length inputs - 1)) \<and>
    se_latest_payload follower = Some (payload, of_nat (length inputs - 1)) \<and>
    bp_id payload = bc_payload_id blk \<and> block_txs (bp_block payload) = block_txs (bp_block bp)"
proof -
  note job = assms(1-10)
  obtain bp where step: "in_step chain env blk self node p' bp" and len: "length (se_flashblocks node) = length inputs"
    using job_published(1) [OF assms(1-7)] by blast
  obtain conn receiver conn_es where received:
    "(poll_next False cod append_msgs False False new_connection default_p2p_state [] inbox :: ('err, _) result) =
      Ok ((conn, receiver, [], []), conn_es, Pending True)"
    "streamed (published conn_es) = se_flashblocks node"
    using job_received [OF job, where ?'x = 'err] by blast
  have "se_latest_payload node = Some (bp, of_nat (length inputs - 1))"
    using in_step_latest [OF step] len by simp
  with received follower_of_job [OF step len assms(2,6,11-14)] show ?thesis by metis
qed

theorem job_reaches_follower_witness:
  "\<exists>(self :: PublishFlashblock) (node :: (nat, unit, unit list, nat, nat, nat, unit, unit) node) ms es p cod
      (follower :: (nat, unit, unit list, (nat, unit, unit list, nat, nat, nat, unit) executed_block, unit) FlashblocksStateExecutor)
      conn receiver conn_es bp payload.
     run_steps list_grow True (encode cod) small_env small_chain example_spans example_block
       (fst (before_job example_block 10 publish_flashblock_new)) publisher_node job_start example_job =
       ((self, node, ms, es), Ok p) \<and>
     launch False (example_node (example_env [])) (state_executor_new default_p2p_state None) (se_flashblocks node) =
       Some (follower, [Ok [], Ok []]) \<and>
     (poll_next False cod append_msgs False False new_connection default_p2p_state []
        (map (\<lambda>m. (0, wire_bytes m)) (sent_to_peers (over_p2p es))) :: (unit, _) result) =
       Ok ((conn, receiver, [], []), conn_es, Pending True) \<and>
     streamed (published conn_es) = se_flashblocks node \<and> length (se_flashblocks node) = 2 \<and>
     se_latest_payload node = Some (bp, 1) \<and> se_latest_payload follower = Some (payload, 1) \<and>
     block_txs (bp_block payload) = block_txs (bp_block bp)"
proof -
  let ?encode = "\<lambda>m. [message_key m]"
  obtain self ms es p a b and node :: "(nat, unit, unit list, nat, nat, nat, unit, unit) node" where
    run: "run_steps list_grow True ?encode small_env small_chain example_spans example_block
      (fst (before_job example_block 10 publish_flashblock_new)) publisher_node job_start example_job =
      ((self, node, ms, es), Ok p)"
    and fbs: "se_flashblocks node = [a, b]" and a: "block_7 0 [[0]] a" and b: "block_7 1 [[4]] b"
    and txs: "span_transactions (fst p) = [0, 4]"
    using small_job [of ?encode] by (elim exE conjE)
  let ?cod = "table_codec (\<lambda>k. FlashblocksPayloadMsg (if k = 0 then a else b)) message_key"
  obtain follower ::
      "(nat, unit, unit list, (nat, unit, unit list, nat, nat, nat, unit) executed_block, unit) FlashblocksStateExecutor"
    where launch: "launch False (example_node (example_env []))
      (state_executor_new default_p2p_state None) [a, b] = Some (follower, [Ok [], Ok []])"
    using small_follower [OF a b] ..
  have encode: "encode ?cod = ?encode" by (simp add: table_codec_def)
  let ?inbox = "map (\<lambda>m. (0 :: i64, wire_bytes m)) (sent_to_peers (over_p2p es))"
  have inbox: "map snd ?inbox = map wire_bytes (sent_to_peers (over_p2p es))" by (simp add: comp_def)
  have valid: "FlashblocksPayloadMsg (if message_key (FlashblocksPayloadMsg fb) = 0 then a else b) =
      FlashblocksPayloadMsg fb \<and> fits_frame (encode ?cod) (now, fb)"
    if "fb \<in> set (se_flashblocks node)" for fb now
    using that a b by (auto simp: fbs block_7_def fits_frame_def encode MAX_FRAME_def)
  have "\<exists>conn receiver conn_es bp payload.
    (poll_next False ?cod append_msgs False False new_connection default_p2p_state [] ?inbox :: (unit, _) result) =
      Ok ((conn, receiver, [], []), conn_es, Pending True) \<and>
    streamed (published conn_es) = se_flashblocks node \<and>
    se_latest_payload node = Some (bp, of_nat (length example_job - 1)) \<and>
    se_latest_payload follower = Some (payload, of_nat (length example_job - 1)) \<and>
    bp_id payload = bc_payload_id example_block \<and> block_txs (bp_block payload) = block_txs (bp_block bp)"
  proof (rule job_reaches_follower [OF small_chain_laws _ _ prod.collapse [symmetric] _ _ _ table_codec_ok valid inbox _ _ recovers_example])
    show "run_steps list_grow True (encode ?cod) small_env small_chain example_spans example_block
        (fst (before_job example_block 10 publish_flashblock_new)) (state_executor_new default_p2p_state None) job_start example_job =
        ((self, node, ms, es), Ok p)"
      using run by (simp only: encode publisher_node_def)
    show "launch False (example_node (example_env [])) (state_executor_new default_p2p_state None) (se_flashblocks node) =
        Some (follower, [Ok [], Ok []])" using launch by (simp only: fbs)
    show "ne_decode_tx (example_node (example_env [])) (tx_encoded (be_tx small_env) tx) = Some tx"
      if "tx \<in> set (span_transactions (ch_history small_chain p))" for tx
      using that txs by (auto simp: example_node_def)
  qed (auto simp: example_block_def bc_payload_id_def MAX_FLASHBLOCK_INDEX_def)
  then have "\<exists>conn receiver conn_es bp payload.
    (poll_next False ?cod append_msgs False False new_connection default_p2p_state [] ?inbox :: (unit, _) result) =
      Ok ((conn, receiver, [], []), conn_es, Pending True) \<and>
    streamed (published conn_es) = se_flashblocks node \<and> length (se_flashblocks node) = 2 \<and>
    se_latest_payload node = Some (bp, 1) \<and> se_latest_payload follower = Some (payload, 1) \<and>
    block_txs (bp_block payload) = block_txs (bp_block bp)"
    by (auto simp: fbs)
  with run [folded encode] launch [folded fbs] show ?thesis by blast
qed

text \<open>
  C1: From the job of one node to the state of every node. A new node of a network runs the
  steps of a job. What it sends is queued for its peers, and whatever the nodes do then, in any order, until
  nothing is left to do: the stream of every node that is connected to it, over however many relays, is
  exactly the flashblocks of the job. When the state executor of such a node processes its stream without an
  error, its latest payload has the id of the job, the index of its last flashblock, and exactly the
  transactions of the payload that the first node built last.
\<close>

theorem job_reaches_network:
  fixes node :: "('tx, 'w, 'acc list, 'log, 'u, 'h, 't, 'q) node"
    and fenv :: "('e, 'tx, 'w, 'flog, 'fu, 'fi, 'fslot, 'fst, 'fh, 'ft, 's, 'acc, 'inf, 'sto, 'x, 'ctx) node_env"
    and links :: "'n \<Rightarrow> 'n \<Rightarrow> bool"
  assumes "checkpoint_chain chain grow barrier_cp"
    and "bc_payload_id blk \<noteq> 0" and "0 < bc_timestamp blk"
    and "before_job blk now publish_flashblock_new = (started, started_metrics)"
    and "inputs \<noteq> []" and "length inputs \<le> BROADCAST_BUFFER_CAPACITY"
    and "run_steps grow debug (encode cod) env chain spans blk started
      (state_executor_new default_p2p_state None) p inputs = ((self, node, ms, es), Ok p')"
    and "rlp_codec cod valid"
    and "\<And>fb. fb \<in> set (se_flashblocks node) \<Longrightarrow>
      valid (FlashblocksPayloadMsg fb) \<and> length (encode cod (FlashblocksPayloadMsg fb)) \<le> MAX_FRAME"
    and "keeps_up deliver"
    and "(net_step deliver cod links origin)\<^sup>*\<^sup>* (start_network (se_flashblocks node)) nw"
    and "at_rest deliver cod links origin nw" and "links\<^sup>*\<^sup>* origin a"
    and "launch fdebug fenv (state_executor_new p2p None) (nw_stream nw a) = Some (follower, rs)"
    and "\<And>r. r \<in> set rs \<Longrightarrow> \<exists>x. r = Ok x"
    and "recovers_same fenv"
    and "\<And>tx. tx \<in> set (span_transactions (ch_history chain p')) \<Longrightarrow>
      ne_decode_tx fenv (tx_encoded (be_tx env) tx) = Some tx"
  shows "(\<exists>sent. (net_step deliver cod links origin)\<^sup>*\<^sup>* (start_network (se_flashblocks node)) sent \<and> nw_left sent = [] \<and>
      (\<forall>y. links origin y \<longrightarrow> nw_rx sent origin y = map Ok (sent_to_peers (over_p2p es)))) \<and>
    nw_stream nw a = se_flashblocks node \<and>
    (\<exists>bp payload. se_latest_payload node = Some (bp, of_nat (length inputs - 1)) \<and>
      se_latest_payload follower = Some (payload, of_nat (length inputs - 1)) \<and>
      bp_id payload = bc_payload_id blk \<and> block_txs (bp_block payload) = block_txs (bp_block bp))"
proof -
  let ?fbs = "se_flashblocks node"
  have few: "length inputs \<le> Suc MAX_FLASHBLOCK_INDEX"
    using assms(6) by (simp add: BROADCAST_BUFFER_CAPACITY_def MAX_FLASHBLOCK_INDEX_def)
  obtain bp where step: "in_step chain env blk self node p' bp" and len: "length ?fbs = length inputs"
    using job_published(1) [OF assms(1-5) few assms(7)] by blast
  obtain ps where es: "over_p2p es = snd (run (publish_step (encode cod)) default_p2p_state ps)" and ps: "map snd ps = ?fbs"
    using job_published(2) [OF assms(1-5) few assms(7)] by blast
  have "run (publish_step (encode cod)) (nw_state (start_network ?fbs) origin) ps =
      (fst (run (publish_step (encode cod)) default_p2p_state ps), over_p2p es)"
    unfolding es by (simp add: start_network_def)
  moreover have "length ps \<le> BROADCAST_BUFFER_CAPACITY" using ps len assms(6) by (metis length_map)
  ultimately  have sent: "\<exists>sent. (net_step deliver cod links origin)\<^sup>*\<^sup>* (start_network ?fbs) sent \<and> nw_left sent = [] \<and>
      (\<forall>y. links origin y \<longrightarrow> nw_rx sent origin y = map Ok (sent_to_peers (over_p2p es)))"
    using job_in_network [where cod = cod and links = links and nw = "start_network ?fbs" and origin = origin, OF _ _ assms(10)]
    by (force simp: start_network_def ps append_msgs_def)
  have "publishable cod valid ?fbs"
    using step len assms(6,9) by (simp add: publishable_def in_step_def)
  then have stream: "nw_stream nw a = ?fbs" by (rule rest_delivers [OF assms(8) _ assms(10-13)])
  with follower_of_job [OF step len assms(2) few _ assms(15-17)] assms(14)
  show ?thesis using sent in_step_latest [OF step] len by simp
qed

theorem job_reaches_network_witness:
  "\<exists>(node :: (nat, unit, unit list, nat, nat, nat, unit, unit) node) cod (nw :: (nat, unit, unit list) network)
      (follower :: (nat, unit, unit list, (nat, unit, unit list, nat, nat, nat, unit) executed_block, unit) FlashblocksStateExecutor)
      bp payload.
     (net_step lossy_channel cod line_links 0)\<^sup>*\<^sup>* (start_network (se_flashblocks node)) nw \<and> length (se_flashblocks node) = 2 \<and>
     nw_stream nw 2 = se_flashblocks node \<and>
     launch False (example_node (example_env [])) (state_executor_new default_p2p_state None) (nw_stream nw 2) =
       Some (follower, [Ok [], Ok []]) \<and>
     se_latest_payload node = Some (bp, 1) \<and> se_latest_payload follower = Some (payload, 1) \<and>
     block_txs (bp_block payload) = block_txs (bp_block bp)"
proof -
  let ?encode = "\<lambda>m. [message_key m]"
  obtain self ms es p a b and node :: "(nat, unit, unit list, nat, nat, nat, unit, unit) node" where
    run: "run_steps list_grow True ?encode small_env small_chain example_spans example_block
      (fst (before_job example_block 10 publish_flashblock_new)) publisher_node job_start example_job =
      ((self, node, ms, es), Ok p)"
    and fbs: "se_flashblocks node = [a, b]" and a: "block_7 0 [[0]] a" and b: "block_7 1 [[4]] b"
    and txs: "span_transactions (fst p) = [0, 4]"
    using small_job [of ?encode] by (elim exE conjE)
  let ?cod = "table_codec (\<lambda>k. FlashblocksPayloadMsg (if k = 0 then a else b)) message_key"
  let ?valid = "\<lambda>m. FlashblocksPayloadMsg (if message_key m = 0 then a else b) = m"
  obtain follower ::
      "(nat, unit, unit list, (nat, unit, unit list, nat, nat, nat, unit) executed_block, unit) FlashblocksStateExecutor"
    where launch: "launch False (example_node (example_env []))
      (state_executor_new default_p2p_state None) [a, b] = Some (follower, [Ok [], Ok []])"
    using small_follower [OF a b] ..
  have encode: "encode ?cod = ?encode" by (simp add: table_codec_def)
  have valid: "?valid (FlashblocksPayloadMsg fb) \<and> length (encode ?cod (FlashblocksPayloadMsg fb)) \<le> MAX_FRAME"
    if "fb \<in> set (se_flashblocks node)" for fb
    using that a b by (auto simp: fbs block_7_def encode MAX_FRAME_def)
  have "flashblocks_wf [a, b]" using a b by (auto simp: flashblocks_wf_def block_7_def less_Suc_eq)
  then have pub: "publishable ?cod ?valid (se_flashblocks node)"
    using valid by (simp add: publishable_def fbs BROADCAST_BUFFER_CAPACITY_def)
  obtain nw :: "(nat, unit, unit list) network" where nw: "(net_step lossy_channel ?cod line_links 0)\<^sup>*\<^sup>* (start_network (se_flashblocks node)) nw"
    "at_rest lossy_channel ?cod line_links 0 nw"
    using reaches_rest [OF table_codec_ok pub lossy_keeps_up line_links_finite rtranclp.rtrancl_refl] by blast
  have stream: "nw_stream nw 2 = [a, b]"
    using rest_delivers [OF table_codec_ok pub lossy_keeps_up nw line_reaches] by (simp only: fbs)
  have "nw_stream nw 2 = se_flashblocks node \<and>
    (\<exists>bp payload. se_latest_payload node = Some (bp, of_nat (length example_job - 1)) \<and>
      se_latest_payload follower = Some (payload, of_nat (length example_job - 1)) \<and>
      bp_id payload = bc_payload_id example_block \<and> block_txs (bp_block payload) = block_txs (bp_block bp))"
  proof (rule conjunct2 [OF job_reaches_network [OF small_chain_laws _ _ prod.collapse [symmetric] _ _ _ table_codec_ok valid
        lossy_keeps_up nw line_reaches _ _ recovers_example]])
    show "run_steps list_grow True (encode ?cod) small_env small_chain example_spans example_block
        (fst (before_job example_block 10 publish_flashblock_new)) (state_executor_new default_p2p_state None) job_start example_job =
        ((self, node, ms, es), Ok p)"
      using run by (simp only: encode publisher_node_def)
    show "launch False (example_node (example_env [])) (state_executor_new default_p2p_state None) (nw_stream nw 2) =
        Some (follower, [Ok [], Ok []])" using launch by (simp only: stream)
    show "ne_decode_tx (example_node (example_env [])) (tx_encoded (be_tx small_env) tx) = Some tx"
      if "tx \<in> set (span_transactions (ch_history small_chain p))" for tx
      using that txs by (auto simp: example_node_def)
  qed (auto simp: example_block_def bc_payload_id_def BROADCAST_BUFFER_CAPACITY_def)
  then have "nw_stream nw 2 = se_flashblocks node \<and>
    (\<exists>bp payload. se_latest_payload node = Some (bp, 1) \<and> se_latest_payload follower = Some (payload, 1) \<and>
      block_txs (bp_block payload) = block_txs (bp_block bp))" by auto
  with nw(1) launch [folded stream] fbs show ?thesis by (metis length_Cons list.size(3) numeral_2_eq_2)
qed

text \<open>
  C24: A node does not rebuild what it published itself. After the steps of a job, the node's own
  executor reads the job's flashblocks from the stream, in any order and any number of times:
  none is executed or pushed again, none is an error, and the only effect is that the pending block
  is the executed block of the payload the job built last.
\<close>

theorem own_stream_not_rebuilt:
  fixes node node' :: "('tx, 'w, 'acc list, 'log, 'u, 'h, 't, 'q) node"
    and fenv :: "('e, 'tx, 'w, 'log, 'u, 'fi, 'fslot, 'fst, 'h, 't, 's, 'acc, 'inf, 'sto, 'x, 'ctx) node_env"
  assumes "checkpoint_chain chain grow barrier_cp"
    and "flashblocks_wf (se_flashblocks node)"
    and "p_payload_id (hd (se_flashblocks node)) \<noteq> bc_payload_id blk"
    and "b_timestamp (the (p_base (hd (se_flashblocks node)))) < bc_timestamp blk"
    and "before_job blk now self = (started, started_metrics)" and "pf_block_number self = 0"
    and "inputs \<noteq> []" and "length inputs < 2 ^ 64"
    and "run_steps grow debug encode_msg env chain spans blk started node p inputs = ((self', node', ms, es), Ok p')"
    and "stream \<noteq> []" and "set stream \<subseteq> set (se_flashblocks node')"
  shows "\<exists>bp. se_latest_payload node' = Some (bp, of_nat (length inputs - 1)) \<and>
    launch fdebug fenv node' stream =
      Some (node'\<lparr>se_pending_block := bp_executed_block bp\<rparr>, replicate (length stream) (Ok []))"
proof -
  obtain bp where step: "in_step chain env blk self' node' p' bp" and len: "length (se_flashblocks node') = length inputs"
    by (rule job_Ok_in_step [OF assms(1-9)])
  note facts = step [unfolded in_step_def]
  have latest: "se_latest_payload node' = Some (bp, of_nat (length inputs - 1))"
    using facts last_index_count last_index_wf len by metis
  have "bp_id bp = p_payload_id fb \<and> p_index fb \<le> of_nat (length inputs - 1)" if "fb \<in> set stream" for fb
  proof -
    have "fb \<in> set (se_flashblocks node')" using that assms(11) by blast
    then show ?thesis using facts index_le_last len assms(8) by metis
  qed
  then have "already_processed (node'\<lparr>se_pending_block := pending\<rparr>) fb = Some bp" if "fb \<in> set stream" for fb pending
    using that by (simp add: already_processed_def latest)
  then have "launch fdebug fenv (node'\<lparr>se_pending_block := pending\<rparr>) stream =
      Some (node'\<lparr>se_pending_block := if stream = [] then pending else bp_executed_block bp\<rparr>, replicate (length stream) (Ok []))" for pending
    by (induction stream arbitrary: pending) (auto simp: process_flashblock_def)
  from this [of "se_pending_block node'"] show ?thesis using latest assms(10) by simp
qed

theorem own_stream_not_rebuilt_witness:
  "\<exists>self (node :: (nat, unit, unit list, nat, nat, nat, unit, unit) node) ms es p
      (bp :: (nat, unit, unit list, nat, nat, nat, unit) built_payload) a b.
     run_steps list_grow True (\<lambda>_. []) small_env small_chain example_spans example_block
       (fst (before_job example_block 10 publish_flashblock_new)) publisher_node job_start example_job =
       ((self, node, ms, es), Ok p) \<and> se_flashblocks node = [a, b] \<and>
     launch False (example_node (example_env [])) node [a, b] =
       Some (node\<lparr>se_pending_block := bp_executed_block bp\<rparr>, [Ok [], Ok []])"
proof -
  obtain self ms es p a b and node :: "(nat, unit, unit list, nat, nat, nat, unit, unit) node" where
    run: "run_steps list_grow True (\<lambda>_. []) small_env small_chain example_spans example_block
      (fst (before_job example_block 10 publish_flashblock_new)) publisher_node job_start example_job =
      ((self, node, ms, es), Ok p)"
    and fbs: "se_flashblocks node = [a, b]"
    using small_job [of "\<lambda>_. []"] by (elim exE conjE)
  have "\<exists>bp. se_latest_payload node = Some (bp, of_nat (length example_job - 1)) \<and>
    launch False (example_node (example_env [])) node [a, b] =
      Some (node\<lparr>se_pending_block := bp_executed_block bp\<rparr>, replicate (length [a, b]) (Ok []))"
    by (rule own_stream_not_rebuilt [OF small_chain_laws _ _ _ prod.collapse [symmetric] _ _ _ run])
      (simp_all add: fbs example_block_def bc_payload_id_def default_base_def publish_flashblock_new_def)
  then obtain bp :: "(nat, unit, unit list, nat, nat, nat, unit) built_payload" where "launch False (example_node (example_env [])) node [a, b] =
      Some (node\<lparr>se_pending_block := bp_executed_block bp\<rparr>, [Ok [], Ok []])"
    unfolding length_Cons list.size replicate.simps by blast
  with run fbs show ?thesis by blast
qed

end
